(* ===== verification/Prelude.thy ===== *)
theory Prelude
  imports Main "HOL-Library.List_Lexorder"
begin

text \<open>
  Shared ground of the development.

  \<^item> Python's \<open>str\<close> is a sequence of code points (surrogates included), so a string of the
    program is a list of natural numbers; \<open>ascii\<close> turns a HOL literal into one. With the
    lexicographic order of the library on lists, \<open>sort\<close> is Python's \<open>sorted\<close> on strings.
  \<^item> An exception is a value: \<open>exc + 'a\<close> with \<open>Inl\<close> for the raised exception, chained by
    \<open>bindR\<close>.
  \<^item> The two bounded diagnostic lists of the checker share one contract, the locale
    \<open>bounded_log\<close>; \<open>emits\<close> says which messages a statement sequence sends to such a list.
\<close>

named_theorems ascii_simps
named_theorems result_simps
named_theorems emits_intros

subsection \<open>Strings\<close>

type_synonym ustring = "nat list"

definition ascii :: "string \<Rightarrow> ustring" where
  "ascii s = map of_char s"

lemma ascii_inject [simp]: "ascii s = ascii t \<longleftrightarrow> s = t"
proof -
  have "inj (of_char :: char \<Rightarrow> nat)" by (rule inj_of_char)
  then have "inj (map (of_char :: char \<Rightarrow> nat))" by (rule inj_mapI)
  then show ?thesis by (simp add: ascii_def inj_eq)
qed

lemma length_ascii [simp]: "length (ascii s) = length s"
  by (simp add: ascii_def)

lemma ascii_Nil [simp]: "ascii [] = []"
  by (simp add: ascii_def)

lemma ascii_eq_Nil [simp]: "ascii s = [] \<longleftrightarrow> s = []" "[] = ascii s \<longleftrightarrow> s = []"
  by (auto simp: ascii_def)

lemma ascii_Cons [ascii_simps]: "ascii (c # s) = of_char c # ascii s"
  by (simp add: ascii_def)

lemma ascii_append [ascii_simps]: "ascii (s @ t) = ascii s @ ascii t"
  by (simp add: ascii_def)

lemma ascii_less_256: "c \<in> set (ascii s) \<Longrightarrow> c < 256"
  by (auto simp: ascii_def)

subsection \<open>Decimal digits\<close>

text \<open>The decimal digits of a natural number, most significant first, as \<open>str\<close> prints them.\<close>

fun digits10 :: "nat \<Rightarrow> nat list" where
  "digits10 n = (if n < 10 then [n] else digits10 (n div 10) @ [n mod 10])"

declare digits10.simps [simp del]

definition py_str_nat :: "nat \<Rightarrow> ustring" where
  "py_str_nat n = map (\<lambda>d. 48 + d) (digits10 n)"

definition py_str_int :: "int \<Rightarrow> ustring" where
  "py_str_int i = (if i < 0 then 45 # py_str_nat (nat (- i)) else py_str_nat (nat i))"

fun digits_value :: "nat \<Rightarrow> nat list \<Rightarrow> nat" where
  "digits_value acc [] = acc"
| "digits_value acc (d # ds) = digits_value (10 * acc + d) ds"

lemma digits_value_append [simp]:
  "digits_value acc (xs @ ys) = digits_value (digits_value acc xs) ys"
  by (induction xs arbitrary: acc) auto

lemma digits10_small: "d \<in> set (digits10 n) \<Longrightarrow> d < 10"
proof (induction n rule: digits10.induct)
  case (1 n)
  show ?case
  proof (cases "n < 10")
    case True
    with "1.prems" show ?thesis by (simp add: digits10.simps [of n])
  next
    case False
    with "1.prems" have "d \<in> set (digits10 (n div 10)) \<or> d = n mod 10"
      by (auto simp: digits10.simps [of n])
    with False "1.IH" show ?thesis by auto
  qed
qed

lemma digits10_not_Nil [simp]: "digits10 n \<noteq> []"
  by (subst digits10.simps) simp

lemma digits_value_digits10 [simp]: "digits_value 0 (digits10 n) = n"
proof (induction n rule: digits10.induct)
  case (1 n)
  then show ?case by (cases "n < 10") (simp_all add: digits10.simps [of n])
qed

lemma digits10_inject [simp]: "digits10 m = digits10 n \<longleftrightarrow> m = n"
  by (metis digits_value_digits10)

lemma py_str_nat_inject [simp]: "py_str_nat m = py_str_nat n \<longleftrightarrow> m = n"
proof
  assume "py_str_nat m = py_str_nat n"
  then have "map (\<lambda>d. 48 + d) (digits10 m) = map (\<lambda>d. 48 + d) (digits10 n)"
    by (simp only: py_str_nat_def)
  moreover have "inj (\<lambda>d. 48 + d :: nat)" by (rule injI) simp
  ultimately have "digits10 m = digits10 n"
    using inj_map_eq_map by blast
  then show "m = n" by simp
qed simp

lemma py_str_nat_range: "c \<in> set (py_str_nat n) \<Longrightarrow> 48 \<le> c \<and> c < 58"
  by (auto simp: py_str_nat_def dest: digits10_small)

subsection \<open>Exceptions as values\<close>

text \<open>
  \<open>JSONArtifactError\<close> is a subclass of \<open>JSONDocumentError\<close>, which is a \<open>ValueError\<close>;
  the other constructors stand for the built-in exceptions the modelled code could raise.
\<close>

datatype exc =
    JSONDocumentError ustring
  | JSONArtifactError ustring
  | KeyError
  | TypeError
  | ValueError
  | DecimalInvalidOperation
  | AssertionError
  | OSError

type_synonym 'a result = "exc + 'a"

definition bindR :: "'e + 'a \<Rightarrow> ('a \<Rightarrow> 'e + 'b) \<Rightarrow> 'e + 'b" where
  "bindR m f = (case m of Inl e \<Rightarrow> Inl e | Inr x \<Rightarrow> f x)"

lemma bindR_simps [simp, result_simps]:
  "bindR (Inl e) f = Inl e"
  "bindR (Inr x) f = f x"
  by (simp_all add: bindR_def)

lemma bindR_cong [fundef_cong]:
  "m = m' \<Longrightarrow> (\<And>x. m' = Inr x \<Longrightarrow> f x = g x) \<Longrightarrow> bindR m f = bindR m' g"
  by (auto simp: bindR_def split: sum.split)

lemma bindR_eq_Inr: "bindR m f = Inr y \<longleftrightarrow> (\<exists>x. m = Inr x \<and> f x = Inr y)"
  by (cases m) auto

lemma bindR_eq_Inl: "bindR m f = Inl e \<longleftrightarrow> m = Inl e \<or> (\<exists>x. m = Inr x \<and> f x = Inl e)"
  by (cases m) auto

text \<open>A \<open>for\<close> loop whose body may raise: the first exception ends the loop.\<close>

fun foldR :: "('a \<Rightarrow> 's \<Rightarrow> 'e + 's) \<Rightarrow> 'a list \<Rightarrow> 's \<Rightarrow> 'e + 's" where
  "foldR f [] s = Inr s"
| "foldR f (x # xs) s = bindR (f x s) (foldR f xs)"

lemma foldR_cong [fundef_cong]:
  "xs = ys \<Longrightarrow> s = t \<Longrightarrow> (\<And>x u. x \<in> set ys \<Longrightarrow> f x u = g x u) \<Longrightarrow> foldR f xs s = foldR g ys t"
proof (induction xs arbitrary: ys s t)
  case Nil
  then show ?case by auto
next
  case (Cons x xs)
  then have "foldR f xs u = foldR g xs u" for u by auto
  with Cons.prems show ?case by (auto intro!: bindR_cong)
qed

lemma foldR_append: "foldR f (xs @ ys) s = bindR (foldR f xs s) (foldR f ys)"
proof (induction xs arbitrary: s)
  case Nil
  then show ?case by simp
next
  case (Cons x xs)
  then show ?case by (cases "f x s") simp_all
qed

text \<open>The loop keeps an invariant its body keeps, and raises only what its body raises.\<close>

lemma foldR_invariant:
  assumes "foldR f xs s = Inr t" and "P s"
    and "\<And>x u v. x \<in> set xs \<Longrightarrow> P u \<Longrightarrow> f x u = Inr v \<Longrightarrow> P v"
  shows "P t"
  using assms
proof (induction xs arbitrary: s)
  case Nil
  then show ?case by simp
next
  case (Cons x xs)
  from Cons.prems(1) obtain u where u: "f x s = Inr u" "foldR f xs u = Inr t"
    by (auto simp: bindR_eq_Inr)
  have "P u" using Cons.prems(2) u(1) by (rule Cons.prems(3) [rotated]) simp
  with u(2) show ?case by (rule Cons.IH) (metis Cons.prems(3) list.set_intros(2))
qed

lemma foldR_total:
  assumes "\<And>x u. x \<in> set xs \<Longrightarrow> P u \<Longrightarrow> \<exists>v. f x u = Inr v \<and> P v" and "P s"
  shows "\<exists>t. foldR f xs s = Inr t \<and> P t"
  using assms
proof (induction xs arbitrary: s)
  case Nil
  then show ?case by simp
next
  case (Cons x xs)
  then obtain u where "f x s = Inr u" "P u" by fastforce
  with Cons show ?case by simp
qed

text \<open>A list comprehension whose element expression may raise.\<close>

fun mapR :: "('a \<Rightarrow> 'e + 'b) \<Rightarrow> 'a list \<Rightarrow> 'e + 'b list" where
  "mapR f [] = Inr []"
| "mapR f (x # xs) = bindR (f x) (\<lambda>y. bindR (mapR f xs) (\<lambda>ys. Inr (y # ys)))"

lemma mapR_cong [fundef_cong]:
  "xs = ys \<Longrightarrow> (\<And>x. x \<in> set ys \<Longrightarrow> f x = g x) \<Longrightarrow> mapR f xs = mapR g ys"
  by (induction xs arbitrary: ys) auto

lemma mapR_eq_Inr: "mapR f xs = Inr ys \<longleftrightarrow> list_all2 (\<lambda>x y. f x = Inr y) xs ys"
  by (induction xs arbitrary: ys) (auto simp: bindR_eq_Inr list_all2_Cons1)

lemma mapR_pure: "(\<And>x. x \<in> set xs \<Longrightarrow> f x = Inr (g x)) \<Longrightarrow> mapR f xs = Inr (map g xs)"
  by (induction xs) auto

subsection \<open>Statement sequences and bounded logs\<close>

text \<open>A block of statements over one state, run in order; an \<open>if\<close> without \<open>else\<close>.\<close>

definition perform :: "('s \<Rightarrow> 's) list \<Rightarrow> 's \<Rightarrow> 's" where
  "perform = fold (\<lambda>f. f)"

definition guarded :: "bool \<Rightarrow> ('s \<Rightarrow> 's) \<Rightarrow> 's \<Rightarrow> 's" where
  "guarded b f = (if b then f else id)"

lemma perform_simps [simp]:
  "perform [] s = s"
  "perform (f # fs) s = perform fs (f s)"
  by (simp_all add: perform_def)

lemma fold_body_cong [fundef_cong]:
  "xs = ys \<Longrightarrow> (\<And>x. x \<in> set ys \<Longrightarrow> f x = g x) \<Longrightarrow> fold f xs = fold g ys"
  by (rule ext) (auto intro: fold_cong)

lemma guarded_simps [simp]:
  "guarded True f = f"
  "guarded False f = id"
  by (simp_all add: guarded_def)

text \<open>
  \<open>emits cap f ms\<close>: on every log within the bound, \<open>f\<close> appends the messages \<open>ms\<close> in
  order and drops what the bound leaves no room for.
\<close>

definition emits :: "nat \<Rightarrow> ('l list \<Rightarrow> 'l list) \<Rightarrow> 'l list \<Rightarrow> bool" where
  "emits cap f ms \<longleftrightarrow> (\<forall>logs. length logs \<le> cap \<longrightarrow> f logs = take cap (logs @ ms))"

lemma emits_id [emits_intros]: "emits cap id []"
  by (simp add: emits_def)

lemma take_take_append: "take n (take n xs @ ys) = take n (xs @ ys)"
  by (simp add: take_append min_def)

lemma emits_comp:
  assumes "emits cap f ms" and "emits cap g ns"
  shows "emits cap (\<lambda>logs. g (f logs)) (ms @ ns)"
  using assms by (simp add: emits_def take_take_append del: take_append)

lemma emits_perform_Nil [emits_intros]: "emits cap (perform []) []"
  by (simp add: emits_def)

lemma emits_perform_Cons [emits_intros]:
  "emits cap f ms \<Longrightarrow> emits cap (perform fs) ns \<Longrightarrow> emits cap (perform (f # fs)) (ms @ ns)"
  using emits_comp [of cap f ms "perform fs" ns] by (simp add: emits_def)

lemma emits_guarded [emits_intros]:
  "(b \<Longrightarrow> emits cap f ms) \<Longrightarrow> emits cap (guarded b f) (if b then ms else [])"
  by (cases b) (simp_all add: emits_id)

lemma emits_fold:
  "(\<And>x. x \<in> set xs \<Longrightarrow> emits cap (f x) (g x)) \<Longrightarrow> emits cap (fold f xs) (concat (map g xs))"
proof (induction xs)
  case Nil
  then show ?case by (simp add: emits_def)
next
  case (Cons x xs)
  then have "emits cap (\<lambda>logs. fold f xs (f x logs)) (g x @ concat (map g xs))"
    by (intro emits_comp) simp_all
  then show ?case by (simp add: emits_def)
qed

lemma emits_empty_log: "emits cap f ms \<Longrightarrow> f [] = take cap ms"
  by (simp add: emits_def)

lemma emits_length: "emits cap f ms \<Longrightarrow> length logs \<le> cap \<Longrightarrow> length (f logs) \<le> cap"
  by (simp add: emits_def)

text \<open>
  \<open>checks cap f P\<close>: the block \<open>f\<close> stays silent exactly when \<open>P\<close> holds. The rules compute
  the condition of a block from its statements.
\<close>

definition checks :: "nat \<Rightarrow> ('l list \<Rightarrow> 'l list) \<Rightarrow> bool \<Rightarrow> bool" where
  "checks cap f P \<longleftrightarrow> (\<exists>ms. emits cap f ms \<and> (ms = [] \<longleftrightarrow> P))"

named_theorems checks_intros

lemma checks_id [checks_intros]: "checks cap id True"
  unfolding checks_def using emits_id by blast

lemma checks_guarded [checks_intros]:
  "checks cap f P \<Longrightarrow> checks cap (guarded b f) (b \<longrightarrow> P)"
  unfolding checks_def using emits_id by (cases b) auto

lemma checks_if [checks_intros]:
  "(b \<Longrightarrow> checks cap f P) \<Longrightarrow> (\<not> b \<Longrightarrow> checks cap g Q) \<Longrightarrow>
     checks cap (if b then f else g) (if b then P else Q)"
  by (cases b) simp_all

lemma checks_perform_Nil [checks_intros]: "checks cap (perform []) True"
  unfolding checks_def using emits_perform_Nil by blast

lemma checks_perform_Cons [checks_intros]:
  "checks cap f P \<Longrightarrow> checks cap (perform fs) Q \<Longrightarrow> checks cap (perform (f # fs)) (P \<and> Q)"
  unfolding checks_def by (metis append_is_Nil_conv emits_perform_Cons)

lemma checks_fold [checks_intros]:
  assumes "\<And>x. x \<in> set xs \<Longrightarrow> checks cap (f x) (P x)"
  shows "checks cap (fold f xs) (\<forall>x \<in> set xs. P x)"
proof -
  from assms obtain g where
    g: "\<And>x. x \<in> set xs \<Longrightarrow> emits cap (f x) (g x) \<and> (g x = [] \<longleftrightarrow> P x)"
    unfolding checks_def by metis
  then have "emits cap (fold f xs) (concat (map g xs))" by (intro emits_fold) simp
  moreover have "concat (map g xs) = [] \<longleftrightarrow> (\<forall>x \<in> set xs. P x)" using g by auto
  ultimately show ?thesis unfolding checks_def by blast
qed

lemma checks_perform_append:
  assumes "checks cap (perform fs) P" and "checks cap (perform gs) Q"
  shows "checks cap (perform (fs @ gs)) (P \<and> Q)"
proof -
  have "checks cap (perform [perform fs, perform gs]) (P \<and> Q \<and> True)"
    using assms by (intro checks_perform_Cons checks_perform_Nil)
  moreover have "perform [perform fs, perform gs] = perform (fs @ gs)"
    by (rule ext) (simp add: perform_def)
  ultimately show ?thesis by simp
qed

lemma checks_iff: "checks cap f P \<Longrightarrow> P = Q \<Longrightarrow> checks cap f Q"
  by simp

lemma checks_length: "checks cap f P \<Longrightarrow> length logs \<le> cap \<Longrightarrow> length (f logs) \<le> cap"
  unfolding checks_def using emits_length by blast

text \<open>Blocks that keep an invariant of the log.\<close>

definition keeps :: "('s \<Rightarrow> bool) \<Rightarrow> ('s \<Rightarrow> 's) \<Rightarrow> bool" where
  "keeps Q f \<longleftrightarrow> (\<forall>s. Q s \<longrightarrow> Q (f s))"

named_theorems keeps_intros

lemma keeps_id [keeps_intros]: "keeps Q id"
  by (simp add: keeps_def)

lemma keeps_guarded [keeps_intros]: "keeps Q f \<Longrightarrow> keeps Q (guarded b f)"
  by (cases b) (simp_all add: keeps_def)

lemma keeps_if [keeps_intros]: "(b \<Longrightarrow> keeps Q f) \<Longrightarrow> (\<not> b \<Longrightarrow> keeps Q g) \<Longrightarrow> keeps Q (if b then f else g)"
  by simp

lemma keeps_perform_Nil [keeps_intros]: "keeps Q (perform [])"
  by (simp add: keeps_def)

lemma keeps_perform_Cons [keeps_intros]:
  "keeps Q f \<Longrightarrow> keeps Q (perform fs) \<Longrightarrow> keeps Q (perform (f # fs))"
  by (simp add: keeps_def)

lemma keeps_fold [keeps_intros]: "(\<And>x. x \<in> set xs \<Longrightarrow> keeps Q (f x)) \<Longrightarrow> keeps Q (fold f xs)"
  by (induction xs) (simp_all add: keeps_def)

text \<open>
  The same for steps that may raise: \<open>reports cap f X\<close> says that on every log within the bound
  \<open>f\<close> raises nothing and appends, in some order, messages that make up the set \<open>X\<close>, as far as
  the bound leaves room.
\<close>

definition reports :: "nat \<Rightarrow> ('l list \<Rightarrow> 'l list result) \<Rightarrow> 'l set \<Rightarrow> bool" where
  "reports cap f X \<longleftrightarrow>
     (\<exists>ms. set ms = X \<and> (\<forall>logs. length logs \<le> cap \<longrightarrow> f logs = Inr (take cap (logs @ ms))))"

named_theorems reports_intros

lemma reports_pure [reports_intros]: "reports cap Inr {}"
  by (auto simp: reports_def)

lemma reports_bind:
  assumes "reports cap f X" and "reports cap g Y"
  shows "reports cap (\<lambda>logs. bindR (f logs) g) (X \<union> Y)"
proof -
  from assms obtain ms ns where
    "set ms = X" "\<And>logs. length logs \<le> cap \<Longrightarrow> f logs = Inr (take cap (logs @ ms))"
    "set ns = Y" "\<And>logs. length logs \<le> cap \<Longrightarrow> g logs = Inr (take cap (logs @ ns))"
    unfolding reports_def by metis
  then have "set (ms @ ns) = X \<union> Y"
    and "\<And>logs. length logs \<le> cap \<Longrightarrow>
      bindR (f logs) g = Inr (take cap (logs @ ms @ ns))"
    by (simp_all add: take_take_append del: take_append)
  then show ?thesis unfolding reports_def by blast
qed

lemma reports_if [reports_intros]:
  "(b \<Longrightarrow> reports cap f X) \<Longrightarrow> (\<not> b \<Longrightarrow> reports cap g Y) \<Longrightarrow>
     reports cap (if b then f else g) (if b then X else Y)"
  by (cases b) simp_all

lemma reports_foldR [reports_intros]:
  "(\<And>x. x \<in> set xs \<Longrightarrow> reports cap (f x) (X x)) \<Longrightarrow> reports cap (foldR f xs) (\<Union>x \<in> set xs. X x)"
proof (induction xs)
  case Nil
  then show ?case by (auto simp: reports_def)
next
  case (Cons x xs)
  then have "reports cap (\<lambda>logs. bindR (f x logs) (foldR f xs)) (X x \<union> (\<Union>x \<in> set xs. X x))"
    by (intro reports_bind) simp_all
  then show ?case by (simp add: fun_eq_iff reports_def)
qed

lemma reports_cong: "(\<And>logs. f logs = g logs) \<Longrightarrow> reports cap g X \<Longrightarrow> reports cap f X"
  by (simp add: reports_def)

lemma reports_set: "reports cap f X \<Longrightarrow> X = Y \<Longrightarrow> reports cap f Y"
  by simp

text \<open>A step that stops early on a full log.\<close>

lemma reports_unless_full:
  assumes "reports cap f X"
  shows "reports cap (\<lambda>logs. if cap \<le> length logs then Inr logs else f logs) X"
  using assms unfolding reports_def by (metis append_take_drop_id le_antisym take_all take_append
      append_Nil2 diff_is_0_eq take0)

lemma reports_result:
  assumes "reports cap f X"
  shows "\<exists>ms. set ms = X \<and> f [] = Inr (take cap ms)"
  using assms unfolding reports_def by (metis append_Nil bot_nat_0.extremum list.size(3))

text \<open>The contract of a bounded diagnostic list, as the walks of the checker rely on it.\<close>

locale bounded_log =
  fixes cap :: nat
    and add :: "'m \<Rightarrow> 'l list \<Rightarrow> 'l list"
    and entry :: "'m \<Rightarrow> 'l"
  assumes cap_pos: "0 < cap"
    and add_room: "length logs < cap \<Longrightarrow> add m logs = logs @ [entry m]"
    and add_full: "cap \<le> length logs \<Longrightarrow> add m logs = logs"
begin

lemma add_emits: "emits cap (add m) [entry m]"
  unfolding emits_def
proof (intro allI impI)
  fix logs :: "'l list"
  assume "length logs \<le> cap"
  then show "add m logs = take cap (logs @ [entry m])"
    by (cases "length logs < cap") (simp_all add: add_room add_full)
qed

lemma add_bounded: "length logs \<le> cap \<Longrightarrow> length (add m logs) \<le> cap"
  using add_emits by (rule emits_length)

lemma add_not_Nil: "add m logs \<noteq> []"
proof (cases "length logs < cap")
  case True
  then show ?thesis by (simp add: add_room)
next
  case False
  with cap_pos show ?thesis by (auto simp: add_full)
qed

lemma add_checks: "checks cap (add m) False"
  unfolding checks_def using add_emits by blast

lemma add_reports: "reports cap (\<lambda>logs. Inr (add m logs)) {entry m}"
  unfolding reports_def
proof (intro exI conjI allI impI)
  show "set [entry m] = {entry m}" by simp
  fix logs :: "'l list"
  assume "length logs \<le> cap"
  with add_emits show "Inr (add m logs) = Inr (take cap (logs @ [entry m]))"
    by (simp add: emits_def)
qed

lemma checks_silent_iff: "checks cap f P \<Longrightarrow> f [] = [] \<longleftrightarrow> P"
  unfolding checks_def using cap_pos by (auto simp: emits_empty_log)

lemma silent_iff: "emits cap f ms \<Longrightarrow> f [] = [] \<longleftrightarrow> ms = []"
  using cap_pos by (auto simp: emits_empty_log)

end

end
