(* ===== verification/PyNumbers.thy ===== *)
theory PyNumbers
  imports Prelude Complex_Main
begin

text \<open>
  Python's exact numbers. \<open>decimal.Decimal\<close> keeps a sign, a coefficient and a power of ten; a
  finite \<open>float\<close> is an integer times a power of two. Comparisons between \<open>int\<close>, \<open>float\<close> and
  \<open>Decimal\<close> are exact in Python, so every finite number is read as a pair \<open>(m, e)\<close> that
  stands for \<open>m * 10 ^ e\<close> and pairs are compared after scaling to the smaller exponent.
  The lemmas show that this comparison is the order of the rational numbers.
\<close>

datatype pyfloat = FNaN | FInf bool | FFin int int

datatype pydec = DNaN | DInf bool | DFin bool nat int

type_synonym scaled = "int \<times> int"

fun scaled_eq :: "scaled \<Rightarrow> scaled \<Rightarrow> bool" where
  "scaled_eq (m1, e1) (m2, e2) =
     (let e = min e1 e2 in m1 * 10 ^ nat (e1 - e) = m2 * 10 ^ nat (e2 - e))"

fun scaled_le :: "scaled \<Rightarrow> scaled \<Rightarrow> bool" where
  "scaled_le (m1, e1) (m2, e2) =
     (let e = min e1 e2 in m1 * 10 ^ nat (e1 - e) \<le> m2 * 10 ^ nat (e2 - e))"

fun scaled_value :: "scaled \<Rightarrow> rat" where
  "scaled_value (m, e) = of_int m * 10 powi e"

lemma scaled_align:
  assumes "e \<le> e1"
  shows "scaled_value (m, e1) = of_int (m * 10 ^ nat (e1 - e)) * 10 powi e"
proof -
  have "(10::rat) powi e1 = 10 powi (e1 - e) * 10 powi e"
    by (simp flip: power_int_add)
  also have "(10::rat) powi (e1 - e) = 10 ^ nat (e1 - e)"
    using assms by (simp add: power_int_def)
  finally show ?thesis by simp
qed

lemma scaled_eq_iff: "scaled_eq p q \<longleftrightarrow> scaled_value p = scaled_value q"
proof (cases p; cases q)
  fix m1 e1 m2 e2
  assume pq: "p = (m1, e1)" "q = (m2, e2)"
  let ?e = "min e1 e2"
  have pos: "(10::rat) powi ?e > 0" by simp
  have "scaled_value p = scaled_value q \<longleftrightarrow>
      (of_int (m1 * 10 ^ nat (e1 - ?e)) :: rat) = of_int (m2 * 10 ^ nat (e2 - ?e))"
    unfolding pq using pos
    by (subst scaled_align [of ?e e1], simp, subst scaled_align [of ?e e2], simp) simp
  then show ?thesis unfolding pq by (simp only: of_int_eq_iff scaled_eq.simps Let_def)
qed

lemma scaled_le_iff: "scaled_le p q \<longleftrightarrow> scaled_value p \<le> scaled_value q"
proof (cases p; cases q)
  fix m1 e1 m2 e2
  assume pq: "p = (m1, e1)" "q = (m2, e2)"
  let ?e = "min e1 e2"
  have pos: "(10::rat) powi ?e > 0" by simp
  have "scaled_value p \<le> scaled_value q \<longleftrightarrow>
      (of_int (m1 * 10 ^ nat (e1 - ?e)) :: rat) \<le> of_int (m2 * 10 ^ nat (e2 - ?e))"
    unfolding pq using pos
    by (subst scaled_align [of ?e e1], simp, subst scaled_align [of ?e e2], simp) simp
  then show ?thesis unfolding pq by (simp only: of_int_le_iff scaled_le.simps Let_def)
qed

subsection \<open>Decimal and float as scaled pairs\<close>

definition dec_scaled :: "bool \<Rightarrow> nat \<Rightarrow> int \<Rightarrow> scaled" where
  "dec_scaled s c e = ((if s then - int c else int c), e)"

text \<open>\<open>2 ^ - k = 5 ^ k * 10 ^ - k\<close>: every finite float is a decimal fraction.\<close>

definition float_scaled :: "int \<Rightarrow> int \<Rightarrow> scaled" where
  "float_scaled m e = (if 0 \<le> e then (m * 2 ^ nat e, 0) else (m * 5 ^ nat (- e), e))"

lemma float_scaled_value: "scaled_value (float_scaled m e) = of_int m * 2 powi e"
proof (cases "0 \<le> e")
  case True
  then show ?thesis by (simp add: float_scaled_def power_int_def)
next
  case False
  have "(5::rat) ^ nat (- e) * inverse 10 ^ nat (- e) = inverse 2 ^ nat (- e)"
    by (simp flip: power_mult_distrib)
  with False show ?thesis by (simp add: float_scaled_def power_int_def)
qed

subsection \<open>Integral values\<close>

text \<open>\<open>Decimal.to_integral_value\<close> rounds half to even; an exponent that is not negative is kept.\<close>

definition round_half_even :: "nat \<Rightarrow> nat \<Rightarrow> nat" where
  "round_half_even c d =
     (let q = c div d; r = c mod d
      in if 2 * r < d then q else if d < 2 * r then q + 1 else if even q then q else q + 1)"

fun dec_to_integral :: "pydec \<Rightarrow> pydec" where
  "dec_to_integral (DFin s c e) =
     (if 0 \<le> e then DFin s c e else DFin s (round_half_even c (10 ^ nat (- e))) 0)"
| "dec_to_integral d = d"

fun dec_is_finite :: "pydec \<Rightarrow> bool" where
  "dec_is_finite (DFin s c e) = True"
| "dec_is_finite d = False"

fun float_is_finite :: "pyfloat \<Rightarrow> bool" where
  "float_is_finite (FFin m e) = True"
| "float_is_finite f = False"

fun float_is_integer :: "pyfloat \<Rightarrow> bool" where
  "float_is_integer (FFin m e) = (0 \<le> e \<or> 2 ^ nat (- e) dvd m)"
| "float_is_integer f = False"

lemma round_half_even_dvd: "d dvd c \<Longrightarrow> 0 < d \<Longrightarrow> round_half_even c d * d = c"
  by (auto simp: round_half_even_def Let_def dvd_eq_mod_eq_0)

lemma round_half_even_exact_iff:
  assumes "0 < d"
  shows "round_half_even c d * d = c \<longleftrightarrow> d dvd c"
  using round_half_even_dvd [OF _ assms] by (metis dvd_triv_right)

subsection \<open>Numeric comparison\<close>

datatype numview = NumNaN | NumInf bool | NumFin scaled

fun num_eq :: "numview \<Rightarrow> numview \<Rightarrow> bool" where
  "num_eq (NumFin p) (NumFin q) = scaled_eq p q"
| "num_eq (NumInf a) (NumInf b) = (a = b)"
| "num_eq _ _ = False"

text \<open>\<open>NumInf True\<close> is minus infinity (the sign bit is set).\<close>

fun num_le :: "numview \<Rightarrow> numview \<Rightarrow> bool" where
  "num_le NumNaN _ = False"
| "num_le _ NumNaN = False"
| "num_le (NumFin p) (NumFin q) = scaled_le p q"
| "num_le (NumInf a) (NumInf b) = (a \<or> \<not> b)"
| "num_le (NumInf a) (NumFin q) = a"
| "num_le (NumFin p) (NumInf b) = (\<not> b)"

definition num_lt :: "numview \<Rightarrow> numview \<Rightarrow> bool" where
  "num_lt x y \<longleftrightarrow> num_le x y \<and> \<not> num_eq x y"

fun dec_view :: "pydec \<Rightarrow> numview" where
  "dec_view DNaN = NumNaN"
| "dec_view (DInf s) = NumInf s"
| "dec_view (DFin s c e) = NumFin (dec_scaled s c e)"

fun float_view :: "pyfloat \<Rightarrow> numview" where
  "float_view FNaN = NumNaN"
| "float_view (FInf s) = NumInf s"
| "float_view (FFin m e) = NumFin (float_scaled m e)"

lemma num_eq_sym: "num_eq x y \<Longrightarrow> num_eq y x"
  by (cases x; cases y) (auto simp: scaled_eq_iff)

lemma num_eq_trans: "num_eq x y \<Longrightarrow> num_eq y z \<Longrightarrow> num_eq x z"
  by (cases x; cases y; cases z) (auto simp: scaled_eq_iff)

lemma num_eq_refl: "x \<noteq> NumNaN \<Longrightarrow> num_eq x x"
  by (cases x) (auto simp: scaled_eq_iff)

lemma num_le_total: "x \<noteq> NumNaN \<Longrightarrow> y \<noteq> NumNaN \<Longrightarrow> num_le x y \<or> num_le y x"
  by (cases x; cases y) (auto simp: scaled_le_iff)

lemma num_lt_not_le: "x \<noteq> NumNaN \<Longrightarrow> y \<noteq> NumNaN \<Longrightarrow> num_lt x y \<longleftrightarrow> \<not> num_le y x"
  by (cases x; cases y) (auto simp: num_lt_def scaled_le_iff scaled_eq_iff)

text \<open>A finite decimal equals its integral value exactly when it is a whole number.\<close>

lemma dec_integral_iff:
  "num_eq (dec_view (DFin s c e)) (dec_view (dec_to_integral (DFin s c e)))
   \<longleftrightarrow> 0 \<le> e \<or> 10 ^ nat (- e) dvd c"
proof (cases "0 \<le> e")
  case True
  then show ?thesis by (simp add: scaled_eq_iff)
next
  case False
  let ?d = "10 ^ nat (- e) :: nat"
  have "num_eq (dec_view (DFin s c e)) (dec_view (dec_to_integral (DFin s c e)))
      \<longleftrightarrow> int c = int (round_half_even c ?d * ?d)"
    using False by (simp add: dec_scaled_def min_def Let_def)
  also have "\<dots> \<longleftrightarrow> round_half_even c ?d * ?d = c" by (metis of_nat_eq_iff)
  finally show ?thesis using False by (simp add: round_half_even_exact_iff)
qed

end
