(* ===== verification/PyValues.thy ===== *)
theory PyValues
  imports PyNumbers
begin

text \<open>
  The values the checker handles (what \<open>json.loads\<close> with its hooks builds, and the \<open>int\<close> and
  \<open>float\<close> values a Python caller may pass), insertion-ordered dictionaries, and the two value
  predicates \<open>matches_type\<close> and \<open>json_equal\<close> of \<open>scripts/check_contract.py\<close>.
  \<open>jval\<close> is the abstract JSON value a Python value denotes (numbers as rationals, objects as
  finite maps); \<open>json_equal\<close> is shown to decide equality of these denotations.
\<close>

datatype pyval =
    VNone
  | VBool bool
  | VStr ustring
  | VInt int
  | VFloat pyfloat
  | VDec pydec
  | VList "pyval list"
  | VDict "(ustring \<times> pyval) list"

type_synonym entries = "(ustring \<times> pyval) list"

subsection \<open>Dictionaries\<close>

text \<open>A dictionary is the list of its items in insertion order; a new key goes to the end.\<close>

abbreviation dict_get :: "(ustring \<times> 'v) list \<Rightarrow> ustring \<Rightarrow> 'v option" where
  "dict_get \<equiv> map_of"

abbreviation dict_keys :: "(ustring \<times> 'v) list \<Rightarrow> ustring list" where
  "dict_keys kvs \<equiv> map fst kvs"

definition dict_has :: "(ustring \<times> 'v) list \<Rightarrow> ustring \<Rightarrow> bool" where
  "dict_has kvs k \<longleftrightarrow> k \<in> set (dict_keys kvs)"

fun dict_set :: "ustring \<Rightarrow> 'v \<Rightarrow> (ustring \<times> 'v) list \<Rightarrow> (ustring \<times> 'v) list" where
  "dict_set k v [] = [(k, v)]"
| "dict_set k v ((k', v') # kvs) =
     (if k = k' then (k, v) # kvs else (k', v') # dict_set k v kvs)"

lemma dict_has_iff: "dict_has kvs k \<longleftrightarrow> (\<exists>v. dict_get kvs k = Some v)"
  unfolding dict_has_def by (metis map_of_eq_None_iff not_None_eq list.set_map)

lemma dict_has_None: "\<not> dict_has kvs k \<longleftrightarrow> dict_get kvs k = None"
  by (simp add: dict_has_def map_of_eq_None_iff)

lemma dict_get_set: "dict_get (dict_set k v kvs) = (dict_get kvs)(k \<mapsto> v)"
  by (induction kvs) auto

lemma dict_keys_set:
  "dict_keys (dict_set k v kvs) = (if dict_has kvs k then dict_keys kvs else dict_keys kvs @ [k])"
  by (induction kvs) (auto simp: dict_has_def image_iff split: if_splits)

lemma map_of_rev_distinct: "distinct (map fst kvs) \<Longrightarrow> map_of (rev kvs) = map_of kvs"
proof (rule ext)
  fix k
  assume d: "distinct (map fst kvs)"
  then have "distinct (map fst (rev kvs))" by (simp add: rev_map [symmetric])
  with d have "map_of (rev kvs) k = Some v \<longleftrightarrow> map_of kvs k = Some v" for v
    by simp
  then show "map_of (rev kvs) k = map_of kvs k" by (metis not_None_eq)
qed

text \<open>
  The contract of a dictionary as the loaders use it: lookup after insertion, insertion order
  of the keys, no key twice.
\<close>

locale ordered_dict =
  fixes get :: "'d \<Rightarrow> ustring \<Rightarrow> 'v option"
    and insert_item :: "ustring \<Rightarrow> 'v \<Rightarrow> 'd \<Rightarrow> 'd"
    and keys_of :: "'d \<Rightarrow> ustring list"
    and new :: 'd
  assumes get_new: "get new k = None"
    and get_insert: "get (insert_item k v d) = (get d)(k \<mapsto> v)"
    and keys_new: "keys_of new = []"
    and keys_insert: "keys_of (insert_item k v d) =
          (if k \<in> set (keys_of d) then keys_of d else keys_of d @ [k])"
begin

definition build :: "(ustring \<times> 'v) list \<Rightarrow> 'd" where
  "build kvs = fold (\<lambda>(k, v). insert_item k v) kvs new"

lemma get_fold: "get (fold (\<lambda>(k, v). insert_item k v) kvs d) = get d ++ map_of (rev kvs)"
proof (induction kvs arbitrary: d)
  case Nil
  then show ?case by simp
next
  case (Cons p kvs)
  then show ?case by (cases p) (simp add: get_insert map_add_def fun_eq_iff split: option.split)
qed

lemma get_build: "distinct (map fst kvs) \<Longrightarrow> get (build kvs) = map_of kvs"
  by (simp add: build_def get_fold map_of_rev_distinct map_add_def fun_eq_iff get_new
      split: option.split)

lemma keys_fold_distinct:
  "distinct (keys_of d) \<Longrightarrow> distinct (keys_of (fold (\<lambda>(k, v). insert_item k v) kvs d))"
  by (induction kvs arbitrary: d) (auto simp: keys_insert)

lemma keys_build_distinct: "distinct (keys_of (build kvs))"
  by (simp add: build_def keys_fold_distinct keys_new)

end

interpretation dict: ordered_dict dict_get dict_set dict_keys "[]"
  by unfold_locales (auto simp: dict_get_set dict_keys_set dict_has_def)

text \<open>The members of a value that is a dictionary or a list.\<close>

fun dict_items :: "pyval \<Rightarrow> entries" where
  "dict_items (VDict kvs) = kvs"
| "dict_items v = []"

fun list_items :: "pyval \<Rightarrow> pyval list" where
  "list_items (VList xs) = xs"
| "list_items v = []"

lemma size_list_member: "x \<in> set xs \<Longrightarrow> size x < size (VList xs)"
  by (induction xs) auto

lemma size_dict_member: "(k, v) \<in> set kvs \<Longrightarrow> size v < size (VDict kvs)"
  by (induction kvs) auto

lemma size_dict_get: "dict_get kvs k = Some v \<Longrightarrow> size v < size (VDict kvs)"
  by (rule size_dict_member) (rule map_of_SomeD)

lemma size_nested_dict:
  "dict_get kvs k = Some (VDict ps) \<Longrightarrow> (n, v) \<in> set ps \<Longrightarrow> size v < size (VDict kvs)"
  using size_dict_get size_dict_member by fastforce

text \<open>Well-formed values: no dictionary holds a key twice.\<close>

fun wf_val :: "pyval \<Rightarrow> bool" where
  "wf_val (VList xs) = list_all wf_val xs"
| "wf_val (VDict kvs) = (distinct (dict_keys kvs) \<and> list_all (\<lambda>(k, v). wf_val v) kvs)"
| "wf_val v = True"

lemma wf_dict_member: "wf_val (VDict kvs) \<Longrightarrow> (k, v) \<in> set kvs \<Longrightarrow> wf_val v"
  by (auto simp: list_all_iff)

lemma wf_dict_get: "wf_val (VDict kvs) \<Longrightarrow> dict_get kvs k = Some v \<Longrightarrow> wf_val v"
  by (rule wf_dict_member) (auto dest: map_of_SomeD)

subsection \<open>Types of values\<close>

fun is_bool :: "pyval \<Rightarrow> bool" where
  "is_bool (VBool b) = True"
| "is_bool v = False"

fun is_str :: "pyval \<Rightarrow> bool" where
  "is_str (VStr s) = True"
| "is_str v = False"

fun is_list :: "pyval \<Rightarrow> bool" where
  "is_list (VList xs) = True"
| "is_list v = False"

fun is_dict :: "pyval \<Rightarrow> bool" where
  "is_dict (VDict kvs) = True"
| "is_dict v = False"

text \<open>The numeric view of a value; a \<open>bool\<close> is an \<open>int\<close> in Python.\<close>

fun num_of :: "pyval \<Rightarrow> numview option" where
  "num_of (VBool b) = Some (NumFin (if b then 1 else 0, 0))"
| "num_of (VInt i) = Some (NumFin (i, 0))"
| "num_of (VFloat f) = Some (float_view f)"
| "num_of (VDec d) = Some (dec_view d)"
| "num_of v = None"

text \<open>\<open>isinstance(v, (int, float, Decimal))\<close>.\<close>

definition is_numeric :: "pyval \<Rightarrow> bool" where
  "is_numeric v \<longleftrightarrow> num_of v \<noteq> None"

fun is_dec :: "pyval \<Rightarrow> bool" where
  "is_dec (VDec d) = True"
| "is_dec v = False"

text \<open>
  Ordering comparisons raise \<open>TypeError\<close> on a value that is no number, and
  \<open>decimal.InvalidOperation\<close> when a \<open>Decimal\<close> meets a NaN.
\<close>

definition num_compare :: "(numview \<Rightarrow> numview \<Rightarrow> bool) \<Rightarrow> pyval \<Rightarrow> pyval \<Rightarrow> bool result" where
  "num_compare cmp a b =
     (case (num_of a, num_of b) of
        (Some x, Some y) \<Rightarrow>
          if (x = NumNaN \<or> y = NumNaN) \<and> (is_dec a \<or> is_dec b) then Inl DecimalInvalidOperation
          else Inr (cmp x y)
      | _ \<Rightarrow> Inl TypeError)"

definition py_lt :: "pyval \<Rightarrow> pyval \<Rightarrow> bool result" where
  "py_lt = num_compare num_lt"

text \<open>The two clauses of \<open>matches_type\<close> for numbers.\<close>

fun is_integer_value :: "pyval \<Rightarrow> bool" where
  "is_integer_value (VInt i) = True"
| "is_integer_value (VDec d) =
     (dec_is_finite d \<and> num_eq (dec_view d) (dec_view (dec_to_integral d)))"
| "is_integer_value (VFloat f) = (float_is_finite f \<and> float_is_integer f)"
| "is_integer_value v = False"

fun is_number_value :: "pyval \<Rightarrow> bool" where
  "is_number_value (VInt i) = True"
| "is_number_value (VDec d) = dec_is_finite d"
| "is_number_value (VFloat f) = float_is_finite f"
| "is_number_value v = False"

definition matches_type :: "pyval \<Rightarrow> ustring \<Rightarrow> bool" where
  "matches_type v schema_type =
     (if schema_type = ascii ''object'' then is_dict v
      else if schema_type = ascii ''array'' then is_list v
      else if schema_type = ascii ''string'' then is_str v
      else if schema_type = ascii ''integer'' then is_integer_value v
      else if schema_type = ascii ''number'' then is_number_value v
      else if schema_type = ascii ''boolean'' then is_bool v
      else v = VNone)"

lemma matches_type_simps [simp]:
  "matches_type v (ascii ''object'') = is_dict v"
  "matches_type v (ascii ''array'') = is_list v"
  "matches_type v (ascii ''string'') = is_str v"
  "matches_type v (ascii ''integer'') = is_integer_value v"
  "matches_type v (ascii ''number'') = is_number_value v"
  "matches_type v (ascii ''boolean'') = is_bool v"
  "matches_type v (ascii ''null'') = (v = VNone)"
  by (simp_all add: matches_type_def)

lemma integer_is_number: "is_integer_value v \<Longrightarrow> is_number_value v"
  by (cases v) auto

lemma number_view_finite: "is_number_value v \<Longrightarrow> \<exists>p. num_of v = Some (NumFin p)"
proof (cases v)
  case (VDec d)
  then show "is_number_value v \<Longrightarrow> ?thesis" by (cases d) auto
next
  case (VFloat f)
  then show "is_number_value v \<Longrightarrow> ?thesis" by (cases f) auto
qed auto

lemma py_lt_numbers:
  assumes "is_number_value a" and "is_number_value b"
  shows "\<exists>p q. num_of a = Some (NumFin p) \<and> num_of b = Some (NumFin q) \<and>
           py_lt a b = Inr (scaled_value p < scaled_value q)"
proof -
  obtain p q where "num_of a = Some (NumFin p)" "num_of b = Some (NumFin q)"
    using assms number_view_finite by blast
  then show ?thesis
    by (auto simp: py_lt_def num_compare_def num_lt_def scaled_le_iff scaled_eq_iff)
qed

subsection \<open>JSON equality\<close>

text \<open>\<open>type(left) is type(right)\<close>.\<close>

fun type_tag :: "pyval \<Rightarrow> nat" where
  "type_tag VNone = 0"
| "type_tag (VBool b) = 1"
| "type_tag (VStr s) = 2"
| "type_tag (VInt i) = 3"
| "type_tag (VFloat f) = 4"
| "type_tag (VDec d) = 5"
| "type_tag (VList xs) = 6"
| "type_tag (VDict kvs) = 7"

definition num_values_eq :: "pyval \<Rightarrow> pyval \<Rightarrow> bool" where
  "num_values_eq a b =
     (case (num_of a, num_of b) of (Some x, Some y) \<Rightarrow> num_eq x y | _ \<Rightarrow> False)"

function json_equal :: "pyval \<Rightarrow> pyval \<Rightarrow> bool" where
  "json_equal left right =
     (if is_bool left \<or> is_bool right then type_tag left = type_tag right \<and> left = right
      else if is_numeric left \<and> is_numeric right then num_values_eq left right
      else if type_tag left \<noteq> type_tag right then False
      else
        (case (left, right) of
           (VList xs, VList ys) \<Rightarrow>
             length xs = length ys \<and> list_all (\<lambda>(a, b). json_equal a b) (zip xs ys)
         | (VDict kvs, VDict lvs) \<Rightarrow>
             set (dict_keys kvs) = set (dict_keys lvs) \<and>
             list_all (\<lambda>(k, a). case dict_get lvs k of Some b \<Rightarrow> json_equal a b | None \<Rightarrow> False) kvs
         | _ \<Rightarrow> left = right))"
  by pat_completeness auto
termination
  by (relation "measure (\<lambda>(l, r). size l)")
    (auto dest: set_zip_leftD size_list_member size_dict_member simp del: size_list_conv_sum_list)

declare json_equal.simps [simp del]

lemma json_equal_list:
  "json_equal (VList xs) (VList ys) \<longleftrightarrow> list_all2 json_equal xs ys"
  by (subst json_equal.simps) (simp add: is_numeric_def list_all2_iff list_all_iff)

lemma json_equal_dict:
  "json_equal (VDict kvs) (VDict lvs) \<longleftrightarrow>
     set (dict_keys kvs) = set (dict_keys lvs) \<and>
     (\<forall>(k, a) \<in> set kvs. \<exists>b. dict_get lvs k = Some b \<and> json_equal a b)"
  by (subst json_equal.simps) (auto simp: is_numeric_def list_all_iff split: option.splits)

lemma json_equal_str: "json_equal (VStr s) v \<longleftrightarrow> v = VStr s"
  by (subst json_equal.simps) (cases v; auto simp: is_numeric_def)

subsection \<open>The JSON value a Python value denotes\<close>

datatype jval =
    JNull
  | JBool bool
  | JStr ustring
  | JNum rat
  | JInf bool
  | JNaN
  | JArr "jval list"
  | JObj "ustring \<Rightarrow> jval option"

fun num_denote :: "numview \<Rightarrow> jval" where
  "num_denote (NumFin p) = JNum (scaled_value p)"
| "num_denote (NumInf b) = JInf b"
| "num_denote NumNaN = JNaN"

fun denote :: "pyval \<Rightarrow> jval" where
  "denote VNone = JNull"
| "denote (VBool b) = JBool b"
| "denote (VStr s) = JStr s"
| "denote (VInt i) = JNum (of_int i)"
| "denote (VFloat f) = num_denote (float_view f)"
| "denote (VDec d) = num_denote (dec_view d)"
| "denote (VList xs) = JArr (map denote xs)"
| "denote (VDict kvs) = JObj (map_of (map (\<lambda>(k, v). (k, denote v)) kvs))"

fun nan_free :: "pyval \<Rightarrow> bool" where
  "nan_free (VFloat f) = (f \<noteq> FNaN)"
| "nan_free (VDec d) = (d \<noteq> DNaN)"
| "nan_free (VList xs) = list_all nan_free xs"
| "nan_free (VDict kvs) = list_all (\<lambda>(k, v). nan_free v) kvs"
| "nan_free v = True"

lemma map_of_denote: "map_of (map (\<lambda>(k, v). (k, denote v)) kvs) k = map_option denote (map_of kvs k)"
  by (induction kvs) auto

lemma denote_dict: "denote (VDict kvs) = JObj (\<lambda>k. map_option denote (dict_get kvs k))"
  by (simp add: map_of_denote fun_eq_iff)

lemma num_view_not_NaN:
  "num_of v = Some x \<Longrightarrow> nan_free v \<Longrightarrow> x \<noteq> NumNaN"
proof (cases v)
  case (VFloat f)
  then show "num_of v = Some x \<Longrightarrow> nan_free v \<Longrightarrow> ?thesis" by (cases f) auto
next
  case (VDec d)
  then show "num_of v = Some x \<Longrightarrow> nan_free v \<Longrightarrow> ?thesis" by (cases d) auto
qed auto

lemma num_eq_denote:
  "x \<noteq> NumNaN \<Longrightarrow> y \<noteq> NumNaN \<Longrightarrow> num_eq x y \<longleftrightarrow> num_denote x = num_denote y"
  by (cases x; cases y) (auto simp: scaled_eq_iff)

lemma num_denote_of:
  "num_of v = Some x \<Longrightarrow> \<not> is_bool v \<Longrightarrow> denote v = num_denote x"
  by (cases v) auto

lemma num_denote_shape:
  "num_denote x \<noteq> JNull" "num_denote x \<noteq> JBool b" "num_denote x \<noteq> JStr s"
  "num_denote x \<noteq> JArr vs" "num_denote x \<noteq> JObj m"
  by (cases x; simp)+

lemma json_equal_dict_denote:
  assumes wf: "distinct (dict_keys kvs)"
    and IH: "\<And>k a b. (k, a) \<in> set kvs \<Longrightarrow> dict_get lvs k = Some b \<Longrightarrow>
      json_equal a b \<longleftrightarrow> denote a = denote b"
  shows "json_equal (VDict kvs) (VDict lvs) \<longleftrightarrow> denote (VDict kvs) = denote (VDict lvs)"
proof
  assume eq: "json_equal (VDict kvs) (VDict lvs)"
  have "map_option denote (dict_get kvs k) = map_option denote (dict_get lvs k)" for k
  proof (cases "dict_get kvs k")
    case None
    then have "k \<notin> set (dict_keys lvs)"
      using eq by (auto simp: json_equal_dict map_of_eq_None_iff)
    then have "dict_get lvs k = None" by (simp add: map_of_eq_None_iff)
    with None show ?thesis by simp
  next
    case (Some a)
    then have "(k, a) \<in> set kvs" by (rule map_of_SomeD)
    with eq IH Some show ?thesis by (auto simp: json_equal_dict)
  qed
  then show "denote (VDict kvs) = denote (VDict lvs)" by (simp add: map_of_denote fun_eq_iff)
next
  assume "denote (VDict kvs) = denote (VDict lvs)"
  then have "(\<lambda>k. map_option denote (dict_get kvs k)) = (\<lambda>k. map_option denote (dict_get lvs k))"
    unfolding denote_dict by simp
  then have eq: "map_option denote (dict_get kvs k) = map_option denote (dict_get lvs k)" for k
    by (rule fun_cong)
  have "dict_has kvs k \<longleftrightarrow> dict_has lvs k" for k
    using eq [of k] by (cases "dict_get kvs k"; cases "dict_get lvs k") (auto simp: dict_has_iff)
  then have "set (dict_keys kvs) = set (dict_keys lvs)"
    by (auto simp: dict_has_def)
  moreover have "\<exists>b. dict_get lvs k = Some b \<and> json_equal a b" if m: "(k, a) \<in> set kvs" for k a
  proof -
    have "dict_get kvs k = Some a" using wf m by simp
    with eq [of k] obtain b where b: "dict_get lvs k = Some b" "denote b = denote a"
      by (cases "dict_get lvs k") auto
    with IH [OF m b(1)] show ?thesis by simp
  qed
  ultimately show "json_equal (VDict kvs) (VDict lvs)" by (auto simp: json_equal_dict)
qed

lemma json_equal_iff_denote:
  "wf_val l \<Longrightarrow> wf_val r \<Longrightarrow> nan_free l \<Longrightarrow> nan_free r \<Longrightarrow> json_equal l r \<longleftrightarrow> denote l = denote r"
proof (induction l arbitrary: r rule: measure_induct_rule [where f = size])
  case (less l)
  consider (lists) xs ys where "l = VList xs" "r = VList ys"
    | (dicts) kvs lvs where "l = VDict kvs" "r = VDict lvs"
    | (other) "\<not> (is_list l \<and> is_list r)" "\<not> (is_dict l \<and> is_dict r)"
    by (metis is_dict.elims(2) is_list.elims(2))
  then show ?case
  proof cases
    case lists
    have "json_equal a b \<longleftrightarrow> denote a = denote b" if "a \<in> set xs" "b \<in> set ys" for a b
      using less that size_list_member [of a xs] unfolding lists by (auto simp: list_all_iff)
    then have "list_all2 json_equal xs ys \<longleftrightarrow> list_all2 (\<lambda>a b. denote a = denote b) xs ys"
      by (intro list.rel_cong refl) auto
    also have "\<dots> \<longleftrightarrow> map denote xs = map denote ys"
      by (simp add: list_all2_map1 list_all2_map2 list_all2_eq)
    finally show ?thesis by (simp add: lists json_equal_list)
  next
    case dicts
    have "json_equal a b \<longleftrightarrow> denote a = denote b"
      if "(k, a) \<in> set kvs" "dict_get lvs k = Some b" for k a b
    proof (rule less.IH)
      show "size a < size l" using size_dict_member [OF that(1)] by (simp add: dicts)
      have b: "(k, b) \<in> set lvs" using that(2) by (rule map_of_SomeD)
      show "wf_val a" "wf_val b" "nan_free a" "nan_free b"
        using less.prems that(1) b unfolding dicts by (auto simp: list_all_iff)
    qed
    then show ?thesis
      using less.prems(1) unfolding dicts by (intro json_equal_dict_denote) simp_all
  next
    case other
    show ?thesis
    proof (cases "is_numeric l \<and> is_numeric r \<and> \<not> is_bool l \<and> \<not> is_bool r")
      case True
      then obtain x y where xy: "num_of l = Some x" "num_of r = Some y"
        by (auto simp: is_numeric_def)
      then have "json_equal l r \<longleftrightarrow> num_eq x y"
        using True by (subst json_equal.simps) (simp add: num_values_eq_def)
      also have "\<dots> \<longleftrightarrow> num_denote x = num_denote y"
        using xy less.prems num_eq_denote num_view_not_NaN by blast
      finally show ?thesis using xy True num_denote_of by simp
    next
      case False
      then show ?thesis
        using other
        by (subst json_equal.simps) (cases l; cases r; simp add: is_numeric_def num_denote_shape
            num_denote_shape [symmetric])
    qed
  qed
qed

text \<open>On values without a NaN, \<open>json_equal\<close> is an equivalence.\<close>

definition proper :: "pyval \<Rightarrow> bool" where
  "proper v \<longleftrightarrow> wf_val v \<and> nan_free v"

locale equivalence_on =
  fixes good :: "'a \<Rightarrow> bool" and eq :: "'a \<Rightarrow> 'a \<Rightarrow> bool"
  assumes eq_refl: "good a \<Longrightarrow> eq a a"
    and eq_sym: "good a \<Longrightarrow> good b \<Longrightarrow> eq a b \<Longrightarrow> eq b a"
    and eq_trans: "good a \<Longrightarrow> good b \<Longrightarrow> good c \<Longrightarrow> eq a b \<Longrightarrow> eq b c \<Longrightarrow> eq a c"
begin

text \<open>Comparing every element with the first one compares all of them pairwise.\<close>

lemma all_equal_first:
  assumes "good v" and "\<forall>w \<in> set vs. good w" and "\<forall>w \<in> set vs. eq v w"
    and "x \<in> set (v # vs)" and "y \<in> set (v # vs)"
  shows "eq x y"
  using assms by (metis eq_refl eq_sym eq_trans set_ConsD)

end

interpretation json: equivalence_on proper json_equal
  by unfold_locales (auto simp: proper_def json_equal_iff_denote)

end
