(* ===== verification/PyText.thy ===== *)
theory PyText
  imports Prelude
begin

text \<open>
  The string operations of the standard library that the scripts use: \<open>split\<close> on one
  character, \<open>replace\<close> of one character, \<open>join\<close>, prefix tests and \<open>repr\<close>. Which
  characters beyond ASCII are printable is a table of the interpreter's Unicode version: it is
  the parameter \<open>pr\<close> of \<open>py_repr\<close>.
\<close>

subsection \<open>split, replace, join\<close>

fun split_on :: "nat \<Rightarrow> ustring \<Rightarrow> ustring list" where
  "split_on c [] = [[]]"
| "split_on c (x # xs) =
     (if x = c then [] # split_on c xs
      else (case split_on c xs of [] \<Rightarrow> [[x]] | y # ys \<Rightarrow> (x # y) # ys))"

definition replace_char :: "nat \<Rightarrow> ustring \<Rightarrow> ustring \<Rightarrow> ustring" where
  "replace_char c r s = concat (map (\<lambda>x. if x = c then r else [x]) s)"

fun join_with :: "ustring \<Rightarrow> ustring list \<Rightarrow> ustring" where
  "join_with sep [] = []"
| "join_with sep [x] = x"
| "join_with sep (x # y # zs) = x @ sep @ join_with sep (y # zs)"

definition starts_with :: "ustring \<Rightarrow> ustring \<Rightarrow> bool" where
  "starts_with p s \<longleftrightarrow> take (length p) s = p"

definition ends_with :: "ustring \<Rightarrow> ustring \<Rightarrow> bool" where
  "ends_with p s \<longleftrightarrow> length p \<le> length s \<and> drop (length s - length p) s = p"

lemma starts_with_append: "starts_with p s \<longleftrightarrow> (\<exists>t. s = p @ t)"
  unfolding starts_with_def by (metis append_eq_conv_conj append_take_drop_id)

lemma split_on_not_Nil [simp]: "split_on c s \<noteq> []"
  by (induction s) (auto split: list.splits)

lemma split_on_absent: "c \<notin> set s \<Longrightarrow> split_on c s = [s]"
  by (induction s) auto

lemma split_on_append: "split_on c (u @ c # v) = split_on c u @ split_on c v"
proof (induction u)
  case Nil
  then show ?case by simp
next
  case (Cons x u)
  obtain y ys where "split_on c u = y # ys" by (metis neq_Nil_conv split_on_not_Nil)
  with Cons show ?case by simp
qed

lemma split_on_parts: "p \<in> set (split_on c s) \<Longrightarrow> c \<notin> set p"
  by (induction s arbitrary: p) (auto split: list.splits if_splits)

lemma join_split: "join_with [c] (split_on c s) = s"
proof (induction s)
  case Nil
  then show ?case by simp
next
  case (Cons x s)
  obtain y ys where y: "split_on c s = y # ys" by (metis neq_Nil_conv split_on_not_Nil)
  with Cons show ?case by (cases ys) auto
qed

lemma split_join:
  "ps \<noteq> [] \<Longrightarrow> \<forall>p \<in> set ps. c \<notin> set p \<Longrightarrow> split_on c (join_with [c] ps) = ps"
proof (induction "[c]" ps rule: join_with.induct)
  case (2 x)
  then show ?case by (simp add: split_on_absent)
next
  case (3 x y zs)
  then show ?case by (simp add: split_on_append split_on_absent)
qed simp

lemma replace_char_simps [simp]:
  "replace_char c r [] = []"
  "replace_char c r (x # xs) = (if x = c then r else [x]) @ replace_char c r xs"
  by (simp_all add: replace_char_def)

subsection \<open>repr\<close>

definition hexdigit :: "nat \<Rightarrow> nat" where
  "hexdigit n = (if n < 10 then 48 + n else 87 + n)"

text \<open>\<open>w\<close> lowercase hexadecimal digits of \<open>n\<close>, most significant first.\<close>

fun hex_pad :: "nat \<Rightarrow> nat \<Rightarrow> ustring" where
  "hex_pad 0 n = []"
| "hex_pad (Suc w) n = hex_pad w (n div 16) @ [hexdigit (n mod 16)]"

definition repr_char :: "(nat \<Rightarrow> bool) \<Rightarrow> nat \<Rightarrow> nat \<Rightarrow> ustring" where
  "repr_char pr q c =
     (if c = q \<or> c = 92 then [92, c]
      else if c = 9 then [92, 116]
      else if c = 10 then [92, 110]
      else if c = 13 then [92, 114]
      else if c < 32 \<or> c = 127 then [92, 120] @ hex_pad 2 c
      else if c < 127 then [c]
      else if pr c then [c]
      else if c \<le> 255 then [92, 120] @ hex_pad 2 c
      else if c \<le> 65535 then [92, 117] @ hex_pad 4 c
      else [92, 85] @ hex_pad 8 c)"

definition py_repr :: "(nat \<Rightarrow> bool) \<Rightarrow> ustring \<Rightarrow> ustring" where
  "py_repr pr s =
     (let q = (if 39 \<in> set s \<and> 34 \<notin> set s then 34 else 39)
      in q # concat (map (repr_char pr q) s) @ [q])"

text \<open>C0 controls, DEL and C1 controls.\<close>

definition is_control :: "nat \<Rightarrow> bool" where
  "is_control c \<longleftrightarrow> c < 32 \<or> (127 \<le> c \<and> c < 160)"

text \<open>What \<open>str.isprintable\<close> documents: control characters are not printable.\<close>

definition printable_table :: "(nat \<Rightarrow> bool) \<Rightarrow> bool" where
  "printable_table pr \<longleftrightarrow> (\<forall>c. is_control c \<longrightarrow> \<not> pr c)"

lemma hexdigit_ascii: "n < 16 \<Longrightarrow> 48 \<le> hexdigit n \<and> hexdigit n < 127"
  by (simp add: hexdigit_def)

lemma hex_pad_ascii: "c \<in> set (hex_pad w n) \<Longrightarrow> 48 \<le> c \<and> c < 127"
proof (induction w n rule: hex_pad.induct)
  case (2 w n)
  then show ?case using hexdigit_ascii [of "n mod 16"] by auto
qed simp

lemma hex_pad_no_control: "c \<in> set (hex_pad w n) \<Longrightarrow> \<not> is_control c"
  using hex_pad_ascii [of c w n] by (simp add: is_control_def)

lemma repr_char_no_control:
  assumes "printable_table pr" and "q \<in> {34, 39}" and "c \<in> set (repr_char pr q x)"
  shows "\<not> is_control c"
proof -
  have "c \<in> set (hex_pad w n) \<Longrightarrow> \<not> is_control c" for w n by (rule hex_pad_no_control)
  with assms show ?thesis
    by (auto simp: repr_char_def printable_table_def is_control_def split: if_splits)
qed

lemma py_repr_no_control:
  assumes "printable_table pr" and "c \<in> set (py_repr pr s)"
  shows "\<not> is_control c"
proof -
  define q :: nat where "q = (if 39 \<in> set s \<and> 34 \<notin> set s then 34 else 39)"
  have q: "q \<in> {34, 39}" by (simp add: q_def)
  then have "\<not> is_control q" by (auto simp: is_control_def)
  moreover have "c = q \<or> (\<exists>x. c \<in> set (repr_char pr q x))"
    using assms(2) by (auto simp: py_repr_def Let_def q_def)
  ultimately show ?thesis using repr_char_no_control [OF assms(1) q] by blast
qed

text \<open>Texts without control characters.\<close>

definition plain_text :: "ustring \<Rightarrow> bool" where
  "plain_text s \<longleftrightarrow> list_all (\<lambda>c. \<not> is_control c) s"

lemma plain_text_append [simp]: "plain_text (s @ t) \<longleftrightarrow> plain_text s \<and> plain_text t"
  by (simp add: plain_text_def)

lemma plain_text_repr: "printable_table pr \<Longrightarrow> plain_text (py_repr pr s)"
  using py_repr_no_control by (auto simp: plain_text_def list_all_iff)

lemma plain_text_take: "plain_text s \<Longrightarrow> plain_text (take n s)"
  by (auto simp: plain_text_def list_all_iff dest: in_set_takeD)

lemma plain_text_nat: "plain_text (py_str_nat n)"
  by (auto simp: plain_text_def list_all_iff is_control_def dest: py_str_nat_range)

end
