(* ===== verification/Regex.thy ===== *)
theory Regex
  imports Prelude
begin

text \<open>
  The part of Python's \<open>re\<close> that the scripts use: literals, character classes, sequences,
  alternatives, greedy bounded repetition, groups, anchors and negative look-ahead. A pattern
  is a syntax tree and \<open>rx_match\<close> lists every way it can match from a position, best first,
  as the backtracking matcher tries them; \<open>match\<close>, \<open>fullmatch\<close> and \<open>search\<close> take the
  first suitable one. For patterns without anchors the list is shown to be exactly the words
  of the regular language (\<open>rx_match_lang\<close>).
\<close>

datatype rx =
    Emp
  | Chr nat
  | Cls bool "(nat \<times> nat) list"
  | Seq rx rx
  | Alt rx rx
  | Rep nat "nat option" rx
  | Grp nat rx
  | Bol
  | Eol
  | MBol
  | MEol
  | NotAhead rx

text \<open>
  A position: the characters before it (last first), the characters after it, and the groups
  captured so far. \<open>Cls True\<close> is a negated class.
\<close>

type_synonym position = "ustring \<times> ustring \<times> (nat \<times> ustring) list"

definition in_class :: "bool \<Rightarrow> (nat \<times> nat) list \<Rightarrow> nat \<Rightarrow> bool" where
  "in_class neg ranges c \<longleftrightarrow> list_ex (\<lambda>(lo, hi). lo \<le> c \<and> c \<le> hi) ranges \<noteq> neg"

text \<open>Greedy repetition: another round first, stopping here last; every round makes progress.\<close>

fun rx_rep :: "(position \<Rightarrow> position list) \<Rightarrow> nat \<Rightarrow> nat \<Rightarrow> nat option \<Rightarrow> position \<Rightarrow> position list" where
  "rx_rep step 0 lo hi p = (if lo = 0 then [p] else [])"
| "rx_rep step (Suc n) lo hi p =
     (if hi = Some 0 then []
      else concat (map (\<lambda>q. if length (fst (snd q)) < length (fst (snd p))
                            then rx_rep step n (lo - 1) (map_option (\<lambda>h. h - 1) hi) q else [])
                  (step p)))
     @ (if lo = 0 then [p] else [])"

fun rx_match :: "rx \<Rightarrow> position \<Rightarrow> position list" where
  "rx_match Emp p = [p]"
| "rx_match (Chr c) (pre, rest, caps) =
     (case rest of [] \<Rightarrow> [] | x # xs \<Rightarrow> if x = c then [(x # pre, xs, caps)] else [])"
| "rx_match (Cls neg rs) (pre, rest, caps) =
     (case rest of [] \<Rightarrow> [] | x # xs \<Rightarrow> if in_class neg rs x then [(x # pre, xs, caps)] else [])"
| "rx_match (Seq r s) p = concat (map (rx_match s) (rx_match r p))"
| "rx_match (Alt r s) p = rx_match r p @ rx_match s p"
| "rx_match (Rep lo hi r) p = rx_rep (rx_match r) (length (fst (snd p))) lo hi p"
| "rx_match (Grp g r) (pre, rest, caps) =
     map (\<lambda>(pre', rest', caps'). (pre', rest', (g, take (length rest - length rest') rest) # caps'))
       (rx_match r (pre, rest, caps))"
| "rx_match Bol (pre, rest, caps) = (if pre = [] then [(pre, rest, caps)] else [])"
| "rx_match Eol (pre, rest, caps) = (if rest = [] \<or> rest = [10] then [(pre, rest, caps)] else [])"
| "rx_match MBol (pre, rest, caps) =
     (if pre = [] \<or> hd pre = 10 then [(pre, rest, caps)] else [])"
| "rx_match MEol (pre, rest, caps) =
     (if rest = [] \<or> hd rest = 10 then [(pre, rest, caps)] else [])"
| "rx_match (NotAhead r) p = (if rx_match r p = [] then [p] else [])"

definition re_match :: "rx \<Rightarrow> ustring \<Rightarrow> position option" where
  "re_match r s = (case rx_match r ([], s, []) of [] \<Rightarrow> None | p # _ \<Rightarrow> Some p)"

definition re_fullmatch :: "rx \<Rightarrow> ustring \<Rightarrow> position option" where
  "re_fullmatch r s = find (\<lambda>p. fst (snd p) = []) (rx_match r ([], s, []))"

text \<open>\<open>search\<close>: the first start position, left to right, with a match.\<close>

fun re_search_from :: "rx \<Rightarrow> ustring \<Rightarrow> ustring \<Rightarrow> position option" where
  "re_search_from r pre [] =
     (case rx_match r (pre, [], []) of [] \<Rightarrow> None | p # _ \<Rightarrow> Some p)"
| "re_search_from r pre (x # xs) =
     (case rx_match r (pre, x # xs, []) of [] \<Rightarrow> re_search_from r (x # pre) xs | p # _ \<Rightarrow> Some p)"

definition re_search :: "rx \<Rightarrow> ustring \<Rightarrow> position option" where
  "re_search r s = re_search_from r [] s"

definition re_group :: "position \<Rightarrow> nat \<Rightarrow> ustring option" where
  "re_group p g = map_of (snd (snd p)) g"

subsection \<open>The language of a pattern\<close>

fun lang_pow :: "ustring set \<Rightarrow> nat \<Rightarrow> ustring set" where
  "lang_pow A 0 = {[]}"
| "lang_pow A (Suc k) = {u @ v | u v. u \<in> A \<and> v \<in> lang_pow A k}"

definition count_ok :: "nat \<Rightarrow> nat option \<Rightarrow> nat \<Rightarrow> bool" where
  "count_ok lo hi k \<longleftrightarrow> lo \<le> k \<and> (case hi of None \<Rightarrow> True | Some h \<Rightarrow> k \<le> h)"

fun rx_lang :: "rx \<Rightarrow> ustring set" where
  "rx_lang Emp = {[]}"
| "rx_lang (Chr c) = {[c]}"
| "rx_lang (Cls neg rs) = {[c] | c. in_class neg rs c}"
| "rx_lang (Seq r s) = {u @ v | u v. u \<in> rx_lang r \<and> v \<in> rx_lang s}"
| "rx_lang (Alt r s) = rx_lang r \<union> rx_lang s"
| "rx_lang (Rep lo hi r) = {u. \<exists>k. count_ok lo hi k \<and> u \<in> lang_pow (rx_lang r) k}"
| "rx_lang (Grp g r) = rx_lang r"
| "rx_lang r = {}"

fun nullable :: "rx \<Rightarrow> bool" where
  "nullable Emp = True"
| "nullable (Seq r s) = (nullable r \<and> nullable s)"
| "nullable (Alt r s) = (nullable r \<or> nullable s)"
| "nullable (Rep lo hi r) = (lo = 0 \<or> nullable r)"
| "nullable (Grp g r) = nullable r"
| "nullable r = False"

text \<open>No anchors, and every repeated pattern consumes at least one character.\<close>

definition bounds_ok :: "nat \<Rightarrow> nat option \<Rightarrow> bool" where
  "bounds_ok lo hi \<longleftrightarrow> (case hi of None \<Rightarrow> True | Some h \<Rightarrow> lo \<le> h)"

lemma bounds_ok_pred: "bounds_ok lo hi \<Longrightarrow> bounds_ok (lo - 1) (map_option (\<lambda>h. h - 1) hi)"
  by (auto simp: bounds_ok_def split: option.splits)

lemma bounds_ok_simps [simp]:
  "bounds_ok lo None"
  "bounds_ok lo (Some h) \<longleftrightarrow> lo \<le> h"
  by (simp_all add: bounds_ok_def)

fun plain :: "rx \<Rightarrow> bool" where
  "plain Emp = True"
| "plain (Chr c) = True"
| "plain (Cls neg rs) = True"
| "plain (Seq r s) = (plain r \<and> plain s)"
| "plain (Alt r s) = (plain r \<and> plain s)"
| "plain (Rep lo hi r) = (plain r \<and> \<not> nullable r \<and> bounds_ok lo hi)"
| "plain (Grp g r) = plain r"
| "plain r = False"

lemma lang_pow_Nil: "[] \<in> lang_pow A k \<Longrightarrow> k = 0 \<or> [] \<in> A"
  by (cases k) auto

lemma nullable_lang: "[] \<in> rx_lang r \<Longrightarrow> nullable r"
proof (induction r)
  case (Rep lo hi r)
  then obtain k where "count_ok lo hi k" "[] \<in> lang_pow (rx_lang r) k" by auto
  with Rep.IH show ?case by (auto dest!: lang_pow_Nil simp: count_ok_def)
qed auto

text \<open>Where a match ends: the positions without their groups.\<close>

definition ends :: "position list \<Rightarrow> (ustring \<times> ustring) set" where
  "ends ps = {(pre, rest). \<exists>caps. (pre, rest, caps) \<in> set ps}"

definition splits :: "ustring set \<Rightarrow> ustring \<Rightarrow> ustring \<Rightarrow> (ustring \<times> ustring) set" where
  "splits L pre rest = {(rev u @ pre, v) | u v. rest = u @ v \<and> u \<in> L}"

lemma mem_ends: "(pre, rest) \<in> ends ps \<longleftrightarrow> (\<exists>caps. (pre, rest, caps) \<in> set ps)"
  by (simp add: ends_def)

lemma ends_simps [simp]:
  "ends [] = {}"
  "ends ((pre, rest, caps) # ps) = insert (pre, rest) (ends ps)"
  "ends (ps @ qs) = ends ps \<union> ends qs"
  by (auto simp: ends_def)

lemma mem_splits: "(p, v) \<in> splits L pre rest \<longleftrightarrow> (\<exists>u. rest = u @ v \<and> u \<in> L \<and> p = rev u @ pre)"
  by (auto simp: splits_def)

text \<open>Running a second matcher on every result of an exact one.\<close>

lemma ends_continue:
  assumes step: "ends (step (pre, rest, caps)) = splits L pre rest"
    and cont: "\<And>pre' rest' caps'. (pre', rest', caps') \<in> set (step (pre, rest, caps)) \<Longrightarrow>
      ends (f (pre', rest', caps')) = splits M pre' rest'"
  shows "ends (concat (map f (step (pre, rest, caps)))) =
      splits {u @ v | u v. u \<in> L \<and> v \<in> M} pre rest" (is "?l = ?r")
proof (rule set_eqI)
  fix x :: "ustring \<times> ustring"
  obtain p v where x: "x = (p, v)" by (cases x)
  have "(p, v) \<in> ?l \<longleftrightarrow> (\<exists>pre' rest' caps'. (pre', rest', caps') \<in> set (step (pre, rest, caps)) \<and>
      (p, v) \<in> ends (f (pre', rest', caps')))"
    by (auto simp: mem_ends)
  also have "\<dots> \<longleftrightarrow> (\<exists>pre' rest' caps'. (pre', rest', caps') \<in> set (step (pre, rest, caps)) \<and>
      (p, v) \<in> splits M pre' rest')"
    by (intro iff_exI conj_cong refl) (simp add: cont)
  also have "\<dots> \<longleftrightarrow> (\<exists>pre' rest'. (pre', rest') \<in> splits L pre rest \<and> (p, v) \<in> splits M pre' rest')"
    by (simp add: step [symmetric] mem_ends)
  also have "\<dots> \<longleftrightarrow> (p, v) \<in> ?r"
  proof
    assume "\<exists>pre' rest'. (pre', rest') \<in> splits L pre rest \<and> (p, v) \<in> splits M pre' rest'"
    then show "(p, v) \<in> ?r" by (auto simp: mem_splits) (metis append.assoc rev_append)
  next
    assume "(p, v) \<in> ?r"
    then obtain u w where "rest = u @ w @ v" "u \<in> L" "w \<in> M" "p = rev w @ rev u @ pre"
      by (auto simp: mem_splits)
    then have "(rev u @ pre, w @ v) \<in> splits L pre rest \<and> (p, v) \<in> splits M (rev u @ pre) (w @ v)"
      by (auto simp: mem_splits)
    then show "\<exists>pre' rest'. (pre', rest') \<in> splits L pre rest \<and> (p, v) \<in> splits M pre' rest'"
      by blast
  qed
  finally show "x \<in> ?l \<longleftrightarrow> x \<in> ?r" by (simp add: x)
qed

lemma count_ok_zero: "count_ok lo (Some 0) k \<longleftrightarrow> lo = 0 \<and> k = 0"
  by (auto simp: count_ok_def)

lemma count_ok_Suc:
  "hi \<noteq> Some 0 \<Longrightarrow> count_ok lo hi (Suc k) \<longleftrightarrow> count_ok (lo - 1) (map_option (\<lambda>h. h - 1) hi) k"
  by (cases hi) (auto simp: count_ok_def)

definition rep_lang :: "nat \<Rightarrow> nat option \<Rightarrow> ustring set \<Rightarrow> ustring set" where
  "rep_lang lo hi A = {u. \<exists>k. count_ok lo hi k \<and> u \<in> lang_pow A k}"

lemma rep_lang_unfold:
  "hi \<noteq> Some 0 \<Longrightarrow> rep_lang lo hi A =
     {u @ v | u v. u \<in> A \<and> v \<in> rep_lang (lo - 1) (map_option (\<lambda>h. h - 1) hi) A} \<union>
     (if lo = 0 then {[]} else {})" (is "_ \<Longrightarrow> ?l = ?r")
proof (intro equalityI subsetI)
  fix w
  assume h: "hi \<noteq> Some 0" and "w \<in> ?l"
  then obtain k where k: "count_ok lo hi k" "w \<in> lang_pow A k" by (auto simp: rep_lang_def)
  show "w \<in> ?r"
  proof (cases k)
    case 0
    with k show ?thesis by (simp add: count_ok_def)
  next
    case (Suc m)
    with k obtain u v where "w = u @ v" "u \<in> A" "v \<in> lang_pow A m" by auto
    with k Suc h show ?thesis by (auto simp: rep_lang_def count_ok_Suc)
  qed
next
  fix w
  assume h: "hi \<noteq> Some 0" and "w \<in> ?r"
  then consider (step) u v k where "w = u @ v" "u \<in> A" "v \<in> lang_pow A k"
      "count_ok (lo - 1) (map_option (\<lambda>h. h - 1) hi) k"
    | (stop) "lo = 0" "w = []"
    by (auto simp: rep_lang_def split: if_splits)
  then show "w \<in> ?l"
  proof cases
    case step
    then have "count_ok lo hi (Suc k)" "w \<in> lang_pow A (Suc k)" using h by (auto simp: count_ok_Suc)
    then show ?thesis unfolding rep_lang_def by blast
  next
    case stop
    then have "count_ok lo hi 0" using h by (auto simp: count_ok_def split: option.splits)
    then show ?thesis using stop unfolding rep_lang_def by (auto intro!: exI [of _ 0])
  qed
qed

lemma splits_Un: "splits (A \<union> B) pre rest = splits A pre rest \<union> splits B pre rest"
  by (auto simp: splits_def)

lemma splits_Nil [simp]: "splits {[]} pre rest = {(pre, rest)}" "splits {} pre rest = {}"
  by (auto simp: splits_def)

lemma rep_lang_Nil_rest:
  assumes "[] \<notin> A"
  shows "splits (rep_lang lo hi A) pre [] = (if lo = 0 then {(pre, [])} else {})"
proof -
  have "[] \<in> rep_lang lo hi A \<longleftrightarrow> lo = 0"
  proof
    assume "[] \<in> rep_lang lo hi A"
    with assms show "lo = 0" by (auto simp: rep_lang_def count_ok_def dest!: lang_pow_Nil)
  next
    assume "lo = 0"
    then have "count_ok lo hi 0" by (auto simp: count_ok_def split: option.splits)
    then show "[] \<in> rep_lang lo hi A" unfolding rep_lang_def by (auto intro!: exI [of _ 0])
  qed
  then show ?thesis by (auto simp: splits_def)
qed

lemma rx_rep_lang:
  assumes step: "\<And>pre rest caps. ends (step (pre, rest, caps)) = splits A pre rest"
    and nonempty: "[] \<notin> A"
  shows "length rest \<le> n \<Longrightarrow> bounds_ok lo hi \<Longrightarrow>
    ends (rx_rep step n lo hi (pre, rest, caps)) = splits (rep_lang lo hi A) pre rest"
proof (induction n arbitrary: lo hi pre rest caps)
  case 0
  then show ?case using nonempty by (auto simp: rep_lang_Nil_rest)
next
  case (Suc n)
  show ?case
  proof (cases "hi = Some 0")
    case True
    with Suc.prems have "rep_lang lo hi A = {[]}" by (auto simp: rep_lang_def count_ok_zero)
    with True Suc.prems show ?thesis by simp
  next
    case False
    let ?f = "\<lambda>q. if length (fst (snd q)) < length (fst (snd (pre, rest, caps)))
        then rx_rep step n (lo - 1) (map_option (\<lambda>h. h - 1) hi) q else []"
    have "ends (concat (map ?f (step (pre, rest, caps)))) =
        splits {u @ v | u v. u \<in> A \<and> v \<in> rep_lang (lo - 1) (map_option (\<lambda>h. h - 1) hi) A} pre rest"
    proof (rule ends_continue [where step = step and L = A, OF step])
      fix pre' rest' caps'
      assume "(pre', rest', caps') \<in> set (step (pre, rest, caps))"
      then have "(pre', rest') \<in> splits A pre rest"
        unfolding step [of pre rest caps, symmetric] mem_ends by blast
      then obtain u where "rest = u @ rest'" "u \<in> A" by (auto simp: mem_splits)
      with nonempty have lt: "length rest' < length rest" by (cases u) auto
      have "ends (rx_rep step n (lo - 1) (map_option (\<lambda>h. h - 1) hi) (pre', rest', caps')) =
          splits (rep_lang (lo - 1) (map_option (\<lambda>h. h - 1) hi) A) pre' rest'"
        using Suc.prems lt by (intro Suc.IH bounds_ok_pred) simp_all
      then show "ends (?f (pre', rest', caps')) =
          splits (rep_lang (lo - 1) (map_option (\<lambda>h. h - 1) hi) A) pre' rest'"
        using lt by simp
    qed
    with False show ?thesis
      by (subst rep_lang_unfold) (simp_all add: splits_Un)
  qed
qed

text \<open>The matcher tries exactly the words of the language, at every position.\<close>

lemma rx_match_lang:
  "plain r \<Longrightarrow> ends (rx_match r (pre, rest, caps)) = splits (rx_lang r) pre rest"
proof (induction r arbitrary: pre rest caps)
  case (Chr c)
  then show ?case by (cases rest) (auto simp: splits_def)
next
  case (Cls neg rs)
  then show ?case by (cases rest) (auto simp: splits_def)
next
  case (Seq r s)
  then show ?case by (simp add: ends_continue)
next
  case (Alt r s)
  then show ?case by (simp add: splits_Un)
next
  case (Rep lo hi r)
  then have "[] \<notin> rx_lang r" using nullable_lang by auto
  then have "ends (rx_rep (rx_match r) (length rest) lo hi (pre, rest, caps)) =
      splits (rep_lang lo hi (rx_lang r)) pre rest"
    using Rep by (intro rx_rep_lang) simp_all
  then show ?case by (simp add: rep_lang_def)
next
  case (Grp g r)
  have "ends (rx_match (Grp g r) (pre, rest, caps)) = ends (rx_match r (pre, rest, caps))"
    by (auto simp: ends_def image_iff split: prod.splits) fastforce
  with Grp show ?case by simp
qed simp_all

lemma re_fullmatch_lang:
  assumes "plain r"
  shows "re_fullmatch r s \<noteq> None \<longleftrightarrow> s \<in> rx_lang r"
proof -
  have "re_fullmatch r s \<noteq> None \<longleftrightarrow> (\<exists>p. (p, []) \<in> ends (rx_match r ([], s, [])))"
    by (auto simp: re_fullmatch_def find_None_iff mem_ends)
  also have "\<dots> \<longleftrightarrow> s \<in> rx_lang r"
    by (simp add: rx_match_lang [OF assms] mem_splits)
  finally show ?thesis .
qed

end
