(* ===== verification/JsonPointer.thy ===== *)
theory JsonPointer
  imports PyValues PyText Regex
begin

text \<open>
  \<open>pointer_join\<close> of \<open>scripts/check_contract.py\<close> and the pattern its pointers match. The
  specification side is RFC 6901: \<open>resolve_pointer\<close> walks a document along a pointer, and
  \<open>located\<close> says which value the validators' own paths stand for.
\<close>

subsection \<open>Building pointers\<close>

text \<open>The \<open>token: str | int\<close> of the source; \<open>str(token)\<close>.\<close>

datatype ptoken = Name ustring | Index nat

fun token_text :: "ptoken \<Rightarrow> ustring" where
  "token_text (Name s) = s"
| "token_text (Index i) = py_str_nat i"

definition escape_token :: "ustring \<Rightarrow> ustring" where
  "escape_token s = replace_char 47 (ascii ''~1'') (replace_char 126 (ascii ''~0'') s)"

definition pointer_join :: "ustring \<Rightarrow> ptoken \<Rightarrow> ustring" where
  "pointer_join base token = base @ ascii ''/'' @ escape_token (token_text token)"

definition JSON_POINTER :: rx where
  "JSON_POINTER =
     Rep 0 None (Seq (Chr 47)
       (Rep 0 None (Alt (Cls True [(126, 126), (47, 47)]) (Seq (Chr 126) (Cls False [(48, 49)])))))"

text \<open>One character of a token, escaped.\<close>

definition escape_char :: "nat \<Rightarrow> ustring" where
  "escape_char c = (if c = 126 then [126, 48] else if c = 47 then [126, 49] else [c])"

lemma escape_token_chars: "escape_token s = concat (map escape_char s)"
  by (induction s) (auto simp: escape_token_def escape_char_def ascii_simps replace_char_def)

fun unescape_token :: "ustring \<Rightarrow> ustring" where
  "unescape_token [] = []"
| "unescape_token [c] = [c]"
| "unescape_token (c # d # cs) =
     (if c = 126 \<and> d = 48 then 126 # unescape_token cs
      else if c = 126 \<and> d = 49 then 47 # unescape_token cs
      else c # unescape_token (d # cs))"

lemma unescape_plain: "c \<noteq> 126 \<Longrightarrow> unescape_token (c # cs) = c # unescape_token cs"
  by (cases cs) auto

lemma unescape_escape [simp]: "unescape_token (escape_token s) = s"
  unfolding escape_token_chars
  by (induction s) (auto simp: escape_char_def unescape_plain)

lemma escape_token_inject [simp]: "escape_token s = escape_token t \<longleftrightarrow> s = t"
  by (metis unescape_escape)

lemma escape_token_no_slash [simp]: "47 \<notin> set (escape_token s)"
  unfolding escape_token_chars by (induction s) (auto simp: escape_char_def)

lemma pointer_join_not_Nil [simp]: "pointer_join p t \<noteq> []"
  by (simp add: pointer_join_def)

subsection \<open>Every pointer built from the root matches the manifest's pattern\<close>

definition token_lang :: "ustring set" where
  "token_lang = rx_lang (Rep 0 None (Alt (Cls True [(126, 126), (47, 47)]) (Seq (Chr 126) (Cls False [(48, 49)]))))"

lemma lang_pow_Cons: "u \<in> A \<Longrightarrow> v \<in> lang_pow A k \<Longrightarrow> u @ v \<in> lang_pow A (Suc k)"
  by auto

lemma lang_pow_snoc: "v \<in> lang_pow A k \<Longrightarrow> u \<in> A \<Longrightarrow> v @ u \<in> lang_pow A (Suc k)"
proof (induction k arbitrary: v)
  case 0
  then show ?case by force
next
  case (Suc k)
  then obtain x y where "v = x @ y" "x \<in> A" "y \<in> lang_pow A k" by auto
  with Suc show ?case using lang_pow_Cons [of x A "y @ u" "Suc k"] by simp
qed

lemma escape_token_lang: "escape_token s \<in> token_lang"
proof -
  let ?r = "Alt (Cls True [(126, 126), (47, 47)]) (Seq (Chr 126) (Cls False [(48, 49)]))"
  have char: "escape_char c \<in> rx_lang ?r" for c
    by (auto simp: escape_char_def in_class_def)
  have "concat (map escape_char s) \<in> lang_pow (rx_lang ?r) (length s)"
    by (induction s) (use char lang_pow_Cons in \<open>auto simp del: rx_lang.simps\<close>)
  then show ?thesis
    unfolding token_lang_def escape_token_chars by (auto simp: count_ok_def simp del: lang_pow.simps)
qed

definition pointer_lang :: "ustring set" where
  "pointer_lang = rx_lang JSON_POINTER"

lemma pointer_lang_pow: "pointer_lang = {p. \<exists>k. p \<in> lang_pow {47 # t | t. t \<in> token_lang} k}"
  by (simp add: pointer_lang_def JSON_POINTER_def token_lang_def count_ok_def)

lemma pointer_lang_Nil: "[] \<in> pointer_lang"
  by (auto simp: pointer_lang_pow intro!: exI [of _ 0])

lemma pointer_join_lang: "p \<in> pointer_lang \<Longrightarrow> pointer_join p t \<in> pointer_lang"
proof -
  assume "p \<in> pointer_lang"
  then obtain k where "p \<in> lang_pow {47 # t | t. t \<in> token_lang} k"
    by (auto simp: pointer_lang_pow)
  moreover have "47 # escape_token (token_text t) \<in> {47 # t | t. t \<in> token_lang}"
    using escape_token_lang by blast
  ultimately have "p @ 47 # escape_token (token_text t) \<in> lang_pow {47 # t | t. t \<in> token_lang} (Suc k)"
    by (rule lang_pow_snoc)
  then show ?thesis by (auto simp: pointer_lang_pow pointer_join_def ascii_simps simp del: lang_pow.simps)
qed

lemma JSON_POINTER_fullmatch: "re_fullmatch JSON_POINTER p \<noteq> None \<longleftrightarrow> p \<in> pointer_lang"
  unfolding pointer_lang_def by (rule re_fullmatch_lang) (simp add: JSON_POINTER_def)

subsection \<open>Resolving pointers\<close>

text \<open>The value a validator's path stands for.\<close>

inductive located :: "pyval \<Rightarrow> ustring \<Rightarrow> pyval \<Rightarrow> bool" for doc where
  root: "located doc [] doc"
| member: "located doc p (VDict kvs) \<Longrightarrow> (k, v) \<in> set kvs \<Longrightarrow>
     located doc (pointer_join p (Name k)) v"
| item: "located doc p (VList xs) \<Longrightarrow> i < length xs \<Longrightarrow>
     located doc (pointer_join p (Index i)) (xs ! i)"

fun resolve_step :: "pyval \<Rightarrow> ustring \<Rightarrow> pyval option" where
  "resolve_step (VDict kvs) t = dict_get kvs t"
| "resolve_step (VList xs) t =
     (case find (\<lambda>i. py_str_nat i = t) [0..<length xs] of None \<Rightarrow> None | Some i \<Rightarrow> Some (xs ! i))"
| "resolve_step v t = None"

fun resolve_steps :: "pyval \<Rightarrow> ustring list \<Rightarrow> pyval option" where
  "resolve_steps v [] = Some v"
| "resolve_steps v (t # ts) =
     (case resolve_step v (unescape_token t) of None \<Rightarrow> None | Some w \<Rightarrow> resolve_steps w ts)"

definition resolve_pointer :: "pyval \<Rightarrow> ustring \<Rightarrow> pyval option" where
  "resolve_pointer doc p =
     (case p of [] \<Rightarrow> Some doc
      | c # cs \<Rightarrow> if c = 47 then resolve_steps doc (split_on 47 cs) else None)"

lemma resolve_steps_append:
  "resolve_steps v (ts @ us) = (case resolve_steps v ts of None \<Rightarrow> None | Some w \<Rightarrow> resolve_steps w us)"
  by (induction ts arbitrary: v) (auto split: option.splits)

lemma resolve_pointer_join:
  assumes "resolve_pointer doc p = Some v"
  shows "resolve_pointer doc (pointer_join p t) = resolve_step v (token_text t)"
proof (cases p)
  case Nil
  with assms show ?thesis
    by (simp add: resolve_pointer_def pointer_join_def ascii_simps split_on_absent
        split: option.split)
next
  case (Cons c cs)
  with assms have "c = 47" and "resolve_steps doc (split_on 47 cs) = Some v"
    by (auto simp: resolve_pointer_def split: if_splits)
  with Cons show ?thesis
    by (simp add: resolve_pointer_def pointer_join_def ascii_simps split_on_append split_on_absent
        resolve_steps_append split: option.split)
qed

lemma find_index: "i < n \<Longrightarrow> find (\<lambda>j. j = i) [0..<n] = Some i"
  by (simp add: find_Some_iff) (rule exI [of _ i], simp add: nth_upt)

lemma located_wf: "located doc p v \<Longrightarrow> wf_val doc \<Longrightarrow> wf_val v"
  by (induction rule: located.induct) (auto simp: list_all_iff list_all_length)

lemma located_resolves:
  "located doc p v \<Longrightarrow> wf_val doc \<Longrightarrow> resolve_pointer doc p = Some v"
proof (induction rule: located.induct)
  case root
  then show ?case by (simp add: resolve_pointer_def)
next
  case (member p kvs k v)
  have "distinct (dict_keys kvs)" using located_wf [OF member.hyps(1)] member.prems by simp
  with member show ?case by (simp add: resolve_pointer_join)
next
  case (item p xs i)
  then show ?case by (simp add: resolve_pointer_join find_index)
qed

lemma located_lang: "located doc p v \<Longrightarrow> p \<in> pointer_lang"
  by (induction rule: located.induct) (auto intro: pointer_lang_Nil pointer_join_lang)

end
