(* ===== verification/ContractTables.thy ===== *)
theory ContractTables
  imports JsonPointer
begin

text \<open>
  The constants of \<open>scripts/check_contract.py\<close>: limits, keyword tables and compiled patterns.
  Each pattern is the syntax tree of the source's regular expression; the lemmas read the
  patterns back as conditions on the characters.
\<close>

subsection \<open>Limits and tables\<close>

definition MAX_JSON_BYTES :: nat where "MAX_JSON_BYTES = 1000000"
definition MAX_NESTING_DEPTH :: nat where "MAX_NESTING_DEPTH = 128"
definition MAX_ENUM_ITEMS :: nat where "MAX_ENUM_ITEMS = 64"
definition MAX_ERRORS :: nat where "MAX_ERRORS = 50"
definition MAX_VIOLATIONS :: nat where "MAX_VIOLATIONS = 25"
definition MAX_PATH_LENGTH :: nat where "MAX_PATH_LENGTH = 240"

definition SCHEMA_URI :: ustring where
  "SCHEMA_URI = ascii ''https://json-schema.org/draft/2020-12/schema''"

definition SUPPORTED_KEYWORDS :: "ustring list" where
  "SUPPORTED_KEYWORDS = map ascii
     [''$schema'', ''$id'', ''title'', ''description'', ''type'', ''properties'', ''required'',
      ''additionalProperties'', ''items'', ''minItems'', ''maxItems'', ''minLength'', ''maxLength'',
      ''minimum'', ''maximum'', ''enum'', ''const'', ''pattern'']"

definition JSON_TYPES :: "ustring list" where
  "JSON_TYPES = map ascii
     [''object'', ''array'', ''string'', ''integer'', ''number'', ''boolean'', ''null'']"

definition SCHEMA_ANNOTATIONS :: "ustring list" where
  "SCHEMA_ANNOTATIONS = map ascii [''title'', ''description'']"

definition SCHEMA_UNORDERED_ARRAYS :: "ustring list" where
  "SCHEMA_UNORDERED_ARRAYS = map ascii [''required'', ''enum'']"

subsection \<open>Patterns\<close>

definition CASE_NAME :: rx where
  "CASE_NAME =
     Seq (Cls False [(97, 122), (48, 57)])
       (Rep 0 (Some 1)
         (Seq (Rep 0 (Some 78) (Cls False [(97, 122), (48, 57), (45, 45)]))
           (Cls False [(97, 122), (48, 57)])))"

text \<open>\<open>[\s\S]\<close>: any character at all, so the look-ahead asks for the end of the text.\<close>

definition any_char :: rx where "any_char = Cls True []"

definition identifier_body :: rx where
  "identifier_body =
     Seq (Cls False [(65, 90), (97, 122), (48, 57)])
       (Rep 0 None (Cls False [(65, 90), (97, 122), (48, 57), (46, 46), (95, 95), (58, 58), (45, 45)]))"

definition control_safe_body :: rx where
  "control_safe_body = Rep 1 None (Cls True [(0, 31), (127, 159), (8232, 8232), (8233, 8233)])"

definition identifier_rx :: rx where
  "identifier_rx = Seq Bol (Seq identifier_body (NotAhead any_char))"

definition control_safe_rx :: rx where
  "control_safe_rx = Seq Bol (Seq control_safe_body (NotAhead any_char))"

text \<open>The source text of the two audited expressions; 92 is the backslash.\<close>

definition IDENTIFIER_PATTERN :: ustring where
  "IDENTIFIER_PATTERN =
     ascii ''^[A-Za-z0-9][A-Za-z0-9._:-]*(?!['' @ [92] @ ascii ''s'' @ [92] @ ascii ''S])''"

definition CONTROL_SAFE_PATTERN :: ustring where
  "CONTROL_SAFE_PATTERN =
     ascii ''^[^'' @ [92] @ ascii ''u0000-'' @ [92] @ ascii ''u001F'' @ [92] @ ascii ''u007F-'' @
     [92] @ ascii ''u009F'' @ [92] @ ascii ''u2028'' @ [92] @ ascii ''u2029]+(?!['' @ [92] @
     ascii ''s'' @ [92] @ ascii ''S])''"

definition AUDITED_PATTERN_MATCHERS :: "(ustring \<times> rx) list" where
  "AUDITED_PATTERN_MATCHERS =
     [(IDENTIFIER_PATTERN, identifier_rx), (CONTROL_SAFE_PATTERN, control_safe_rx)]"

subsection \<open>Reading the patterns\<close>

lemma lang_pow_class:
  "u \<in> lang_pow {[c] | c. P c} k \<longleftrightarrow> length u = k \<and> (\<forall>c \<in> set u. P c)"
proof (induction k arbitrary: u)
  case 0
  then show ?case by auto
next
  case (Suc k)
  show ?case
  proof
    assume "u \<in> lang_pow {[c] | c. P c} (Suc k)"
    with Suc show "length u = Suc k \<and> (\<forall>c \<in> set u. P c)" by auto
  next
    assume u: "length u = Suc k \<and> (\<forall>c \<in> set u. P c)"
    then obtain c t where ct: "u = c # t" by (cases u) auto
    with u Suc.IH have "t \<in> lang_pow {[c] | c. P c} k" by auto
    moreover have "[c] \<in> {[c] | c. P c}" using u ct by auto
    ultimately have "[c] @ t \<in> lang_pow {[c] | c. P c} (Suc k)" by (intro lang_pow_Cons)
    then show "u \<in> lang_pow {[c] | c. P c} (Suc k)" by (simp add: ct)
  qed
qed

lemma rx_lang_Seq_class:
  "s \<in> rx_lang (Seq (Cls neg rs) r) \<longleftrightarrow> (\<exists>c t. s = c # t \<and> in_class neg rs c \<and> t \<in> rx_lang r)"
  by auto (metis append_Cons append_Nil)

lemma rx_lang_snoc_class:
  "s \<in> rx_lang (Seq r (Cls neg rs)) \<longleftrightarrow> (\<exists>u d. s = u @ [d] \<and> u \<in> rx_lang r \<and> in_class neg rs d)"
  by auto

lemma rx_lang_optional: "s \<in> rx_lang (Rep 0 (Some 1) r) \<longleftrightarrow> s = [] \<or> s \<in> rx_lang r"
proof -
  have "s \<in> rx_lang (Rep 0 (Some 1) r) \<longleftrightarrow>
      s \<in> lang_pow (rx_lang r) 0 \<or> s \<in> lang_pow (rx_lang r) (Suc 0)"
    by (auto simp: count_ok_def le_Suc_eq simp del: lang_pow.simps)
  then show ?thesis by simp
qed

lemma rx_lang_class_rep:
  "u \<in> rx_lang (Rep lo hi (Cls neg rs)) \<longleftrightarrow>
     count_ok lo hi (length u) \<and> (\<forall>c \<in> set u. in_class neg rs c)"
  by (simp add: lang_pow_class)

lemma rx_match_Bol_later: "rx_match (Seq Bol r) (x # pre, rest, caps) = []"
  by simp

lemma search_Bol_later: "re_search_from (Seq Bol r) (x # pre) s = None"
  by (induction s arbitrary: x pre) simp_all

lemma re_search_anchored:
  "re_search (Seq Bol r) s = (case rx_match r ([], s, []) of [] \<Rightarrow> None | p # _ \<Rightarrow> Some p)"
proof (cases s)
  case Nil
  then show ?thesis by (simp add: re_search_def)
next
  case (Cons x xs)
  then show ?thesis
    by (simp add: re_search_def search_Bol_later split: list.split)
qed

lemma not_ahead_any: "rx_match (NotAhead any_char) p = (if fst (snd p) = [] then [p] else [])"
  by (cases p; cases "fst (snd p)") (auto simp: any_char_def in_class_def)

lemma first_result: "(case ps of [] \<Rightarrow> None | p # _ \<Rightarrow> Some p) \<noteq> None \<longleftrightarrow> ps \<noteq> []"
  by (cases ps) simp_all

text \<open>An anchored search for a plain pattern up to the end of the text is a full match.\<close>

lemma re_search_whole:
  assumes "plain r"
  shows "re_search (Seq Bol (Seq r (NotAhead any_char))) s \<noteq> None \<longleftrightarrow> s \<in> rx_lang r"
proof -
  have "re_search (Seq Bol (Seq r (NotAhead any_char))) s \<noteq> None \<longleftrightarrow>
      concat (map (rx_match (NotAhead any_char)) (rx_match r ([], s, []))) \<noteq> []"
    unfolding re_search_anchored rx_match.simps(4) by (rule first_result)
  also have "\<dots> \<longleftrightarrow> (\<exists>p \<in> set (rx_match r ([], s, [])). rx_match (NotAhead any_char) p \<noteq> [])"
    unfolding concat_eq_Nil_conv by auto
  also have "\<dots> \<longleftrightarrow> (\<exists>p \<in> set (rx_match r ([], s, [])). fst (snd p) = [])"
    unfolding not_ahead_any by simp
  also have "\<dots> \<longleftrightarrow> (\<exists>p. (p, []) \<in> ends (rx_match r ([], s, [])))"
    unfolding mem_ends by (metis prod.collapse fst_conv snd_conv)
  also have "\<dots> \<longleftrightarrow> s \<in> rx_lang r"
    by (simp add: rx_match_lang [OF assms] mem_splits)
  finally show ?thesis .
qed

definition ascii_alnum :: "nat \<Rightarrow> bool" where
  "ascii_alnum c \<longleftrightarrow> (65 \<le> c \<and> c \<le> 90) \<or> (97 \<le> c \<and> c \<le> 122) \<or> (48 \<le> c \<and> c \<le> 57)"

definition identifier_char :: "nat \<Rightarrow> bool" where
  "identifier_char c \<longleftrightarrow> ascii_alnum c \<or> c = 46 \<or> c = 95 \<or> c = 58 \<or> c = 45"

lemma identifier_search:
  "re_search identifier_rx s \<noteq> None \<longleftrightarrow>
     s \<noteq> [] \<and> ascii_alnum (hd s) \<and> (\<forall>c \<in> set s. identifier_char c)"
proof -
  have alnum: "in_class False [(65, 90), (97, 122), (48, 57)] c \<longleftrightarrow> ascii_alnum c" for c
    by (auto simp: in_class_def ascii_alnum_def)
  have ident: "in_class False [(65, 90), (97, 122), (48, 57), (46, 46), (95, 95), (58, 58), (45, 45)] c
      \<longleftrightarrow> identifier_char c" for c
    by (auto simp: in_class_def ascii_alnum_def identifier_char_def)
  have "re_search identifier_rx s \<noteq> None \<longleftrightarrow> s \<in> rx_lang identifier_body"
    unfolding identifier_rx_def by (rule re_search_whole) (simp add: identifier_body_def)
  also have "\<dots> \<longleftrightarrow> s \<noteq> [] \<and> ascii_alnum (hd s) \<and> (\<forall>c \<in> set s. identifier_char c)"
    unfolding identifier_body_def rx_lang_Seq_class rx_lang_class_rep alnum ident
    by (cases s) (auto simp: count_ok_def identifier_char_def)
  finally show ?thesis .
qed

definition control_safe_char :: "nat \<Rightarrow> bool" where
  "control_safe_char c \<longleftrightarrow> \<not> is_control c \<and> c \<noteq> 8232 \<and> c \<noteq> 8233"

lemma control_safe_search:
  "re_search control_safe_rx s \<noteq> None \<longleftrightarrow> s \<noteq> [] \<and> (\<forall>c \<in> set s. control_safe_char c)"
proof -
  have "re_search control_safe_rx s \<noteq> None \<longleftrightarrow> s \<in> rx_lang control_safe_body"
    unfolding control_safe_rx_def by (rule re_search_whole) (simp add: control_safe_body_def)
  also have "\<dots> \<longleftrightarrow> s \<noteq> [] \<and> (\<forall>c \<in> set s. in_class True [(0, 31), (127, 159), (8232, 8232), (8233, 8233)] c)"
    unfolding control_safe_body_def rx_lang_class_rep by (cases s) (auto simp: count_ok_def)
  also have "\<dots> \<longleftrightarrow> s \<noteq> [] \<and> (\<forall>c \<in> set s. control_safe_char c)"
    by (auto simp: in_class_def control_safe_char_def is_control_def)
  finally show ?thesis .
qed

definition slug_char :: "nat \<Rightarrow> bool" where
  "slug_char c \<longleftrightarrow> (97 \<le> c \<and> c \<le> 122) \<or> (48 \<le> c \<and> c \<le> 57)"

lemma CASE_NAME_fullmatch:
  "re_fullmatch CASE_NAME s \<noteq> None \<longleftrightarrow>
     s \<noteq> [] \<and> length s \<le> 80 \<and> slug_char (hd s) \<and> slug_char (last s) \<and>
     (\<forall>c \<in> set s. slug_char c \<or> c = 45)" (is "_ \<longleftrightarrow> ?spec s")
proof -
  let ?alnum = "[(97, 122), (48, 57)] :: (nat \<times> nat) list"
  have alnum: "in_class False ?alnum c \<longleftrightarrow> slug_char c" for c
    by (auto simp: in_class_def slug_char_def)
  have dash: "in_class False (?alnum @ [(45, 45)]) c \<longleftrightarrow> slug_char c \<or> c = 45" for c
    by (auto simp: in_class_def slug_char_def)
  have "re_fullmatch CASE_NAME s \<noteq> None \<longleftrightarrow> s \<in> rx_lang CASE_NAME"
    by (rule re_fullmatch_lang) (simp add: CASE_NAME_def)
  also have "\<dots> \<longleftrightarrow> (\<exists>c t. s = c # t \<and> slug_char c \<and> (t = [] \<or> (\<exists>u d. t = u @ [d] \<and>
      length u \<le> 78 \<and> (\<forall>x \<in> set u. slug_char x \<or> x = 45) \<and> slug_char d)))"
    unfolding CASE_NAME_def rx_lang_Seq_class rx_lang_optional rx_lang_snoc_class rx_lang_class_rep
    using alnum dash by (simp add: count_ok_def)
  also have "\<dots> \<longleftrightarrow> ?spec s"
  proof
    assume "?spec s"
    then obtain c t where s: "s = c # t" by (cases s) auto
    with \<open>?spec s\<close> show "\<exists>c t. s = c # t \<and> slug_char c \<and> (t = [] \<or> (\<exists>u d. t = u @ [d] \<and>
        length u \<le> 78 \<and> (\<forall>x \<in> set u. slug_char x \<or> x = 45) \<and> slug_char d))"
      by (cases t rule: rev_cases) auto
  qed auto
  finally show ?thesis .
qed

end
