(* ===== verification/SchemaProfile.thy ===== *)
theory SchemaProfile
  imports ContractTables
begin

text \<open>
  \<open>schema_issues\<close> of \<open>scripts/check_contract.py\<close>: the closed JSON Schema profile. The nested
  function \<open>walk\<close> appends to one bounded list; here every statement of \<open>walk\<close> is a function
  on that list and a block is a \<open>perform\<close> list of statements in source order.
  The theory SchemaSpec states the contract of this walk on JSON values and proves that the
  list stays empty exactly on the schemas of the profile.
\<close>

subsection \<open>The issue list\<close>

text \<open>\<open>f"at {bounded_path!r}: {message}"[:500]\<close> with the path cut to 240 characters.\<close>

definition bounded_path :: "ustring \<Rightarrow> ustring" where
  "bounded_path path =
     (if length path > MAX_PATH_LENGTH then take (MAX_PATH_LENGTH - 3) path @ ascii ''...'' else path)"

definition render_issue :: "(nat \<Rightarrow> bool) \<Rightarrow> ustring \<times> ustring \<Rightarrow> ustring" where
  "render_issue pr pm =
     (case pm of (path, message) \<Rightarrow>
        take 500 (ascii ''at '' @ py_repr pr (bounded_path path) @ ascii '': '' @ message))"

definition add_issue :: "(nat \<Rightarrow> bool) \<Rightarrow> ustring \<times> ustring \<Rightarrow> ustring list \<Rightarrow> ustring list" where
  "add_issue pr pm issues =
     (if length issues < MAX_ERRORS then issues @ [render_issue pr pm] else issues)"

interpretation issue_log: bounded_log MAX_ERRORS "add_issue pr" "render_issue pr" for pr
  by unfold_locales (auto simp: add_issue_def MAX_ERRORS_def)

lemmas issue_checks [checks_intros] = issue_log.add_checks

subsection \<open>Values of a node\<close>

text \<open>\<open>node.get(keyword)\<close>, with \<open>None\<close> for a missing key.\<close>

definition get_or_none :: "entries \<Rightarrow> string \<Rightarrow> pyval" where
  "get_or_none kvs k = (case dict_get kvs (ascii k) of None \<Rightarrow> VNone | Some v \<Rightarrow> v)"

definition has_key :: "entries \<Rightarrow> string \<Rightarrow> bool" where
  "has_key kvs k = dict_has kvs (ascii k)"

definition natural :: "pyval \<Rightarrow> bool" where
  "natural v \<longleftrightarrow> matches_type v (ascii ''integer'') \<and>
     (case num_of v of None \<Rightarrow> False | Some x \<Rightarrow> num_le (NumFin (0, 0)) x)"

text \<open>\<open>a > b\<close> on two values that are known to be numbers.\<close>

definition num_greater :: "pyval \<Rightarrow> pyval \<Rightarrow> bool" where
  "num_greater a b =
     (case (num_of a, num_of b) of (Some x, Some y) \<Rightarrow> num_lt y x | _ \<Rightarrow> False)"

definition schema_type_of :: "entries \<Rightarrow> pyval" where
  "schema_type_of kvs = get_or_none kvs ''type''"

definition valid_type :: "entries \<Rightarrow> bool" where
  "valid_type kvs =
     (case schema_type_of kvs of VStr t \<Rightarrow> t \<in> set JSON_TYPES | _ \<Rightarrow> False)"

text \<open>\<open>properties\<close> and \<open>required\<close> after the fall-backs to \<open>{}\<close> and \<open>[]\<close>.\<close>

definition schema_properties :: "entries \<Rightarrow> entries" where
  "schema_properties kvs =
     (case dict_get kvs (ascii ''properties'') of Some (VDict ps) \<Rightarrow> ps | _ \<Rightarrow> [])"

fun str_of :: "pyval \<Rightarrow> ustring" where
  "str_of (VStr s) = s"
| "str_of v = []"

definition string_array :: "pyval \<Rightarrow> bool" where
  "string_array v = (case v of VList items \<Rightarrow> list_all is_str items | _ \<Rightarrow> False)"

definition schema_required :: "entries \<Rightarrow> ustring list" where
  "schema_required kvs =
     (case get_or_none kvs ''required'' of
        VList items \<Rightarrow> if list_all is_str items then map str_of items else []
      | _ \<Rightarrow> [])"

subsection \<open>The statements of walk\<close>

type_synonym issue_step = "ustring list \<Rightarrow> ustring list"

definition issue_keywords :: "(nat \<Rightarrow> bool) \<Rightarrow> entries \<Rightarrow> ustring \<Rightarrow> issue_step" where
  "issue_keywords pr kvs path =
     fold (\<lambda>keyword. add_issue pr (path, ascii ''unsupported keyword '' @ py_repr pr keyword))
       (sort (filter (\<lambda>k. k \<notin> set SUPPORTED_KEYWORDS) (dict_keys kvs)))"

definition issue_root :: "(nat \<Rightarrow> bool) \<Rightarrow> entries \<Rightarrow> ustring \<Rightarrow> bool \<Rightarrow> issue_step" where
  "issue_root pr kvs path is_root =
     (if is_root then
        perform
          [guarded (get_or_none kvs ''$schema'' \<noteq> VStr SCHEMA_URI)
             (add_issue pr (path, ascii ''$schema must be '' @ py_repr pr SCHEMA_URI)),
           guarded (\<not> is_str (get_or_none kvs ''$id'') \<or> str_of (get_or_none kvs ''$id'') = [])
             (add_issue pr (path, ascii ''$id must be a non-empty string''))]
      else
        guarded (has_key kvs ''$schema'' \<or> has_key kvs ''$id'')
          (add_issue pr (path, ascii ''$schema and $id are root-only in this profile'')))"

definition issue_annotations :: "(nat \<Rightarrow> bool) \<Rightarrow> entries \<Rightarrow> ustring \<Rightarrow> issue_step" where
  "issue_annotations pr kvs path =
     fold (\<lambda>annotation.
         guarded (has_key kvs annotation \<and> \<not> is_str (get_or_none kvs annotation))
           (add_issue pr (path, ascii annotation @ ascii '' must be a string'')))
       [''title'', ''description'']"

definition issue_type :: "(nat \<Rightarrow> bool) \<Rightarrow> entries \<Rightarrow> ustring \<Rightarrow> issue_step" where
  "issue_type pr kvs path =
     guarded (\<not> valid_type kvs)
       (add_issue pr (path, ascii ''type must be one supported JSON type string''))"

definition keyword_groups :: "(string list \<times> string list \<times> string) list" where
  "keyword_groups =
     [([''properties'', ''required'', ''additionalProperties''], [''object''], ''object''),
      ([''items'', ''minItems'', ''maxItems''], [''array''], ''array''),
      ([''minLength'', ''maxLength'', ''pattern''], [''string''], ''string''),
      ([''minimum'', ''maximum''], [''integer'', ''number''], ''numeric'')]"

definition type_among :: "entries \<Rightarrow> string list \<Rightarrow> bool" where
  "type_among kvs types = (case schema_type_of kvs of VStr t \<Rightarrow> t \<in> set (map ascii types) | _ \<Rightarrow> False)"

definition issue_groups :: "(nat \<Rightarrow> bool) \<Rightarrow> entries \<Rightarrow> ustring \<Rightarrow> issue_step" where
  "issue_groups pr kvs path =
     fold (\<lambda>(keywords, allowed, label).
         guarded (list_ex (has_key kvs) keywords \<and> \<not> type_among kvs allowed)
           (add_issue pr (path, ascii label @ ascii '' keywords do not match type'')))
       keyword_groups"

definition issue_bounds ::
  "(nat \<Rightarrow> bool) \<Rightarrow> entries \<Rightarrow> ustring \<Rightarrow> string \<Rightarrow> string \<Rightarrow> issue_step" where
  "issue_bounds pr kvs path low high =
     perform
       [fold (\<lambda>keyword.
            guarded (has_key kvs keyword \<and> \<not> natural (get_or_none kvs keyword))
              (add_issue pr (path, ascii keyword @ ascii '' must be a non-negative integer'')))
          [low, high],
        guarded (natural (get_or_none kvs low) \<and> natural (get_or_none kvs high) \<and>
            num_greater (get_or_none kvs low) (get_or_none kvs high))
          (add_issue pr (path, ascii low @ ascii '' must not exceed '' @ ascii high))]"

definition issue_object_head :: "(nat \<Rightarrow> bool) \<Rightarrow> entries \<Rightarrow> ustring \<Rightarrow> issue_step" where
  "issue_object_head pr kvs path =
     perform
       [guarded (\<not> is_dict (get_or_none kvs ''properties''))
          (add_issue pr (path, ascii ''object schemas require a properties object'')),
        (if \<not> string_array (get_or_none kvs ''required'')
         then add_issue pr (path, ascii ''object schemas require a required string array'')
         else guarded (length (schema_required kvs) \<noteq> card (set (schema_required kvs)))
           (add_issue pr (path, ascii ''required entries must be unique''))),
        guarded (get_or_none kvs ''additionalProperties'' \<noteq> VBool False)
          (add_issue pr (path, ascii ''object schemas require additionalProperties to be false''))]"

definition issue_object_tail :: "(nat \<Rightarrow> bool) \<Rightarrow> entries \<Rightarrow> ustring \<Rightarrow> issue_step" where
  "issue_object_tail pr kvs path =
     guarded (list_ex (\<lambda>name. \<not> dict_has (schema_properties kvs) name) (schema_required kvs))
       (add_issue pr (path, ascii ''every required entry must name a property''))"

definition issue_string :: "(nat \<Rightarrow> bool) \<Rightarrow> entries \<Rightarrow> ustring \<Rightarrow> issue_step" where
  "issue_string pr kvs path =
     perform
       [issue_bounds pr kvs path ''minLength'' ''maxLength'',
        guarded (has_key kvs ''pattern'')
          (if \<not> is_str (get_or_none kvs ''pattern'')
           then add_issue pr (path, ascii ''pattern must be a string'')
           else guarded (\<not> dict_has AUDITED_PATTERN_MATCHERS (str_of (get_or_none kvs ''pattern'')))
             (add_issue pr (path, ascii ''pattern must be an audited language-neutral expression'')))]"

definition issue_numeric :: "(nat \<Rightarrow> bool) \<Rightarrow> entries \<Rightarrow> ustring \<Rightarrow> issue_step" where
  "issue_numeric pr kvs path =
     perform
       [fold (\<lambda>keyword.
            guarded (has_key kvs keyword \<and> \<not> is_number_value (get_or_none kvs keyword))
              (add_issue pr (path, ascii keyword @ ascii '' must be a finite number'')))
          [''minimum'', ''maximum''],
        guarded (is_number_value (get_or_none kvs ''minimum'') \<and>
            is_number_value (get_or_none kvs ''maximum''))
          (guarded (num_greater (get_or_none kvs ''minimum'') (get_or_none kvs ''maximum''))
            (add_issue pr (path, ascii ''minimum must not exceed maximum'')))]"

text \<open>\<open>any(json_equal(a, b) for index, a in enumerate(enum) for b in enum[index + 1:])\<close>.\<close>

fun equal_pair :: "pyval list \<Rightarrow> bool" where
  "equal_pair [] = False"
| "equal_pair (a # vs) = (list_ex (json_equal a) vs \<or> equal_pair vs)"

definition enum_items :: "entries \<Rightarrow> pyval list" where
  "enum_items kvs = (case get_or_none kvs ''enum'' of VList items \<Rightarrow> items | _ \<Rightarrow> [])"

definition issue_enum :: "(nat \<Rightarrow> bool) \<Rightarrow> entries \<Rightarrow> ustring \<Rightarrow> issue_step" where
  "issue_enum pr kvs path =
     guarded (has_key kvs ''enum'')
       (if enum_items kvs = [] then add_issue pr (path, ascii ''enum must be a non-empty array'')
        else if length (enum_items kvs) > MAX_ENUM_ITEMS
          then add_issue pr (path, ascii ''enum must contain at most '' @ py_str_nat MAX_ENUM_ITEMS @
            ascii '' entries'')
        else if equal_pair (enum_items kvs) then add_issue pr (path, ascii ''enum entries must be unique'')
        else guarded (valid_type kvs \<and>
            list_ex (\<lambda>item. \<not> matches_type item (str_of (schema_type_of kvs))) (enum_items kvs))
          (add_issue pr (path, ascii ''enum entries must match type'')))"

definition issue_const :: "(nat \<Rightarrow> bool) \<Rightarrow> entries \<Rightarrow> ustring \<Rightarrow> issue_step" where
  "issue_const pr kvs path =
     perform
       [guarded (has_key kvs ''const'' \<and> valid_type kvs)
          (guarded (\<not> matches_type (get_or_none kvs ''const'') (str_of (schema_type_of kvs)))
            (add_issue pr (path, ascii ''const must match type''))),
        guarded (has_key kvs ''enum'' \<and> has_key kvs ''const'')
          (add_issue pr (path, ascii ''enum and const must not be combined in this profile''))]"

subsection \<open>walk and schema\_issues\<close>

lemma schema_properties_size: "(k, v) \<in> set (schema_properties kvs) \<Longrightarrow> size v < size (VDict kvs)"
  by (auto simp: schema_properties_def simp del: pyval.size split: option.splits pyval.splits
      intro: size_nested_dict [OF sym])

function schema_walk ::
  "(nat \<Rightarrow> bool) \<Rightarrow> pyval \<Rightarrow> ustring \<Rightarrow> bool \<Rightarrow> nat \<Rightarrow> issue_step" where
  "schema_walk pr node path is_root depth =
     (if depth > MAX_NESTING_DEPTH
      then add_issue pr (path, ascii ''schema exceeds the checker nesting limit'')
      else case node of
        VDict kvs \<Rightarrow>
          perform
            [issue_keywords pr kvs path,
             issue_root pr kvs path is_root,
             issue_annotations pr kvs path,
             issue_type pr kvs path,
             issue_groups pr kvs path,
             (if schema_type_of kvs = VStr (ascii ''object'') then
                perform
                  [issue_object_head pr kvs path,
                   fold (\<lambda>(name, child).
                       schema_walk pr child (pointer_join path (Name name)) False (depth + 1))
                     (schema_properties kvs),
                   issue_object_tail pr kvs path]
              else if schema_type_of kvs = VStr (ascii ''array'') then
                perform
                  [(case dict_get kvs (ascii ''items'') of
                      None \<Rightarrow> add_issue pr (path, ascii ''array schemas require items'')
                    | Some item \<Rightarrow>
                        schema_walk pr item (pointer_join path (Name (ascii ''items''))) False (depth + 1)),
                   issue_bounds pr kvs path ''minItems'' ''maxItems'']
              else if schema_type_of kvs = VStr (ascii ''string'') then issue_string pr kvs path
              else if type_among kvs [''integer'', ''number''] then issue_numeric pr kvs path
              else id),
             issue_enum pr kvs path,
             issue_const pr kvs path]
      | _ \<Rightarrow> add_issue pr (path, ascii ''a schema node must be an object''))"
  by pat_completeness auto

termination
  by (relation "measure (\<lambda>(pr, node, path, is_root, depth). size node)")
    (auto dest: schema_properties_size size_dict_get simp del: pyval.size)

declare schema_walk.simps [simp del]

definition schema_issues :: "(nat \<Rightarrow> bool) \<Rightarrow> pyval \<Rightarrow> ustring list" where
  "schema_issues pr schema = schema_walk pr schema [] True 0 []"

end
