(* ===== verification/SchemaSpec.thy ===== *)
theory SchemaSpec
  imports SchemaProfile
begin

text \<open>
  What a schema of the closed profile is, stated on the JSON value the Python value denotes
  (objects as maps, numbers as rationals), and the proof that \<open>schema_issues\<close> reports nothing
  exactly on these schemas. The specification knows nothing of key order, of the spelling of
  numbers or of the order in which the walk runs its checks.
\<close>

subsection \<open>Reading denotations\<close>

definition jmap :: "entries \<Rightarrow> ustring \<Rightarrow> jval option" where
  "jmap kvs k = map_option denote (dict_get kvs k)"

lemma denote_VDict: "denote (VDict kvs) = JObj (jmap kvs)"
  by (simp only: denote_dict jmap_def [abs_def])

lemma denote_shapes:
  "denote v = JNull \<longleftrightarrow> v = VNone"
  "denote v = JBool b \<longleftrightarrow> v = VBool b"
  "denote v = JStr s \<longleftrightarrow> v = VStr s"
  "denote v = JArr js \<longleftrightarrow> (\<exists>xs. v = VList xs \<and> js = map denote xs)"
  "denote v = JObj m \<longleftrightarrow> (\<exists>kvs. v = VDict kvs \<and> m = jmap kvs)"
  by (cases v; force simp: num_denote_shape denote_VDict simp del: denote.simps(8))+

lemma powi_integral_iff:
  fixes b :: int
  assumes "1 < b"
  shows "(\<exists>i. (of_int m * of_int b powi e :: rat) = of_int i) \<longleftrightarrow> 0 \<le> e \<or> b ^ nat (- e) dvd m"
proof (cases "0 \<le> e")
  case True
  then have "(of_int m * of_int b powi e :: rat) = of_int (m * b ^ nat e)"
    by (simp add: power_int_def)
  with True show ?thesis by blast
next
  case False
  have pos: "(of_int b ^ nat (- e) :: rat) \<noteq> 0" using assms by simp
  have "(of_int m * of_int b powi e :: rat) = of_int i \<longleftrightarrow> m = i * b ^ nat (- e)" for i
  proof -
    have "(of_int m * of_int b powi e :: rat) = of_int m / of_int b ^ nat (- e)"
      using False by (simp add: power_int_def divide_inverse power_inverse)
    also have "\<dots> = of_int i \<longleftrightarrow> (of_int m :: rat) = of_int (i * b ^ nat (- e))"
      using pos by (simp add: divide_eq_eq)
    finally show ?thesis by (simp only: of_int_eq_iff)
  qed
  with False show ?thesis by (auto simp: dvd_def mult.commute)
qed

lemma is_integer_denote: "is_integer_value v \<longleftrightarrow> (\<exists>i. denote v = JNum (of_int i))"
proof (cases v)
  case (VDec d)
  show ?thesis
  proof (cases d)
    case (DFin s c e)
    have "is_integer_value v \<longleftrightarrow> 0 \<le> e \<or> (10::int) ^ nat (- e) dvd (if s then - int c else int c)"
      using dec_integral_iff [of s c e]
      by (simp only: VDec DFin is_integer_value.simps dec_is_finite.simps simp_thms)
        (auto simp flip: int_dvd_int_iff)
    also have "\<dots> \<longleftrightarrow>
        (\<exists>i. (of_int (if s then - int c else int c) * of_int 10 powi e :: rat) = of_int i)"
      by (rule powi_integral_iff [symmetric]) simp
    finally show ?thesis by (simp add: VDec DFin dec_scaled_def)
  qed (use VDec in simp_all)
next
  case (VFloat f)
  show ?thesis
  proof (cases f)
    case (FFin m e)
    have "is_integer_value v \<longleftrightarrow> 0 \<le> e \<or> (2::int) ^ nat (- e) dvd m"
      by (simp add: VFloat FFin)
    also have "\<dots> \<longleftrightarrow> (\<exists>i. (of_int m * of_int 2 powi e :: rat) = of_int i)"
      by (rule powi_integral_iff [symmetric]) simp
    finally show ?thesis by (simp add: VFloat FFin float_scaled_value)
  qed (use VFloat in simp_all)
qed auto

lemma is_number_denote: "is_number_value v \<longleftrightarrow> (\<exists>q. denote v = JNum q)"
proof (cases v)
  case (VDec d)
  then show ?thesis by (cases d) simp_all
next
  case (VFloat f)
  then show ?thesis by (cases f) simp_all
qed auto

lemma num_of_denote:
  assumes "denote v = JNum q" shows "\<exists>p. num_of v = Some (NumFin p) \<and> scaled_value p = q"
proof -
  have n: "is_number_value v" using assms by (auto simp: is_number_denote)
  then obtain p where p: "num_of v = Some (NumFin p)" using number_view_finite by blast
  moreover have "\<not> is_bool v" using n by (cases v) auto
  ultimately show ?thesis using assms num_denote_of by fastforce
qed

lemma natural_denote: "natural v \<longleftrightarrow> (\<exists>n. denote v = JNum (of_nat n))"
proof
  assume nat: "natural v"
  then obtain i where i: "denote v = JNum (of_int i)"
    by (auto simp: natural_def is_integer_denote)
  then obtain p where p: "num_of v = Some (NumFin p)" "scaled_value p = of_int i"
    using num_of_denote by blast
  with nat have "0 \<le> i" by (simp add: natural_def scaled_le_iff)
  with i show "\<exists>n. denote v = JNum (of_nat n)" by (metis of_int_of_nat_eq zero_le_imp_eq_int)
next
  assume "\<exists>n. denote v = JNum (of_nat n)"
  then obtain n where n: "denote v = JNum (of_nat n)" by blast
  then obtain p where p: "num_of v = Some (NumFin p)" "scaled_value p = of_nat n"
    using num_of_denote by blast
  have "is_integer_value v" using n by (metis is_integer_denote of_int_of_nat_eq)
  with p show "natural v" by (simp add: natural_def scaled_le_iff)
qed

lemma num_greater_denote:
  "denote a = JNum p \<Longrightarrow> denote b = JNum q \<Longrightarrow> num_greater a b \<longleftrightarrow> q < p"
  using num_of_denote [of a p] num_of_denote [of b q]
  by (auto simp: num_greater_def num_lt_def scaled_le_iff scaled_eq_iff)

subsection \<open>JSON types\<close>

definition jtype_holds :: "ustring \<Rightarrow> jval \<Rightarrow> bool" where
  "jtype_holds t j =
     (case j of
        JNull \<Rightarrow> t = ascii ''null''
      | JBool b \<Rightarrow> t = ascii ''boolean''
      | JStr s \<Rightarrow> t = ascii ''string''
      | JNum q \<Rightarrow> t = ascii ''number'' \<or> t = ascii ''integer'' \<and> of_int \<lfloor>q\<rfloor> = q
      | JArr js \<Rightarrow> t = ascii ''array''
      | JObj m \<Rightarrow> t = ascii ''object''
      | _ \<Rightarrow> False)"

lemma floor_integral_iff: "of_int \<lfloor>q :: rat\<rfloor> = q \<longleftrightarrow> (\<exists>i. q = of_int i)"
  by (metis floor_of_int)

lemma matches_type_denote:
  assumes "t \<in> set JSON_TYPES"
  shows "matches_type v t \<longleftrightarrow> jtype_holds t (denote v)"
proof -
  consider "t = ascii ''object''" | "t = ascii ''array''" | "t = ascii ''string''"
    | (num) "t = ascii ''integer'' \<or> t = ascii ''number''" | "t = ascii ''boolean''"
    | "t = ascii ''null''"
    using assms unfolding JSON_TYPES_def by auto
  then show ?thesis
  proof cases
    case num
    have "jtype_holds (ascii ''integer'') (denote v) \<longleftrightarrow> is_integer_value v"
      unfolding is_integer_denote
      by (cases "denote v") (simp_all add: jtype_holds_def floor_integral_iff)
    moreover have "jtype_holds (ascii ''number'') (denote v) \<longleftrightarrow> is_number_value v"
      unfolding is_number_denote by (cases "denote v") (simp_all add: jtype_holds_def)
    ultimately show ?thesis using num by auto
  qed (cases v; simp add: jtype_holds_def split: jval.splits; auto simp: num_denote_shape)+
qed


subsection \<open>The profile\<close>

text \<open>The members every node may have, and the extra members of a node of one type.\<close>

definition base_keywords :: "bool \<Rightarrow> string list" where
  "base_keywords is_root =
     [''title'', ''description'', ''type'', ''enum'', ''const''] @
     (if is_root then [''$schema'', ''$id''] else [])"

definition allowed_values :: "ustring \<Rightarrow> (ustring \<Rightarrow> jval option) \<Rightarrow> bool" where
  "allowed_values t m \<longleftrightarrow>
     (\<forall>v. m (ascii ''enum'') = Some v \<longrightarrow>
        (\<exists>vs. v = JArr vs \<and> vs \<noteq> [] \<and> length vs \<le> MAX_ENUM_ITEMS \<and> distinct vs \<and>
           (\<forall>w \<in> set vs. jtype_holds t w))) \<and>
     (\<forall>v. m (ascii ''const'') = Some v \<longrightarrow> jtype_holds t v) \<and>
     (m (ascii ''enum'') = None \<or> m (ascii ''const'') = None)"

definition node_head :: "bool \<Rightarrow> string \<Rightarrow> string list \<Rightarrow> (ustring \<Rightarrow> jval option) \<Rightarrow> bool" where
  "node_head is_root t extra m \<longleftrightarrow>
     dom m \<subseteq> ascii ` set (base_keywords is_root @ extra) \<and>
     m (ascii ''type'') = Some (JStr (ascii t)) \<and>
     (is_root \<longrightarrow> m (ascii ''$schema'') = Some (JStr SCHEMA_URI) \<and>
        (\<exists>s. s \<noteq> [] \<and> m (ascii ''$id'') = Some (JStr s))) \<and>
     (\<forall>a \<in> {''title'', ''description''}. \<forall>v. m (ascii a) = Some v \<longrightarrow> (\<exists>s. v = JStr s)) \<and>
     allowed_values (ascii t) m"

definition count_limits :: "(ustring \<Rightarrow> jval option) \<Rightarrow> string \<Rightarrow> string \<Rightarrow> bool" where
  "count_limits m low high \<longleftrightarrow>
     (\<forall>k \<in> {low, high}. \<forall>v. m (ascii k) = Some v \<longrightarrow> (\<exists>n. v = JNum (of_nat n))) \<and>
     (\<forall>a b. m (ascii low) = Some (JNum a) \<longrightarrow> m (ascii high) = Some (JNum b) \<longrightarrow> a \<le> b)"

definition number_limits :: "(ustring \<Rightarrow> jval option) \<Rightarrow> string \<Rightarrow> string \<Rightarrow> bool" where
  "number_limits m low high \<longleftrightarrow>
     (\<forall>k \<in> {low, high}. \<forall>v. m (ascii k) = Some v \<longrightarrow> (\<exists>q. v = JNum q)) \<and>
     (\<forall>a b. m (ascii low) = Some (JNum a) \<longrightarrow> m (ascii high) = Some (JNum b) \<longrightarrow> a \<le> b)"

inductive schema_profile :: "bool \<Rightarrow> nat \<Rightarrow> jval \<Rightarrow> bool" where
  object_node:
    "depth \<le> MAX_NESTING_DEPTH \<Longrightarrow>
     node_head is_root ''object'' [''properties'', ''required'', ''additionalProperties''] m \<Longrightarrow>
     m (ascii ''properties'') = Some (JObj ps) \<Longrightarrow>
     m (ascii ''required'') = Some (JArr (map JStr names)) \<Longrightarrow>
     m (ascii ''additionalProperties'') = Some (JBool False) \<Longrightarrow>
     distinct names \<Longrightarrow> set names \<subseteq> dom ps \<Longrightarrow>
     (\<And>name child. ps name = Some child \<Longrightarrow> schema_profile False (depth + 1) child) \<Longrightarrow>
     schema_profile is_root depth (JObj m)"
| array_node:
    "depth \<le> MAX_NESTING_DEPTH \<Longrightarrow>
     node_head is_root ''array'' [''items'', ''minItems'', ''maxItems''] m \<Longrightarrow>
     m (ascii ''items'') = Some item \<Longrightarrow> schema_profile False (depth + 1) item \<Longrightarrow>
     count_limits m ''minItems'' ''maxItems'' \<Longrightarrow>
     schema_profile is_root depth (JObj m)"
| string_node:
    "depth \<le> MAX_NESTING_DEPTH \<Longrightarrow>
     node_head is_root ''string'' [''minLength'', ''maxLength'', ''pattern''] m \<Longrightarrow>
     count_limits m ''minLength'' ''maxLength'' \<Longrightarrow>
     (\<And>v. m (ascii ''pattern'') = Some v \<Longrightarrow>
        v \<in> {JStr IDENTIFIER_PATTERN, JStr CONTROL_SAFE_PATTERN}) \<Longrightarrow>
     schema_profile is_root depth (JObj m)"
| numeric_node:
    "depth \<le> MAX_NESTING_DEPTH \<Longrightarrow> t \<in> {''integer'', ''number''} \<Longrightarrow>
     node_head is_root t [''minimum'', ''maximum''] m \<Longrightarrow>
     number_limits m ''minimum'' ''maximum'' \<Longrightarrow>
     schema_profile is_root depth (JObj m)"
| plain_node:
    "depth \<le> MAX_NESTING_DEPTH \<Longrightarrow> t \<in> {''boolean'', ''null''} \<Longrightarrow>
     node_head is_root t [] m \<Longrightarrow>
     schema_profile is_root depth (JObj m)"

inductive_cases schema_profile_JObjE: "schema_profile is_root depth (JObj m)"

subsection \<open>The condition of each block\<close>

text \<open>A member read through \<open>get_or_none\<close>.\<close>

lemma get_or_none_denote:
  "denote (get_or_none kvs k) = (case jmap kvs (ascii k) of None \<Rightarrow> JNull | Some j \<Rightarrow> j)"
  by (simp add: get_or_none_def jmap_def split: option.splits)

lemma has_key_jmap: "has_key kvs k \<longleftrightarrow> jmap kvs (ascii k) \<noteq> None"
  by (auto simp: has_key_def jmap_def dict_has_iff)

lemma is_str_denote: "is_str v \<longleftrightarrow> (\<exists>s. denote v = JStr s)"
  by (cases v) (simp_all add: num_denote_shape del: denote.simps(8) add: denote_VDict)

lemma keys_jmap: "set (dict_keys kvs) = dom (jmap kvs)"
proof -
  have "dom (jmap kvs) = dom (dict_get kvs)" by (auto simp: jmap_def)
  then show ?thesis by (simp add: dom_map_of_conv_image_fst)
qed

lemma value_of_member:
  "jmap kvs (ascii k) = Some j \<longleftrightarrow> has_key kvs k \<and> denote (get_or_none kvs k) = j"
  by (auto simp: get_or_none_def jmap_def has_key_def dict_has_iff)

lemma issue_bounds_checks:
  "checks MAX_ERRORS (issue_bounds pr kvs path low high) (count_limits (jmap kvs) low high)"
proof -
  have "checks MAX_ERRORS (issue_bounds pr kvs path low high)
     ((\<forall>k \<in> set [low, high]. has_key kvs k \<and> \<not> natural (get_or_none kvs k) \<longrightarrow> False) \<and>
      (natural (get_or_none kvs low) \<and> natural (get_or_none kvs high) \<and>
        num_greater (get_or_none kvs low) (get_or_none kvs high) \<longrightarrow> False) \<and> True)"
    unfolding issue_bounds_def by (intro checks_intros)
  moreover have "natural (get_or_none kvs k) \<longleftrightarrow>
      (\<exists>n. jmap kvs (ascii k) = Some (JNum (of_nat n)))" for k
    by (cases "jmap kvs (ascii k)") (simp_all add: natural_denote get_or_none_denote)
  moreover have "num_greater (get_or_none kvs low) (get_or_none kvs high) \<longleftrightarrow> b < a"
    if "jmap kvs (ascii low) = Some (JNum a)" "jmap kvs (ascii high) = Some (JNum b)" for a b
    using that by (intro num_greater_denote) (simp_all add: get_or_none_denote)
  ultimately show ?thesis
    unfolding count_limits_def has_key_jmap
    by (elim checks_iff) (fastforce simp: not_less)
qed


lemma issue_keywords_checks:
  "checks MAX_ERRORS (issue_keywords pr kvs path) (dom (jmap kvs) \<subseteq> set SUPPORTED_KEYWORDS)"
proof -
  have "checks MAX_ERRORS (issue_keywords pr kvs path)
      (\<forall>k \<in> set (sort (filter (\<lambda>k. k \<notin> set SUPPORTED_KEYWORDS) (dict_keys kvs))). False)"
    unfolding issue_keywords_def by (intro checks_intros)
  then show ?thesis by (elim checks_iff) (auto simp flip: keys_jmap)
qed

definition root_members :: "bool \<Rightarrow> (ustring \<Rightarrow> jval option) \<Rightarrow> bool" where
  "root_members is_root m \<longleftrightarrow>
     (if is_root then m (ascii ''$schema'') = Some (JStr SCHEMA_URI) \<and>
        (\<exists>s. s \<noteq> [] \<and> m (ascii ''$id'') = Some (JStr s))
      else m (ascii ''$schema'') = None \<and> m (ascii ''$id'') = None)"

lemma get_or_none_str:
  "get_or_none kvs k = VStr s \<longleftrightarrow> jmap kvs (ascii k) = Some (JStr s)"
  by (auto simp: get_or_none_def jmap_def denote_shapes split: option.splits)

lemma is_str_get: "is_str (get_or_none kvs k) \<longleftrightarrow> (\<exists>s. jmap kvs (ascii k) = Some (JStr s))"
  by (metis get_or_none_str is_str.elims(2) is_str.simps(1))

lemma issue_root_checks:
  "checks MAX_ERRORS (issue_root pr kvs path is_root) (root_members is_root (jmap kvs))"
proof -
  have "checks MAX_ERRORS (issue_root pr kvs path is_root)
     (if is_root then
       (get_or_none kvs ''$schema'' \<noteq> VStr SCHEMA_URI \<longrightarrow> False) \<and>
       (\<not> is_str (get_or_none kvs ''$id'') \<or> str_of (get_or_none kvs ''$id'') = [] \<longrightarrow> False) \<and> True
      else has_key kvs ''$schema'' \<or> has_key kvs ''$id'' \<longrightarrow> False)"
    unfolding issue_root_def by (intro checks_intros)
  moreover have "(\<exists>s. s \<noteq> [] \<and> jmap kvs (ascii k) = Some (JStr s)) \<longleftrightarrow>
      is_str (get_or_none kvs k) \<and> str_of (get_or_none kvs k) \<noteq> []" for k
    unfolding get_or_none_str [symmetric] by (cases "get_or_none kvs k") auto
  ultimately show ?thesis
    unfolding root_members_def by (elim checks_iff) (auto simp: has_key_jmap get_or_none_str)
qed

definition string_members :: "string list \<Rightarrow> (ustring \<Rightarrow> jval option) \<Rightarrow> bool" where
  "string_members ks m \<longleftrightarrow> (\<forall>k \<in> set ks. \<forall>v. m (ascii k) = Some v \<longrightarrow> (\<exists>s. v = JStr s))"

lemma issue_annotations_checks:
  "checks MAX_ERRORS (issue_annotations pr kvs path)
     (string_members [''title'', ''description''] (jmap kvs))"
proof -
  have "checks MAX_ERRORS (issue_annotations pr kvs path)
     (\<forall>k \<in> set [''title'', ''description'']. has_key kvs k \<and> \<not> is_str (get_or_none kvs k) \<longrightarrow> False)"
    unfolding issue_annotations_def by (intro checks_intros)
  then show ?thesis
    unfolding string_members_def has_key_jmap is_str_get by (elim checks_iff) fastforce
qed

lemma valid_type_jmap:
  "valid_type kvs \<longleftrightarrow> (\<exists>t \<in> set JSON_TYPES. jmap kvs (ascii ''type'') = Some (JStr t))"
  unfolding valid_type_def schema_type_of_def get_or_none_str [symmetric]
  by (auto split: pyval.splits)

lemma type_among_jmap:
  "type_among kvs ts \<longleftrightarrow> (\<exists>t \<in> set ts. jmap kvs (ascii ''type'') = Some (JStr (ascii t)))"
  unfolding type_among_def schema_type_of_def get_or_none_str [symmetric]
  by (auto split: pyval.splits)

lemma issue_type_checks: "checks MAX_ERRORS (issue_type pr kvs path) (valid_type kvs)"
proof -
  have "checks MAX_ERRORS (issue_type pr kvs path) (\<not> valid_type kvs \<longrightarrow> False)"
    unfolding issue_type_def by (intro checks_intros)
  then show ?thesis by simp
qed

definition group_members :: "(ustring \<Rightarrow> jval option) \<Rightarrow> bool" where
  "group_members m \<longleftrightarrow>
     (\<forall>(ks, ts, label) \<in> set keyword_groups.
        (\<exists>k \<in> set ks. m (ascii k) \<noteq> None) \<longrightarrow>
        (\<exists>t \<in> set ts. m (ascii ''type'') = Some (JStr (ascii t))))"

lemma issue_groups_checks:
  "checks MAX_ERRORS (issue_groups pr kvs path) (group_members (jmap kvs))"
proof -
  have "checks MAX_ERRORS (issue_groups pr kvs path)
     (\<forall>g \<in> set keyword_groups. list_ex (has_key kvs) (fst g) \<and> \<not> type_among kvs (fst (snd g)) \<longrightarrow> False)"
    unfolding issue_groups_def case_prod_beta by (intro checks_intros)
  then show ?thesis
    unfolding group_members_def type_among_jmap list_ex_iff has_key_jmap case_prod_beta
    by (elim checks_iff) blast
qed

lemma equal_pair_iff:
  assumes "\<forall>v \<in> set vs. proper v"
  shows "equal_pair vs \<longleftrightarrow> \<not> distinct (map denote vs)"
  using assms
  by (induction vs) (auto simp: list_ex_iff proper_def json_equal_iff_denote)

lemma enum_items_jmap:
  "jmap kvs (ascii ''enum'') = Some (JArr js) \<longleftrightarrow>
     get_or_none kvs ''enum'' = VList (enum_items kvs) \<and> js = map denote (enum_items kvs)"
  by (auto simp: get_or_none_def jmap_def enum_items_def denote_shapes split: option.splits)


lemma enum_items_proper:
  assumes "wf_val (VDict kvs)" and "nan_free (VDict kvs)"
  shows "\<forall>v \<in> set (enum_items kvs). proper v"
proof
  fix v
  assume "v \<in> set (enum_items kvs)"
  then obtain xs where "dict_get kvs (ascii ''enum'') = Some (VList xs)" "v \<in> set xs"
    by (auto simp: enum_items_def get_or_none_def split: option.splits pyval.splits)
  with assms show "proper v"
    by (auto simp: proper_def list_all_iff dest!: map_of_SomeD)
qed

text \<open>\<open>not isinstance(enum, list) or not enum\<close>, read on the denotation.\<close>

lemma enum_member_iff:
  "(has_key kvs ''enum'' \<longrightarrow> enum_items kvs \<noteq> [] \<and> P (map denote (enum_items kvs))) \<longleftrightarrow>
   (\<forall>v. jmap kvs (ascii ''enum'') = Some v \<longrightarrow> (\<exists>vs. v = JArr vs \<and> vs \<noteq> [] \<and> P vs))"
proof (cases "jmap kvs (ascii ''enum'')")
  case None
  then show ?thesis by (simp add: has_key_jmap)
next
  case (Some v)
  have "enum_items kvs \<noteq> [] \<longleftrightarrow> (\<exists>vs. v = JArr vs \<and> vs \<noteq> [])"
    using Some by (auto simp: enum_items_def get_or_none_def jmap_def denote_shapes num_denote_shape
        split: pyval.splits)
  moreover have "vs = map denote (enum_items kvs)" if "v = JArr vs" for vs
    using Some that by (simp add: enum_items_jmap)
  ultimately show ?thesis using Some by (auto simp: has_key_jmap)
qed

lemma issue_values_checks:
  assumes wf: "wf_val (VDict kvs)" "nan_free (VDict kvs)"
    and t: "jmap kvs (ascii ''type'') = Some (JStr t)" "t \<in> set JSON_TYPES"
  shows "checks MAX_ERRORS (perform [issue_enum pr kvs path, issue_const pr kvs path])
           (allowed_values t (jmap kvs))"
proof -
  have type: "schema_type_of kvs = VStr t" "valid_type kvs"
    using t by (auto simp: schema_type_of_def get_or_none_str valid_type_jmap)
  let ?items = "enum_items kvs"
  let ?bad = "\<lambda>v. \<not> matches_type v (str_of (schema_type_of kvs))"
  let ?enum = "if ?items = [] then False else if length ?items > MAX_ENUM_ITEMS then False
    else if equal_pair ?items then False else (valid_type kvs \<and> list_ex ?bad ?items \<longrightarrow> False)"
  let ?const = "(has_key kvs ''const'' \<and> valid_type kvs \<longrightarrow>
        (?bad (get_or_none kvs ''const'') \<longrightarrow> False)) \<and>
      (has_key kvs ''enum'' \<and> has_key kvs ''const'' \<longrightarrow> False) \<and> True"
  have "checks MAX_ERRORS (issue_enum pr kvs path) (has_key kvs ''enum'' \<longrightarrow> ?enum)"
    unfolding issue_enum_def by (intro checks_intros)
  moreover have "checks MAX_ERRORS (issue_const pr kvs path) ?const"
    unfolding issue_const_def by (intro checks_intros)
  ultimately have "checks MAX_ERRORS (perform [issue_enum pr kvs path, issue_const pr kvs path])
      ((has_key kvs ''enum'' \<longrightarrow> ?enum) \<and> ?const \<and> True)"
    by (intro checks_perform_Cons checks_perform_Nil)
  then show ?thesis
  proof (elim checks_iff)
    have "has_key kvs ''const'' \<and> jtype_holds t (denote (get_or_none kvs ''const'')) \<longleftrightarrow>
        (\<exists>v. jmap kvs (ascii ''const'') = Some v \<and> jtype_holds t v)"
      unfolding value_of_member by auto
    then show "((has_key kvs ''enum'' \<longrightarrow> ?enum) \<and> ?const \<and> True) = allowed_values t (jmap kvs)"
      unfolding allowed_values_def type str_of.simps matches_type_denote [OF t(2)] list_ex_iff
        equal_pair_iff [OF enum_items_proper [OF wf]]
        enum_member_iff [of kvs "\<lambda>vs. length vs \<le> MAX_ENUM_ITEMS \<and> distinct vs \<and>
          (\<forall>w \<in> set vs. jtype_holds t w)", symmetric]
      using type(2) by (auto simp: has_key_jmap not_less)
  qed
qed

lemma issue_numeric_checks:
  "checks MAX_ERRORS (issue_numeric pr kvs path) (number_limits (jmap kvs) ''minimum'' ''maximum'')"
proof -
  have "checks MAX_ERRORS (issue_numeric pr kvs path)
     ((\<forall>k \<in> set [''minimum'', ''maximum''].
         has_key kvs k \<and> \<not> is_number_value (get_or_none kvs k) \<longrightarrow> False) \<and>
      (is_number_value (get_or_none kvs ''minimum'') \<and> is_number_value (get_or_none kvs ''maximum'') \<longrightarrow>
        (num_greater (get_or_none kvs ''minimum'') (get_or_none kvs ''maximum'') \<longrightarrow> False)) \<and> True)"
    unfolding issue_numeric_def by (intro checks_intros)
  moreover have "is_number_value (get_or_none kvs k) \<longleftrightarrow> (\<exists>q. jmap kvs (ascii k) = Some (JNum q))" for k
    by (cases "jmap kvs (ascii k)") (simp_all add: is_number_denote get_or_none_denote)
  moreover have "num_greater (get_or_none kvs low) (get_or_none kvs high) \<longleftrightarrow> b < a"
    if "jmap kvs (ascii low) = Some (JNum a)" "jmap kvs (ascii high) = Some (JNum b)" for a b low high
    using that by (intro num_greater_denote) (simp_all add: get_or_none_denote)
  ultimately show ?thesis
    unfolding number_limits_def has_key_jmap
    by (elim checks_iff) (fastforce simp: not_less)
qed

lemma issue_string_checks:
  "checks MAX_ERRORS (issue_string pr kvs path)
     (count_limits (jmap kvs) ''minLength'' ''maxLength'' \<and>
      (\<forall>v. jmap kvs (ascii ''pattern'') = Some v \<longrightarrow>
         v \<in> {JStr IDENTIFIER_PATTERN, JStr CONTROL_SAFE_PATTERN}))"
proof -
  have "checks MAX_ERRORS (issue_string pr kvs path)
     (count_limits (jmap kvs) ''minLength'' ''maxLength'' \<and>
      (has_key kvs ''pattern'' \<longrightarrow>
        (if \<not> is_str (get_or_none kvs ''pattern'') then False
         else (\<not> dict_has AUDITED_PATTERN_MATCHERS (str_of (get_or_none kvs ''pattern'')) \<longrightarrow> False))) \<and>
      True)"
    unfolding issue_string_def by (intro checks_intros issue_bounds_checks)
  then show ?thesis
  proof (elim checks_iff)
    have audited: "dict_has AUDITED_PATTERN_MATCHERS s \<longleftrightarrow> s \<in> {IDENTIFIER_PATTERN, CONTROL_SAFE_PATTERN}"
      for s by (simp add: dict_has_def AUDITED_PATTERN_MATCHERS_def)
    have "is_str v \<and> dict_has AUDITED_PATTERN_MATCHERS (str_of v) \<longleftrightarrow>
        denote v \<in> {JStr IDENTIFIER_PATTERN, JStr CONTROL_SAFE_PATTERN}" for v
      unfolding audited by (cases v) (auto simp: denote_shapes num_denote_shape)
    then show "(count_limits (jmap kvs) ''minLength'' ''maxLength'' \<and>
      (has_key kvs ''pattern'' \<longrightarrow>
        (if \<not> is_str (get_or_none kvs ''pattern'') then False
         else (\<not> dict_has AUDITED_PATTERN_MATCHERS (str_of (get_or_none kvs ''pattern'')) \<longrightarrow> False))) \<and>
      True) = (count_limits (jmap kvs) ''minLength'' ''maxLength'' \<and>
      (\<forall>v. jmap kvs (ascii ''pattern'') = Some v \<longrightarrow>
         v \<in> {JStr IDENTIFIER_PATTERN, JStr CONTROL_SAFE_PATTERN}))"
      unfolding value_of_member by metis
  qed
qed


definition object_members :: "(jval \<Rightarrow> bool) \<Rightarrow> (ustring \<Rightarrow> jval option) \<Rightarrow> bool" where
  "object_members P m \<longleftrightarrow>
     (\<exists>ps names. m (ascii ''properties'') = Some (JObj ps) \<and>
        m (ascii ''required'') = Some (JArr (map JStr names)) \<and>
        m (ascii ''additionalProperties'') = Some (JBool False) \<and>
        distinct names \<and> set names \<subseteq> dom ps \<and> (\<forall>name child. ps name = Some child \<longrightarrow> P child))"

lemma required_jmap:
  "jmap kvs (ascii ''required'') = Some (JArr (map JStr names)) \<longleftrightarrow>
     string_array (get_or_none kvs ''required'') \<and> schema_required kvs = names"
proof -
  have "map denote xs = map JStr names \<longleftrightarrow> list_all is_str xs \<and> map str_of xs = names" for xs
  proof (induction xs arbitrary: names)
    case (Cons x xs)
    then show ?case by (cases names; cases x) (auto simp: num_denote_shape)
  qed auto
  note items = this
  show ?thesis
  proof (cases "dict_get kvs (ascii ''required'')")
    case None
    then show ?thesis by (simp add: get_or_none_def jmap_def string_array_def)
  next
    case (Some v)
    then have "jmap kvs (ascii ''required'') = Some (denote v)" by (simp add: jmap_def)
    with Some items show ?thesis
      by (cases v) (simp_all add: schema_required_def string_array_def get_or_none_def
          num_denote_shape cong: conj_cong)
  qed
qed

lemma properties_jmap:
  "jmap kvs (ascii ''properties'') = Some (JObj ps) \<longleftrightarrow>
     is_dict (get_or_none kvs ''properties'') \<and> ps = jmap (schema_properties kvs)"
proof (cases "dict_get kvs (ascii ''properties'')")
  case None
  then show ?thesis by (simp add: get_or_none_def jmap_def)
next
  case (Some v)
  then have "jmap kvs (ascii ''properties'') = Some (denote v)" by (simp add: jmap_def)
  with Some show ?thesis
    by (cases v) (auto simp: schema_properties_def get_or_none_def denote_VDict num_denote_shape
        simp del: denote.simps(8))
qed

lemma issue_object_checks:
  assumes keys: "distinct (dict_keys (schema_properties kvs))"
    and walk: "\<And>name child. (name, child) \<in> set (schema_properties kvs) \<Longrightarrow>
      checks MAX_ERRORS (walk name child) (P (denote child))"
  shows "checks MAX_ERRORS
     (perform [issue_object_head pr kvs path,
        fold (\<lambda>(name, child). walk name child) (schema_properties kvs),
        issue_object_tail pr kvs path])
     (object_members P (jmap kvs))"
proof -
  let ?ps = "schema_properties kvs" and ?names = "schema_required kvs"
  have "checks MAX_ERRORS (fold (\<lambda>(name, child). walk name child) ?ps)
      (\<forall>p \<in> set ?ps. P (denote (snd p)))"
    by (rule checks_fold) (use walk in \<open>auto simp: case_prod_beta\<close>)
  moreover have "checks MAX_ERRORS (issue_object_head pr kvs path)
     ((\<not> is_dict (get_or_none kvs ''properties'') \<longrightarrow> False) \<and>
      (if \<not> string_array (get_or_none kvs ''required'') then False
       else (length ?names \<noteq> card (set ?names) \<longrightarrow> False)) \<and>
      (get_or_none kvs ''additionalProperties'' \<noteq> VBool False \<longrightarrow> False) \<and> True)"
    unfolding issue_object_head_def by (intro checks_intros)
  moreover have "checks MAX_ERRORS (issue_object_tail pr kvs path)
     (list_ex (\<lambda>name. \<not> dict_has ?ps name) ?names \<longrightarrow> False)"
    unfolding issue_object_tail_def by (intro checks_intros)
  ultimately have "checks MAX_ERRORS
     (perform [issue_object_head pr kvs path,
        fold (\<lambda>(name, child). walk name child) ?ps, issue_object_tail pr kvs path])
     (((\<not> is_dict (get_or_none kvs ''properties'') \<longrightarrow> False) \<and>
      (if \<not> string_array (get_or_none kvs ''required'') then False
       else (length ?names \<noteq> card (set ?names) \<longrightarrow> False)) \<and>
      (get_or_none kvs ''additionalProperties'' \<noteq> VBool False \<longrightarrow> False) \<and> True) \<and>
      (\<forall>p \<in> set ?ps. P (denote (snd p))) \<and>
      (list_ex (\<lambda>name. \<not> dict_has ?ps name) ?names \<longrightarrow> False) \<and> True)"
    by (intro checks_perform_Cons checks_perform_Nil)
  moreover have "jmap kvs (ascii ''additionalProperties'') = Some (JBool False) \<longleftrightarrow>
      get_or_none kvs ''additionalProperties'' = VBool False"
    by (auto simp: get_or_none_def jmap_def denote_shapes split: option.splits)
  moreover have "length ?names = card (set ?names) \<longleftrightarrow> distinct ?names"
    by (metis card_distinct distinct_card)
  moreover have "(\<forall>name child. jmap ?ps name = Some child \<longrightarrow> P child) \<longleftrightarrow>
      (\<forall>p \<in> set ?ps. P (denote (snd p)))"
    using keys by (fastforce simp: jmap_def dest: map_of_SomeD)
  moreover have "set ?names \<subseteq> dom (jmap ?ps) \<longleftrightarrow> \<not> list_ex (\<lambda>name. \<not> dict_has ?ps name) ?names"
    by (auto simp: list_ex_iff dict_has_def simp flip: keys_jmap)
  ultimately show ?thesis
    by (elim checks_iff) (auto simp: object_members_def properties_jmap required_jmap)
qed

lemma issue_array_checks:
  assumes walk: "\<And>item. dict_get kvs (ascii ''items'') = Some item \<Longrightarrow>
      checks MAX_ERRORS (walk item) (P (denote item))"
  shows "checks MAX_ERRORS
     (perform [(case dict_get kvs (ascii ''items'') of
          None \<Rightarrow> add_issue pr m | Some item \<Rightarrow> walk item),
        issue_bounds pr kvs path ''minItems'' ''maxItems''])
     ((\<exists>item. jmap kvs (ascii ''items'') = Some item \<and> P item) \<and>
      count_limits (jmap kvs) ''minItems'' ''maxItems'')"
proof -
  have "checks MAX_ERRORS (case dict_get kvs (ascii ''items'') of
      None \<Rightarrow> add_issue pr m | Some item \<Rightarrow> walk item)
      (\<exists>item. jmap kvs (ascii ''items'') = Some item \<and> P item)"
  proof (cases "dict_get kvs (ascii ''items'')")
    case None
    then show ?thesis using issue_checks by (simp add: jmap_def)
  next
    case (Some item)
    then show ?thesis using walk by (simp add: jmap_def)
  qed
  then have "checks MAX_ERRORS
     (perform [(case dict_get kvs (ascii ''items'') of
          None \<Rightarrow> add_issue pr m | Some item \<Rightarrow> walk item),
        issue_bounds pr kvs path ''minItems'' ''maxItems''])
     ((\<exists>item. jmap kvs (ascii ''items'') = Some item \<and> P item) \<and>
      count_limits (jmap kvs) ''minItems'' ''maxItems'' \<and> True)"
    by (intro checks_perform_Cons checks_perform_Nil issue_bounds_checks)
  then show ?thesis by simp
qed


subsection \<open>The whole walk\<close>

text \<open>The members a node of each type may have besides the base ones.\<close>

definition type_keywords :: "(string \<times> string list) list" where
  "type_keywords =
     [(''object'', [''properties'', ''required'', ''additionalProperties'']),
      (''array'', [''items'', ''minItems'', ''maxItems'']),
      (''string'', [''minLength'', ''maxLength'', ''pattern'']),
      (''integer'', [''minimum'', ''maximum'']),
      (''number'', [''minimum'', ''maximum'']),
      (''boolean'', []),
      (''null'', [])]"

lemma type_keywords_cases:
  "(t, extra) \<in> set type_keywords \<Longrightarrow>
     t = ''object'' \<and> extra = [''properties'', ''required'', ''additionalProperties''] \<or>
     t = ''array'' \<and> extra = [''items'', ''minItems'', ''maxItems''] \<or>
     t = ''string'' \<and> extra = [''minLength'', ''maxLength'', ''pattern''] \<or>
     t \<in> {''integer'', ''number''} \<and> extra = [''minimum'', ''maximum''] \<or>
     t \<in> {''boolean'', ''null''} \<and> extra = []"
  by (simp only: type_keywords_def list.set insert_iff empty_iff prod.inject) (elim disjE conjE; simp only: simp_thms)

lemma base_keywords_True:
  "s \<in> set (base_keywords True) \<longleftrightarrow> s \<in> set (base_keywords False) \<or> s = ''$schema'' \<or> s = ''$id''"
  unfolding base_keywords_def
  by (simp only: if_True if_False set_append append_Nil2 Un_iff list.set insert_iff empty_iff simp_thms)

lemma remove_two:
  "a \<notin> X \<Longrightarrow> b \<notin> X \<Longrightarrow> (\<And>x. x \<in> Y \<longleftrightarrow> x \<in> X \<or> x = a \<or> x = b) \<Longrightarrow>
     x \<in> X \<longleftrightarrow> x \<in> Y \<and> x \<noteq> a \<and> x \<noteq> b"
  by blast

lemma base_keywords_root:
  "s \<in> set (base_keywords is_root) \<longleftrightarrow>
     s \<in> set (base_keywords True) \<and> (\<not> is_root \<longrightarrow> s \<noteq> ''$schema'' \<and> s \<noteq> ''$id'')"
proof (cases is_root)
  case False
  have "''$schema'' \<notin> set (base_keywords False)" "''$id'' \<notin> set (base_keywords False)" by code_simp+
  then have "s \<in> set (base_keywords False) \<longleftrightarrow>
      s \<in> set (base_keywords True) \<and> s \<noteq> ''$schema'' \<and> s \<noteq> ''$id''"
    by (rule remove_two [OF _ _ base_keywords_True])
  with False show ?thesis by simp
qed simp

lemma SUPPORTED_KEYWORDS_split:
  "set SUPPORTED_KEYWORDS =
     ascii ` (set (base_keywords True) \<union> (\<Union>g \<in> set keyword_groups. set (fst g)))"
proof -
  have "\<forall>k \<in> set SUPPORTED_KEYWORDS. k \<in> set (map ascii (base_keywords True @ concat (map fst keyword_groups)))"
    by code_simp
  moreover have "\<forall>k \<in> set (map ascii (base_keywords True @ concat (map fst keyword_groups))). k \<in> set SUPPORTED_KEYWORDS"
    by code_simp
  ultimately have "set SUPPORTED_KEYWORDS = set (map ascii (base_keywords True @ concat (map fst keyword_groups)))" by blast
  then show ?thesis by (simp add: image_Un)
qed

text \<open>The keyword groups are the extra members of the types they allow, and no others.\<close>

lemma groups_match_types:
  "\<forall>g \<in> set keyword_groups. \<forall>te \<in> set type_keywords.
     (fst te \<in> set (fst (snd g)) \<longrightarrow> snd te = fst g) \<and>
     (\<forall>k \<in> set (fst g). k \<notin> set (base_keywords True) \<and>
        (k \<in> set (snd te) \<longrightarrow> fst te \<in> set (fst (snd g))))"
  by code_simp

lemma type_keywords_distinct: "distinct (map fst type_keywords)"
  by code_simp

lemma type_keywords_members:
  "(''object'', [''properties'', ''required'', ''additionalProperties'']) \<in> set type_keywords"
  "(''array'', [''items'', ''minItems'', ''maxItems'']) \<in> set type_keywords"
  "(''string'', [''minLength'', ''maxLength'', ''pattern'']) \<in> set type_keywords"
  "(''integer'', [''minimum'', ''maximum'']) \<in> set type_keywords"
  "(''number'', [''minimum'', ''maximum'']) \<in> set type_keywords"
  "(''boolean'', []) \<in> set type_keywords"
  "(''null'', []) \<in> set type_keywords"
  by code_simp+

lemma extra_supported:
  "\<forall>te \<in> set type_keywords. (\<forall>k \<in> set (map ascii (snd te)). k \<in> set SUPPORTED_KEYWORDS) \<and>
     ''$schema'' \<notin> set (snd te) \<and> ''$id'' \<notin> set (snd te)"
  by code_simp

lemma ascii_image_iff: "ascii s \<in> ascii ` X \<longleftrightarrow> s \<in> X"
  by auto

lemma allowed_members_iff:
  assumes t: "(t, extra) \<in> set type_keywords" "m (ascii ''type'') = Some (JStr (ascii t))"
  shows "dom m \<subseteq> set SUPPORTED_KEYWORDS \<and> group_members m \<and>
      (\<not> is_root \<longrightarrow> m (ascii ''$schema'') = None \<and> m (ascii ''$id'') = None) \<longleftrightarrow>
    dom m \<subseteq> ascii ` set (base_keywords is_root @ extra)" (is "?old \<longleftrightarrow> ?new")
proof
  assume old: ?old
  show ?new
  proof
    fix k
    assume k: "k \<in> dom m"
    with old obtain s where s: "k = ascii s"
      "s \<in> set (base_keywords True) \<or> (\<exists>g \<in> set keyword_groups. s \<in> set (fst g))"
      unfolding SUPPORTED_KEYWORDS_split by blast
    from s(2) have "s \<in> set (base_keywords is_root @ extra)"
    proof
      assume "s \<in> set (base_keywords True)"
      with old k s(1) show ?thesis
        by (metis Un_iff base_keywords_root domIff set_append)
    next
      assume "\<exists>g \<in> set keyword_groups. s \<in> set (fst g)"
      then obtain g where g: "g \<in> set keyword_groups" "s \<in> set (fst g)" by blast
      then have "t \<in> set (fst (snd g))"
        using old k s(1) t(2) by (fastforce simp: group_members_def)
      then have "extra = fst g" using groups_match_types g(1) t(1) by fastforce
      with g(2) show ?thesis by simp
    qed
    then show "k \<in> ascii ` set (base_keywords is_root @ extra)" using s(1) by blast
  qed
next
  assume new: ?new
  have "ascii ` set (base_keywords is_root) \<subseteq> set SUPPORTED_KEYWORDS"
    unfolding SUPPORTED_KEYWORDS_split
    using base_keywords_root by blast
  then have "ascii ` set (base_keywords is_root @ extra) \<subseteq> set SUPPORTED_KEYWORDS"
    using t(1) extra_supported by fastforce
  moreover have present: "s \<in> set (base_keywords is_root @ extra)" if "m (ascii s) \<noteq> None" for s
    using that new ascii_image_iff by blast
  have "group_members m"
    unfolding group_members_def
  proof (intro ballI, clarify)
    fix ks ts label k v
    assume g: "(ks, ts, label) \<in> set keyword_groups" "k \<in> set ks" "m (ascii k) = Some v"
    then have "k \<in> set (base_keywords is_root) \<or> k \<in> set extra" using present [of k] by auto
    then have "t \<in> set ts"
      using groups_match_types g(1,2) t(1) base_keywords_root [of k is_root] by fastforce
    with t(2) show "\<exists>t \<in> set ts. m (ascii ''type'') = Some (JStr (ascii t))" by blast
  qed
  moreover have "m (ascii ''$schema'') = None \<and> m (ascii ''$id'') = None" if "\<not> is_root"
  proof -
    have "''$schema'' \<notin> set (base_keywords is_root @ extra)"
      "''$id'' \<notin> set (base_keywords is_root @ extra)"
      using that bspec [OF extra_supported t(1)] base_keywords_root [of "''$schema''" is_root]
        base_keywords_root [of "''$id''" is_root] by simp_all
    with present show ?thesis by blast
  qed
  ultimately show ?old using new by blast
qed

lemma node_head_iff:
  assumes "(t, extra) \<in> set type_keywords" and "m (ascii ''type'') = Some (JStr (ascii t))"
  shows "node_head is_root t extra m \<longleftrightarrow>
    dom m \<subseteq> set SUPPORTED_KEYWORDS \<and> root_members is_root m \<and>
    string_members [''title'', ''description''] m \<and> group_members m \<and> allowed_values (ascii t) m"
  unfolding node_head_def
    allowed_members_iff [where t = t and extra = extra and m = m and is_root = is_root, OF assms, symmetric]
  using assms(2) by (auto simp: root_members_def string_members_def)

definition body_members :: "(jval \<Rightarrow> bool) \<Rightarrow> (ustring \<Rightarrow> jval option) \<Rightarrow> bool" where
  "body_members P m \<longleftrightarrow>
     (if m (ascii ''type'') = Some (JStr (ascii ''object'')) then object_members P m
      else if m (ascii ''type'') = Some (JStr (ascii ''array'')) then
        (\<exists>item. m (ascii ''items'') = Some item \<and> P item) \<and> count_limits m ''minItems'' ''maxItems''
      else if m (ascii ''type'') = Some (JStr (ascii ''string'')) then
        count_limits m ''minLength'' ''maxLength'' \<and>
        (\<forall>v. m (ascii ''pattern'') = Some v \<longrightarrow> v \<in> {JStr IDENTIFIER_PATTERN, JStr CONTROL_SAFE_PATTERN})
      else if \<exists>t \<in> set [''integer'', ''number'']. m (ascii ''type'') = Some (JStr (ascii t)) then
        number_limits m ''minimum'' ''maximum''
      else True)"

lemma node_decompose:
  assumes "schema_profile is_root depth (JObj m)"
  shows "\<exists>t extra. node_head is_root t extra m \<and> (t, extra) \<in> set type_keywords \<and>
     body_members (schema_profile False (depth + 1)) m"
  using assms
proof (cases rule: schema_profile.cases)
  case (object_node ps names)
  then have "object_members (schema_profile False (depth + 1)) m"
    unfolding object_members_def by blast
  moreover have "m (ascii ''type'') = Some (JStr (ascii ''object''))"
    using object_node by (simp add: node_head_def)
  ultimately have "body_members (schema_profile False (depth + 1)) m"
    by (simp add: body_members_def)
  with object_node show ?thesis using type_keywords_members(1) by blast
next
  case array_node
  then have "body_members (schema_profile False (depth + 1)) m"
    by (simp add: body_members_def node_head_def)
  with array_node show ?thesis using type_keywords_members(2) by blast
next
  case string_node
  then have "body_members (schema_profile False (depth + 1)) m"
    by (simp add: body_members_def node_head_def)
  with string_node show ?thesis using type_keywords_members(3) by blast
next
  case numeric_node
  then have "body_members (schema_profile False (depth + 1)) m"
    by (auto simp: body_members_def node_head_def)
  with numeric_node show ?thesis using type_keywords_members(4,5) by blast
next
  case plain_node
  then have "body_members (schema_profile False (depth + 1)) m"
    by (auto simp: body_members_def node_head_def)
  with plain_node show ?thesis using type_keywords_members(6,7) by blast
qed

lemma schema_profile_iff:
  assumes "depth \<le> MAX_NESTING_DEPTH" and "(t, extra) \<in> set type_keywords"
    and "m (ascii ''type'') = Some (JStr (ascii t))"
  shows "schema_profile is_root depth (JObj m) \<longleftrightarrow>
    node_head is_root t extra m \<and> body_members (schema_profile False (depth + 1)) m"
proof
  assume "schema_profile is_root depth (JObj m)"
  then obtain t' extra' where t': "node_head is_root t' extra' m" "(t', extra') \<in> set type_keywords"
    and body: "body_members (schema_profile False (depth + 1)) m"
    using node_decompose by blast
  then have "t' = t" using assms(3) by (simp add: node_head_def)
  moreover have "extra' = extra"
    using t'(2) assms(2) \<open>t' = t\<close> by (metis type_keywords_distinct eq_key_imp_eq_value)
  ultimately show "node_head is_root t extra m \<and> body_members (schema_profile False (depth + 1)) m"
    using t'(1) body by simp
next
  assume nb: "node_head is_root t extra m \<and> body_members (schema_profile False (depth + 1)) m"
  from type_keywords_cases [OF assms(2)] show "schema_profile is_root depth (JObj m)"
  proof (elim disjE conjE)
    assume "t = ''object''" "extra = [''properties'', ''required'', ''additionalProperties'']"
    with nb assms show ?thesis
      by (auto simp: body_members_def object_members_def intro: object_node)
  next
    assume "t = ''array''" "extra = [''items'', ''minItems'', ''maxItems'']"
    with nb assms show ?thesis by (auto simp: body_members_def intro: array_node)
  next
    assume "t = ''string''" "extra = [''minLength'', ''maxLength'', ''pattern'']"
    with nb assms show ?thesis by (intro string_node) (auto simp: body_members_def)
  next
    assume t: "t \<in> {''integer'', ''number''}" "extra = [''minimum'', ''maximum'']"
    then have "number_limits m ''minimum'' ''maximum''"
      using nb assms(3) by (auto simp: body_members_def)
    with t nb assms(1) show ?thesis by (intro numeric_node) auto
  next
    assume "t \<in> {''boolean'', ''null''}" "extra = []"
    with nb assms show ?thesis by (intro plain_node) auto
  qed
qed


lemma issue_values_some: "\<exists>Q. checks MAX_ERRORS (perform [issue_enum pr kvs path, issue_const pr kvs path]) Q"
  unfolding issue_enum_def issue_const_def by (rule exI, (rule checks_intros)+)

lemma type_in_table:
  "t \<in> set JSON_TYPES \<longleftrightarrow> (\<exists>s extra. t = ascii s \<and> (s, extra) \<in> set type_keywords)"
proof -
  have eq: "JSON_TYPES = map ascii (map fst type_keywords)"
    by (simp add: JSON_TYPES_def type_keywords_def)
  show ?thesis unfolding eq set_map by (force simp: image_iff)
qed

lemma node_checks:
  assumes wf: "wf_val (VDict kvs)" "nan_free (VDict kvs)" and depth: "depth \<le> MAX_NESTING_DEPTH"
    and body: "checks MAX_ERRORS body (body_members (schema_profile False (depth + 1)) (jmap kvs))"
  shows "checks MAX_ERRORS
     (perform [issue_keywords pr kvs path, issue_root pr kvs path is_root,
        issue_annotations pr kvs path, issue_type pr kvs path, issue_groups pr kvs path, body,
        issue_enum pr kvs path, issue_const pr kvs path])
     (schema_profile is_root depth (denote (VDict kvs)))"
proof -
  have head: "checks MAX_ERRORS
     (perform [issue_keywords pr kvs path, issue_root pr kvs path is_root,
        issue_annotations pr kvs path, issue_type pr kvs path, issue_groups pr kvs path, body])
     (dom (jmap kvs) \<subseteq> set SUPPORTED_KEYWORDS \<and> root_members is_root (jmap kvs) \<and>
      string_members [''title'', ''description''] (jmap kvs) \<and> valid_type kvs \<and>
      group_members (jmap kvs) \<and> body_members (schema_profile False (depth + 1)) (jmap kvs) \<and> True)"
    by (intro checks_perform_Cons checks_perform_Nil issue_keywords_checks issue_root_checks
        issue_annotations_checks issue_type_checks issue_groups_checks body)
  show ?thesis
  proof (cases "valid_type kvs")
    case True
    then obtain t extra where t: "(t, extra) \<in> set type_keywords"
      "jmap kvs (ascii ''type'') = Some (JStr (ascii t))"
      by (auto simp: valid_type_jmap type_in_table)
    then have "ascii t \<in> set JSON_TYPES" using type_in_table by blast
    then have vals: "checks MAX_ERRORS (perform [issue_enum pr kvs path, issue_const pr kvs path])
        (allowed_values (ascii t) (jmap kvs))"
      by (rule issue_values_checks [OF wf t(2)])
    have "schema_profile is_root depth (denote (VDict kvs)) \<longleftrightarrow>
        node_head is_root t extra (jmap kvs) \<and>
        body_members (schema_profile False (depth + 1)) (jmap kvs)"
      unfolding denote_VDict using depth t by (rule schema_profile_iff)
    also have "node_head is_root t extra (jmap kvs) \<longleftrightarrow>
        dom (jmap kvs) \<subseteq> set SUPPORTED_KEYWORDS \<and> root_members is_root (jmap kvs) \<and>
        string_members [''title'', ''description''] (jmap kvs) \<and> group_members (jmap kvs) \<and>
        allowed_values (ascii t) (jmap kvs)"
      using t by (rule node_head_iff)
    finally have iff: "(dom (jmap kvs) \<subseteq> set SUPPORTED_KEYWORDS \<and> root_members is_root (jmap kvs) \<and>
        string_members [''title'', ''description''] (jmap kvs) \<and> valid_type kvs \<and>
        group_members (jmap kvs) \<and> body_members (schema_profile False (depth + 1)) (jmap kvs) \<and>
        True) \<and> allowed_values (ascii t) (jmap kvs) \<longleftrightarrow>
        schema_profile is_root depth (denote (VDict kvs))"
      using True by blast
    show ?thesis
      using checks_iff [OF checks_perform_append [OF head vals] iff] by simp
  next
    case False
    have "\<not> schema_profile is_root depth (JObj (jmap kvs))"
    proof
      assume "schema_profile is_root depth (JObj (jmap kvs))"
      then obtain t extra where "(t, extra) \<in> set type_keywords"
        "jmap kvs (ascii ''type'') = Some (JStr (ascii t))"
        using node_decompose by (metis node_head_def)
      with False show False using type_in_table valid_type_jmap by blast
    qed
    then have none: "\<not> schema_profile is_root depth (denote (VDict kvs))"
      by (simp only: denote_VDict not_False_eq_True)
    obtain Q where "checks MAX_ERRORS (perform [issue_enum pr kvs path, issue_const pr kvs path]) Q"
      using issue_values_some by blast
    from checks_perform_append [OF head this] show ?thesis using False none by simp
  qed
qed

lemma schema_profile_object:
  "schema_profile is_root depth j \<Longrightarrow> depth \<le> MAX_NESTING_DEPTH \<and> (\<exists>m. j = JObj m)"
  by (erule schema_profile.cases) auto

lemma proper_member:
  "wf_val (VDict kvs) \<Longrightarrow> nan_free (VDict kvs) \<Longrightarrow> dict_get kvs k = Some v \<Longrightarrow> proper v"
  by (auto simp: proper_def list_all_iff dest!: map_of_SomeD)

lemma schema_properties_cases:
  "schema_properties kvs = [] \<or> dict_get kvs (ascii ''properties'') = Some (VDict (schema_properties kvs))"
  by (simp add: schema_properties_def split: option.split pyval.split)

lemma schema_properties_proper:
  assumes "wf_val (VDict kvs)" and "nan_free (VDict kvs)"
  shows "distinct (dict_keys (schema_properties kvs))"
    and "(name, child) \<in> set (schema_properties kvs) \<Longrightarrow> proper child"
proof -
  have "proper (VDict (schema_properties kvs))"
    using schema_properties_cases [of kvs]
  proof
    assume "schema_properties kvs = []"
    then show ?thesis by (simp add: proper_def)
  next
    assume "dict_get kvs (ascii ''properties'') = Some (VDict (schema_properties kvs))"
    with assms show ?thesis by (rule proper_member)
  qed
  then show "distinct (dict_keys (schema_properties kvs))"
    and "(name, child) \<in> set (schema_properties kvs) \<Longrightarrow> proper child"
    by (auto simp: proper_def list_all_iff)
qed

lemma body_checks:
  assumes keys: "distinct (dict_keys (schema_properties kvs))"
    and object: "\<And>name child. schema_type_of kvs = VStr (ascii ''object'') \<Longrightarrow>
      (name, child) \<in> set (schema_properties kvs) \<Longrightarrow>
      checks MAX_ERRORS (walk child (pointer_join path (Name name))) (P (denote child))"
    and array: "\<And>item. schema_type_of kvs \<noteq> VStr (ascii ''object'') \<Longrightarrow>
      schema_type_of kvs = VStr (ascii ''array'') \<Longrightarrow> dict_get kvs (ascii ''items'') = Some item \<Longrightarrow>
      checks MAX_ERRORS (walk item (pointer_join path (Name (ascii ''items'')))) (P (denote item))"
  shows "checks MAX_ERRORS
     (if schema_type_of kvs = VStr (ascii ''object'') then
         perform
           [issue_object_head pr kvs path,
            fold (\<lambda>(name, child). walk child (pointer_join path (Name name))) (schema_properties kvs),
            issue_object_tail pr kvs path]
       else if schema_type_of kvs = VStr (ascii ''array'') then
         perform
           [(case dict_get kvs (ascii ''items'') of
               None \<Rightarrow> add_issue pr (path, ascii ''array schemas require items'')
             | Some item \<Rightarrow> walk item (pointer_join path (Name (ascii ''items'')))),
            issue_bounds pr kvs path ''minItems'' ''maxItems'']
       else if schema_type_of kvs = VStr (ascii ''string'') then issue_string pr kvs path
       else if type_among kvs [''integer'', ''number''] then issue_numeric pr kvs path
       else id)
     (body_members P (jmap kvs))"
  unfolding body_members_def get_or_none_str [symmetric] type_among_jmap
    schema_type_of_def [symmetric]
  by (intro checks_if checks_id issue_string_checks issue_numeric_checks
      issue_object_checks [where walk = "\<lambda>name child. walk child (pointer_join path (Name name))"]
      issue_array_checks keys object array)
    assumption+

lemma walk_checks:
  "proper node \<Longrightarrow> checks MAX_ERRORS (schema_walk pr node path is_root depth)
     (schema_profile is_root depth (denote node))"
proof (induction pr node path is_root depth rule: schema_walk.induct)
  case (1 pr node path is_root depth)
  show ?case
  proof (cases "depth \<le> MAX_NESTING_DEPTH \<and> is_dict node")
    case False
    then have "\<not> schema_profile is_root depth (denote node)"
      using schema_profile_object denote_shapes(5) [of node] by (metis is_dict.simps(1))
    moreover have "schema_walk pr node path is_root depth = add_issue pr (path,
        if depth > MAX_NESTING_DEPTH then ascii ''schema exceeds the checker nesting limit''
        else ascii ''a schema node must be an object'')"
      using False by (subst schema_walk.simps) (cases node; simp)
    ultimately show ?thesis using issue_checks by simp
  next
    case True
    then obtain kvs where kvs: "node = VDict kvs" by (cases node) auto
    have depth: "\<not> MAX_NESTING_DEPTH < depth" using True by simp
    have wf: "wf_val (VDict kvs)" "nan_free (VDict kvs)"
      using "1.prems" kvs by (simp_all add: proper_def)
    have object: "checks MAX_ERRORS (schema_walk pr child (pointer_join path (Name name)) False (depth + 1))
        (schema_profile False (depth + 1) (denote child))"
      if "schema_type_of kvs = VStr (ascii ''object'')" "(name, child) \<in> set (schema_properties kvs)"
      for name child
      using depth kvs that schema_properties_proper(2) [OF wf that(2)] by (intro "1.IH"(1)) simp_all
    have array: "checks MAX_ERRORS
        (schema_walk pr item (pointer_join path (Name (ascii ''items''))) False (depth + 1))
        (schema_profile False (depth + 1) (denote item))"
      if "schema_type_of kvs \<noteq> VStr (ascii ''object'')" "schema_type_of kvs = VStr (ascii ''array'')"
        "dict_get kvs (ascii ''items'') = Some item" for item
      using depth kvs that proper_member [OF wf that(3)] by (intro "1.IH"(2)) simp_all
    show ?thesis
      unfolding kvs
      by (subst schema_walk.simps, simp only: depth if_False pyval.case,
          rule node_checks [OF wf True [THEN conjunct1]],
          rule body_checks [where walk = "\<lambda>child p. schema_walk pr child p False (depth + 1)"])
        (use schema_properties_proper(1) [OF wf] object array in blast)+
  qed
qed

lemma schema_issues_sound_complete:
  "proper s \<Longrightarrow> schema_issues pr s = [] \<longleftrightarrow> schema_profile True 0 (denote s)"
  unfolding schema_issues_def by (rule issue_log.checks_silent_iff) (rule walk_checks)

end
