(* ===== verification/SchemaOutput.thy ===== *)
theory SchemaOutput
  imports SchemaSpec
begin

text \<open>
  What the profile walk may print: at most fifty issues of at most five hundred characters, each
  of the form \<open>at <repr of a path>: <message>\<close>, and no control character in any of them, whatever
  the schema file holds.
\<close>

definition issue_line :: "ustring \<Rightarrow> bool" where
  "issue_line e \<longleftrightarrow> length e \<le> 500 \<and> plain_text e \<and> (\<exists>rest. e = ascii ''at '' @ rest)"

definition issue_lines :: "ustring list \<Rightarrow> bool" where
  "issue_lines issues \<longleftrightarrow> length issues \<le> MAX_ERRORS \<and> list_all issue_line issues"

lemma plain_text_at: "plain_text (ascii ''at '')" "plain_text (ascii '': '')"
  by (code_simp, code_simp)

lemma render_issue_line:
  assumes "printable_table pr" and "plain_text message"
  shows "issue_line (render_issue pr (path, message))"
proof -
  have "render_issue pr (path, message) =
      ascii ''at '' @ take 497 (py_repr pr (bounded_path path) @ ascii '': '' @ message)"
    by (simp add: render_issue_def del: append_assoc)
  moreover have "plain_text (take 497 (py_repr pr (bounded_path path) @ ascii '': '' @ message))"
    using assms by (intro plain_text_take) (simp add: plain_text_repr plain_text_at)
  ultimately show ?thesis
    unfolding issue_line_def by (auto simp: plain_text_at)
qed

lemma add_issue_keeps [keeps_intros]:
  assumes "printable_table pr" and "plain_text message"
  shows "keeps issue_lines (add_issue pr (path, message))"
  using render_issue_line [OF assms]
  by (auto simp: keeps_def issue_lines_def add_issue_def)

text \<open>The messages of the walk.\<close>

lemma issue_messages:
  "plain_text (ascii ''unsupported keyword '')"
  "plain_text (ascii ''$schema must be '')"
  "plain_text (ascii ''$id must be a non-empty string'')"
  "plain_text (ascii ''$schema and $id are root-only in this profile'')"
  "plain_text (ascii '' must be a string'')"
  "plain_text (ascii ''type must be one supported JSON type string'')"
  "plain_text (ascii '' keywords do not match type'')"
  "plain_text (ascii '' must be a non-negative integer'')"
  "plain_text (ascii '' must not exceed '')"
  "plain_text (ascii ''object schemas require a properties object'')"
  "plain_text (ascii ''object schemas require a required string array'')"
  "plain_text (ascii ''required entries must be unique'')"
  "plain_text (ascii ''object schemas require additionalProperties to be false'')"
  "plain_text (ascii ''every required entry must name a property'')"
  "plain_text (ascii ''pattern must be a string'')"
  "plain_text (ascii ''pattern must be an audited language-neutral expression'')"
  "plain_text (ascii '' must be a finite number'')"
  "plain_text (ascii ''minimum must not exceed maximum'')"
  "plain_text (ascii ''enum must be a non-empty array'')"
  "plain_text (ascii ''enum must contain at most '')"
  "plain_text (ascii '' entries'')"
  "plain_text (ascii ''enum entries must be unique'')"
  "plain_text (ascii ''enum entries must match type'')"
  "plain_text (ascii ''const must match type'')"
  "plain_text (ascii ''enum and const must not be combined in this profile'')"
  "plain_text (ascii ''array schemas require items'')"
  "plain_text (ascii ''schema exceeds the checker nesting limit'')"
  "plain_text (ascii ''a schema node must be an object'')"
  by (code_simp)+

lemma issue_names:
  "list_all (\<lambda>k. plain_text (ascii k)) [''title'', ''description'', ''minItems'', ''maxItems'',
     ''minLength'', ''maxLength'', ''minimum'', ''maximum'']"
  "list_all (\<lambda>g. plain_text (ascii (snd (snd g)))) keyword_groups"
  by (code_simp)+

lemma issue_blocks_keep:
  assumes pr: "printable_table pr"
  shows "keeps issue_lines (issue_keywords pr kvs path)"
    and "keeps issue_lines (issue_root pr kvs path is_root)"
    and "keeps issue_lines (issue_annotations pr kvs path)"
    and "keeps issue_lines (issue_type pr kvs path)"
    and "keeps issue_lines (issue_groups pr kvs path)"
    and "keeps issue_lines (issue_object_head pr kvs path)"
    and "keeps issue_lines (issue_object_tail pr kvs path)"
    and "keeps issue_lines (issue_bounds pr kvs path ''minItems'' ''maxItems'')"
    and "keeps issue_lines (issue_string pr kvs path)"
    and "keeps issue_lines (issue_numeric pr kvs path)"
    and "keeps issue_lines (issue_enum pr kvs path)"
    and "keeps issue_lines (issue_const pr kvs path)"
  unfolding issue_keywords_def issue_root_def issue_annotations_def issue_type_def issue_groups_def
    issue_object_head_def issue_object_tail_def issue_string_def issue_bounds_def issue_numeric_def
    issue_enum_def issue_const_def case_prod_beta
  using pr issue_names
  by (intro keeps_intros; auto simp: issue_messages plain_text_repr plain_text_nat list_all_iff)+

lemma walk_keeps:
  assumes pr: "printable_table pr"
  shows "keeps issue_lines (schema_walk pr node path is_root depth)"
  using pr
proof (induction pr node path is_root depth rule: schema_walk.induct)
  case (1 pr node path is_root depth)
  note blocks = issue_blocks_keep [OF "1.prems"]
  show ?case
  proof (cases "depth > MAX_NESTING_DEPTH \<or> \<not> is_dict node")
    case True
    then show ?thesis using "1.prems"
      by (subst schema_walk.simps) (cases node; auto intro!: keeps_intros simp: issue_messages)
  next
    case False
    then obtain kvs where kvs: "node = VDict kvs" and depth: "\<not> MAX_NESTING_DEPTH < depth"
      by (cases node) auto
    have object: "keeps issue_lines (case p of (name, child) \<Rightarrow>
        schema_walk pr child (pointer_join path (Name name)) False (depth + 1))"
      if "schema_type_of kvs = VStr (ascii ''object'')" "p \<in> set (schema_properties kvs)" for p
      using depth kvs that "1.prems" "1.IH"(1) by (cases p) simp
    have array: "keeps issue_lines (schema_walk pr item (pointer_join path (Name (ascii ''items''))) False (depth + 1))"
      if "schema_type_of kvs \<noteq> VStr (ascii ''object'')" "schema_type_of kvs = VStr (ascii ''array'')"
        "dict_get kvs (ascii ''items'') = Some item" for item
      using depth kvs that "1.prems" by (intro "1.IH"(2)) simp_all
    have items: "keeps issue_lines (case dict_get kvs (ascii ''items'') of
        None \<Rightarrow> add_issue pr (path, ascii ''array schemas require items'')
      | Some item \<Rightarrow> schema_walk pr item (pointer_join path (Name (ascii ''items''))) False (depth + 1))"
      if "schema_type_of kvs \<noteq> VStr (ascii ''object'')" "schema_type_of kvs = VStr (ascii ''array'')"
      using array [OF that] add_issue_keeps "1.prems" issue_messages by (simp split: option.split)
    show ?thesis
      unfolding kvs
      by (subst schema_walk.simps, simp only: depth if_False pyval.case)
        (intro keeps_intros blocks object items; assumption)
  qed
qed

lemma schema_issues_lines: "printable_table pr \<Longrightarrow> issue_lines (schema_issues pr schema)"
  using walk_keeps unfolding schema_issues_def keeps_def
  by (metis (no_types, lifting) issue_lines_def le0 list.pred_inject(1) list.size(3))

end
