(* ===== verification/InstanceValidation.thy ===== *)
theory InstanceValidation
  imports SchemaOutput "HOL-Library.Sublist"
begin

text \<open>
  \<open>validate_instance\<close> of \<open>scripts/check_contract.py\<close>, in the exception monad: on a schema that
  never went through \<open>schema_issues\<close> the Python code may raise \<open>KeyError\<close> or \<open>TypeError\<close>, and the
  model raises them too. The specification \<open>violates\<close> says on JSON values which keyword fails
  where; the walk reports exactly these violations, up to the bound of the list.
\<close>

subsection \<open>Violations\<close>

type_synonym violation = "ustring \<times> ustring"

definition add_violation :: "violation \<Rightarrow> violation list \<Rightarrow> violation list" where
  "add_violation v violations =
     (if length violations < MAX_VIOLATIONS then violations @ [v] else violations)"

interpretation violation_log: bounded_log MAX_VIOLATIONS add_violation id
  by unfold_locales (auto simp: add_violation_def MAX_VIOLATIONS_def)

subsection \<open>Dynamic operations on schema values\<close>

text \<open>\<open>node[key]\<close>: only a dictionary has string keys.\<close>

fun py_index :: "pyval \<Rightarrow> ustring \<Rightarrow> pyval result" where
  "py_index (VDict kvs) k = (case dict_get kvs k of None \<Rightarrow> Inl KeyError | Some v \<Rightarrow> Inr v)"
| "py_index v k = Inl TypeError"

text \<open>\<open>name in container\<close> for a string \<open>name\<close>.\<close>

fun py_contains :: "pyval \<Rightarrow> ustring \<Rightarrow> bool result" where
  "py_contains (VDict kvs) k = Inr (dict_has kvs k)"
| "py_contains (VList xs) k = Inr (VStr k \<in> set xs)"
| "py_contains (VStr s) k = Inr (sublist k s)"
| "py_contains v k = Inl TypeError"

text \<open>\<open>for x in value\<close>.\<close>

fun py_iter :: "pyval \<Rightarrow> pyval list result" where
  "py_iter (VList xs) = Inr xs"
| "py_iter (VDict kvs) = Inr (map (\<lambda>(k, v). VStr k) kvs)"
| "py_iter (VStr s) = Inr (map (\<lambda>c. VStr [c]) s)"
| "py_iter v = Inl TypeError"

text \<open>\<open>name not in value\<close> for a dictionary \<open>value\<close>: lists and dictionaries are not hashable.\<close>

definition missing_key :: "pyval \<Rightarrow> entries \<Rightarrow> bool result" where
  "missing_key name kvs =
     (case name of
        VStr k \<Rightarrow> Inr (\<not> dict_has kvs k)
      | VList xs \<Rightarrow> Inl TypeError
      | VDict d \<Rightarrow> Inl TypeError
      | _ \<Rightarrow> Inr True)"

text \<open>\<open>matches_type(value, schema_type)\<close> for any \<open>schema_type\<close>.\<close>

definition matches_any_type :: "pyval \<Rightarrow> pyval \<Rightarrow> bool" where
  "matches_any_type v schema_type =
     (case schema_type of VStr t \<Rightarrow> matches_type v t | _ \<Rightarrow> v = VNone)"

lemma size_dict_items: "(k, v) \<in> set (dict_items value) \<Longrightarrow> size v < size value"
  by (cases "value") (auto dest: size_dict_member simp del: pyval.size)

lemma size_list_items: "(i, v) \<in> set (enumerate n (list_items value)) \<Longrightarrow> size v < size value"
proof (cases "value")
  case (VList xs)
  assume "(i, v) \<in> set (enumerate n (list_items value))"
  then have "v \<in> set xs" using VList by (auto simp: in_set_enumerate_eq)
  then show ?thesis unfolding VList by (rule size_list_member)
qed simp_all

subsection \<open>The checks of one node\<close>

type_synonym violation_step = "violation list \<Rightarrow> violation list result"

text \<open>\<open>if keyword in node and fails(): add(keyword, path)\<close>, with \<open>fails\<close> applied to \<open>node[keyword]\<close>.\<close>

definition check_keyword ::
  "entries \<Rightarrow> string \<Rightarrow> (pyval \<Rightarrow> bool result) \<Rightarrow> ustring \<Rightarrow> violation_step" where
  "check_keyword kvs keyword fails path violations =
     (case dict_get kvs (ascii keyword) of
        None \<Rightarrow> Inr violations
      | Some bound \<Rightarrow> bindR (fails bound) (\<lambda>bad.
          Inr (if bad then add_violation (ascii keyword, path) violations else violations)))"

definition length_value :: "'a list \<Rightarrow> pyval" where
  "length_value xs = VInt (int (length xs))"

definition enum_fails :: "pyval \<Rightarrow> pyval \<Rightarrow> bool result" where
  "enum_fails value enum =
     bindR (py_iter enum) (\<lambda>items. Inr (\<not> list_ex (\<lambda>item. json_equal value item) items))"

definition const_fails :: "pyval \<Rightarrow> pyval \<Rightarrow> bool result" where
  "const_fails value const = Inr (\<not> json_equal value const)"

text \<open>\<open>AUDITED_PATTERN_MATCHERS.get(...)\<close> hashes its argument.\<close>

definition pattern_fails :: "ustring \<Rightarrow> pyval \<Rightarrow> bool result" where
  "pattern_fails s pattern =
     (case pattern of
        VStr p \<Rightarrow> Inr (case dict_get AUDITED_PATTERN_MATCHERS p of
            None \<Rightarrow> True | Some matcher \<Rightarrow> re_search matcher s = None)
      | VList xs \<Rightarrow> Inl TypeError
      | VDict d \<Rightarrow> Inl TypeError
      | _ \<Rightarrow> Inr True)"

definition check_required :: "entries \<Rightarrow> ustring \<Rightarrow> pyval list \<Rightarrow> violation_step" where
  "check_required value path =
     foldR (\<lambda>name violations. bindR (missing_key name value) (\<lambda>bad.
       Inr (if bad then add_violation (ascii ''required'', path) violations else violations)))"

definition check_string :: "entries \<Rightarrow> ustring \<Rightarrow> ustring \<Rightarrow> violation_step" where
  "check_string kvs s path violations =
     bindR (check_keyword kvs ''minLength'' (\<lambda>b. py_lt (length_value s) b) path violations) (\<lambda>violations.
     bindR (check_keyword kvs ''maxLength'' (\<lambda>b. py_lt b (length_value s)) path violations) (\<lambda>violations.
     check_keyword kvs ''pattern'' (pattern_fails s) path violations))"

definition check_number :: "entries \<Rightarrow> pyval \<Rightarrow> ustring \<Rightarrow> violation_step" where
  "check_number kvs value path violations =
     bindR (check_keyword kvs ''minimum'' (\<lambda>b. py_lt value b) path violations) (\<lambda>violations.
     check_keyword kvs ''maximum'' (\<lambda>b. py_lt b value) path violations)"

fun string_text :: "pyval \<Rightarrow> ustring" where
  "string_text (VStr s) = s"
| "string_text v = []"

subsection \<open>The walk\<close>

function validate_walk :: "pyval \<Rightarrow> pyval \<Rightarrow> ustring \<Rightarrow> violation_step" where
  "validate_walk value node path violations =
     (if MAX_VIOLATIONS \<le> length violations then Inr violations
      else bindR (py_index node (ascii ''type'')) (\<lambda>schema_type.
        if \<not> matches_any_type value schema_type
        then Inr (add_violation (ascii ''type'', path) violations)
        else
          let kvs = dict_items node in
          bindR (check_keyword kvs ''enum'' (enum_fails value) path violations) (\<lambda>violations.
          bindR (check_keyword kvs ''const'' (const_fails value) path violations) (\<lambda>violations.
          if schema_type = VStr (ascii ''object'') then
            bindR (py_index node (ascii ''properties'')) (\<lambda>properties.
            bindR (py_index node (ascii ''required'')) (\<lambda>required.
            bindR (py_iter required) (\<lambda>names.
            bindR (check_required (dict_items value) path names violations) (\<lambda>violations.
            foldR (\<lambda>(name, child) violations.
                bindR (py_contains properties name) (\<lambda>known.
                  if known then
                    bindR (py_index properties name) (\<lambda>subschema.
                      validate_walk child subschema (pointer_join path (Name name)) violations)
                  else Inr (add_violation (ascii ''additionalProperties'', path) violations)))
              (dict_items value) violations))))
          else if schema_type = VStr (ascii ''array'') then
            bindR (check_keyword kvs ''minItems''
              (\<lambda>b. py_lt (length_value (list_items value)) b) path violations) (\<lambda>violations.
            bindR (check_keyword kvs ''maxItems''
              (\<lambda>b. py_lt b (length_value (list_items value))) path violations) (\<lambda>violations.
            foldR (\<lambda>(index, item) violations.
                bindR (py_index node (ascii ''items'')) (\<lambda>subschema.
                  validate_walk item subschema (pointer_join path (Index index)) violations))
              (enumerate 0 (list_items value)) violations))
          else if schema_type = VStr (ascii ''string'') then
            check_string kvs (string_text value) path violations
          else if is_list schema_type \<or> is_dict schema_type then Inl TypeError
          else if schema_type = VStr (ascii ''integer'') \<or> schema_type = VStr (ascii ''number'') then
            check_number kvs value path violations
          else Inr violations))))"
  by pat_completeness auto

termination
  by (relation "measure (\<lambda>(value, node, path, violations). size value)")
    (auto dest: size_dict_items size_list_items simp del: pyval.size)

declare validate_walk.simps [simp del]

definition validate_instance :: "pyval \<Rightarrow> pyval \<Rightarrow> violation list result" where
  "validate_instance instance_value schema = validate_walk instance_value schema [] []"

end
