(* ===== verification/Utf8.thy ===== *)
theory Utf8
  imports PyText "HOL-Library.Word"
begin

text \<open>
  Bytes and UTF-8 as Python's strict codec has it: \<open>raw.decode("utf-8")\<close> rejects overlong forms,
  surrogates and values beyond U+10FFFF. Decoding and encoding are shown to be inverse on the
  Unicode scalar values.
\<close>

type_synonym byte = "8 word"

definition scalar :: "nat \<Rightarrow> bool" where
  "scalar c \<longleftrightarrow> c < 55296 \<or> (57343 < c \<and> c < 1114112)"

definition surrogate :: "nat \<Rightarrow> bool" where
  "surrogate c \<longleftrightarrow> 55296 \<le> c \<and> c \<le> 57343"

lemma scalar_not_surrogate: "scalar c \<Longrightarrow> \<not> surrogate c"
  by (auto simp: scalar_def surrogate_def)

definition byte_of :: "nat \<Rightarrow> byte" where
  "byte_of n = of_nat n"

lemma unat_byte_of: "n < 256 \<Longrightarrow> unat (byte_of n) = n"
  by (simp add: byte_of_def unat_of_nat take_bit_eq_mod)

lemma byte_of_unat [simp]: "byte_of (unat b) = b"
  by (simp add: byte_of_def)

lemma unat_byte_less: "unat (b :: byte) < 256"
  using unsigned_less [of b] by simp

subsection \<open>Decoding\<close>

definition cont :: "byte \<Rightarrow> bool" where
  "cont b \<longleftrightarrow> 128 \<le> unat b \<and> unat b < 192"

definition payload :: "byte \<Rightarrow> nat" where
  "payload b = unat b - 128"

text \<open>The second byte of a three or four byte sequence, with the ranges of the Unicode standard.\<close>

definition second3 :: "nat \<Rightarrow> byte \<Rightarrow> bool" where
  "second3 lead b \<longleftrightarrow> cont b \<and> (lead = 224 \<longrightarrow> 160 \<le> unat b) \<and> (lead = 237 \<longrightarrow> unat b < 160)"

definition second4 :: "nat \<Rightarrow> byte \<Rightarrow> bool" where
  "second4 lead b \<longleftrightarrow> cont b \<and> (lead = 240 \<longrightarrow> 144 \<le> unat b) \<and> (lead = 244 \<longrightarrow> unat b < 144)"

fun utf8_next :: "byte list \<Rightarrow> (nat \<times> byte list) option" where
  "utf8_next [] = None"
| "utf8_next (b # bs) =
     (let lead = unat b in
      if lead < 128 then Some (lead, bs)
      else if 194 \<le> lead \<and> lead < 224 then
        (case bs of
           c # rest \<Rightarrow> if cont c then Some ((lead - 192) * 64 + payload c, rest) else None
         | _ \<Rightarrow> None)
      else if 224 \<le> lead \<and> lead < 240 then
        (case bs of
           c # d # rest \<Rightarrow>
             if second3 lead c \<and> cont d
             then Some ((lead - 224) * 4096 + payload c * 64 + payload d, rest) else None
         | _ \<Rightarrow> None)
      else if 240 \<le> lead \<and> lead < 245 then
        (case bs of
           c # d # e # rest \<Rightarrow>
             if second4 lead c \<and> cont d \<and> cont e
             then Some ((lead - 240) * 262144 + payload c * 4096 + payload d * 64 + payload e, rest)
             else None
         | _ \<Rightarrow> None)
      else None)"

lemma utf8_next_shorter: "utf8_next bs = Some (c, rest) \<Longrightarrow> length rest < length bs"
  by (cases bs) (auto simp: Let_def split: if_splits list.splits)

function utf8_decode :: "byte list \<Rightarrow> ustring option" where
  "utf8_decode bs =
     (if bs = [] then Some []
      else case utf8_next bs of
        None \<Rightarrow> None
      | Some (c, rest) \<Rightarrow> (case utf8_decode rest of None \<Rightarrow> None | Some s \<Rightarrow> Some (c # s)))"
  by pat_completeness auto
termination
  by (relation "measure length") (auto dest: utf8_next_shorter)

declare utf8_decode.simps [simp del]

subsection \<open>Encoding\<close>

definition utf8_char :: "nat \<Rightarrow> byte list" where
  "utf8_char c =
     (if c < 128 then [byte_of c]
      else if c < 2048 then [byte_of (192 + c div 64), byte_of (128 + c mod 64)]
      else if c < 65536 then
        [byte_of (224 + c div 4096), byte_of (128 + c div 64 mod 64), byte_of (128 + c mod 64)]
      else
        [byte_of (240 + c div 262144), byte_of (128 + c div 4096 mod 64),
         byte_of (128 + c div 64 mod 64), byte_of (128 + c mod 64)])"

definition utf8_encode :: "ustring \<Rightarrow> byte list" where
  "utf8_encode s = concat (map utf8_char s)"

lemma base64_digits:
  fixes c :: nat
  shows "c = x * 64 + d \<Longrightarrow> x = y * 64 + b \<Longrightarrow> c = y * 4096 + b * 64 + d"
    and "c = x * 64 + d \<Longrightarrow> x = y * 64 + b \<Longrightarrow> y = z * 64 + a \<Longrightarrow>
      c = z * 262144 + a * 4096 + b * 64 + d"
  by simp_all

lemma base64_split:
  fixes c :: nat
  shows "c = c div 4096 * 4096 + c div 64 mod 64 * 64 + c mod 64"
    and "c = c div 262144 * 262144 + c div 4096 mod 64 * 4096 + c div 64 mod 64 * 64 + c mod 64"
proof -
  have d: "c div 4096 = c div 64 div 64" "c div 262144 = c div 64 div 64 div 64"
    by (simp_all flip: div_mult2_eq)
  show "c = c div 4096 * 4096 + c div 64 mod 64 * 64 + c mod 64"
    unfolding d by (rule base64_digits(1)) (rule div_mult_mod_eq [symmetric])+
  show "c = c div 262144 * 262144 + c div 4096 mod 64 * 4096 + c div 64 mod 64 * 64 + c mod 64"
    unfolding d by (rule base64_digits(2)) (rule div_mult_mod_eq [symmetric])+
qed

lemma base64_join:
  fixes p q r t :: nat
  assumes "q < 64" and "r < 64" and "t < 64"
  shows "(p * 64 + q) div 64 = p" "(p * 64 + q) mod 64 = q"
    and "(p * 4096 + q * 64 + r) div 4096 = p" "(p * 4096 + q * 64 + r) div 64 mod 64 = q"
      "(p * 4096 + q * 64 + r) mod 64 = r"
    and "(p * 262144 + q * 4096 + r * 64 + t) div 262144 = p"
      "(p * 262144 + q * 4096 + r * 64 + t) div 4096 mod 64 = q"
      "(p * 262144 + q * 4096 + r * 64 + t) div 64 mod 64 = r"
      "(p * 262144 + q * 4096 + r * 64 + t) mod 64 = t"
proof -
  have two: "(a * 64 + b) div 64 = a" "(a * 64 + b) mod 64 = b" if "b < 64" for a b :: nat
    using that by simp_all
  have d: "n div 4096 = n div 64 div 64" "n div 262144 = n div 64 div 64 div 64" for n :: nat
    by (simp_all flip: div_mult2_eq)
  have e: "p * 4096 + q * 64 + r = (p * 64 + q) * 64 + r"
    "p * 262144 + q * 4096 + r * 64 + t = ((p * 64 + q) * 64 + r) * 64 + t" by simp_all
  show "(p * 64 + q) div 64 = p" "(p * 64 + q) mod 64 = q" by (simp_all only: two assms)
  show "(p * 4096 + q * 64 + r) div 4096 = p" "(p * 4096 + q * 64 + r) div 64 mod 64 = q"
    "(p * 4096 + q * 64 + r) mod 64 = r"
    unfolding e d by (simp_all only: two assms)
  show "(p * 262144 + q * 4096 + r * 64 + t) div 262144 = p"
    "(p * 262144 + q * 4096 + r * 64 + t) div 4096 mod 64 = q"
    "(p * 262144 + q * 4096 + r * 64 + t) div 64 mod 64 = r"
    "(p * 262144 + q * 4096 + r * 64 + t) mod 64 = t"
    unfolding e d by (simp_all only: two assms)
qed

lemma utf8_next_char:
  assumes "scalar c"
  shows "utf8_next (utf8_char c @ rest) = Some (c, rest)"
proof -
  consider "c < 128" | "128 \<le> c" "c < 2048" | "2048 \<le> c" "c < 65536" | "65536 \<le> c" "c < 1114112"
    using assms by (force simp: scalar_def)
  then show ?thesis
  proof cases
    case 1
    then show ?thesis by (simp add: utf8_char_def unat_byte_of)
  next
    case 2
    then have "2 \<le> c div 64" "c div 64 < 32" by (simp_all add: div_less_iff_less_mult less_eq_div_iff_mult_less_eq)
    with 2 show ?thesis
      by (simp add: utf8_char_def unat_byte_of cont_def payload_def)
  next
    case 3
    define a b d where "a = c div 4096" and "b = c div 64 mod 64" and "d = c mod 64"
    have c: "c = a * 4096 + b * 64 + d"
      unfolding a_def b_def d_def by (rule base64_split)
    have small: "b < 64" "d < 64" "a < 16"
      using 3 by (simp_all add: a_def b_def d_def div_less_iff_less_mult)
    have range: "a = 0 \<longrightarrow> 32 \<le> b" "a = 13 \<longrightarrow> b < 32"
      using c small 3 assms by (auto simp: scalar_def)
    have code: "utf8_char c = [byte_of (224 + a), byte_of (128 + b), byte_of (128 + d)]"
      using 3 by (simp add: utf8_char_def a_def b_def d_def)
    show ?thesis
      unfolding code using small range
      by (simp add: unat_byte_of cont_def payload_def second3_def c)
  next
    case 4
    define a b d e where "a = c div 262144" and "b = c div 4096 mod 64"
      and "d = c div 64 mod 64" and "e = c mod 64"
    have c: "c = a * 262144 + b * 4096 + d * 64 + e"
      unfolding a_def b_def d_def e_def by (rule base64_split)
    have small: "b < 64" "d < 64" "e < 64" "a < 5"
      using 4 by (simp_all add: a_def b_def d_def e_def div_less_iff_less_mult)
    have range: "a = 0 \<longrightarrow> 16 \<le> b" "a = 4 \<longrightarrow> b < 16"
      using c small 4 by auto
    have code: "utf8_char c =
        [byte_of (240 + a), byte_of (128 + b), byte_of (128 + d), byte_of (128 + e)]"
      using 4 by (simp add: utf8_char_def a_def b_def d_def e_def)
    show ?thesis
      unfolding code using small range
      by (simp add: unat_byte_of cont_def payload_def second4_def c)
  qed
qed

lemma utf8_char_not_Nil: "utf8_char c \<noteq> []"
  by (simp add: utf8_char_def)

text \<open>Decoding inverts encoding.\<close>

lemma utf8_decode_encode: "list_all scalar s \<Longrightarrow> utf8_decode (utf8_encode s) = Some s"
proof (induction s)
  case Nil
  then show ?case by (simp add: utf8_encode_def utf8_decode.simps)
next
  case (Cons c s)
  then have "utf8_next (utf8_char c @ utf8_encode s) = Some (c, utf8_encode s)"
    by (intro utf8_next_char) simp
  moreover have "utf8_encode (c # s) = utf8_char c @ utf8_encode s" by (simp add: utf8_encode_def)
  ultimately show ?case
    using Cons by (subst utf8_decode.simps) (simp add: utf8_char_not_Nil)
qed

text \<open>What is decoded is a scalar, and encoding it gives the bytes back.\<close>

lemma utf8_next_encode:
  assumes "utf8_next bs = Some (c, rest)"
  shows "scalar c \<and> bs = utf8_char c @ rest"
proof -
  obtain b ds where bs: "bs = b # ds" using assms by (cases bs) auto
  have lead: "unat b < 256" by (rule unat_byte_less)
  consider "unat b < 128" | "194 \<le> unat b" "unat b < 224" | "224 \<le> unat b" "unat b < 240"
    | "240 \<le> unat b" "unat b < 245"
    using assms by (auto simp: bs Let_def split: if_splits)
  then show ?thesis
  proof cases
    case 1
    then show ?thesis using assms by (auto simp: bs utf8_char_def scalar_def)
  next
    case 2
    then obtain x where x: "ds = x # rest" "cont x" "c = (unat b - 192) * 64 + payload x"
      using assms by (auto simp: bs Let_def split: list.splits if_splits)
    define p q where "p = unat b - 192" and "q = payload x"
    have pq: "unat b = 192 + p" "2 \<le> p" "p < 32" "unat x = 128 + q" "q < 64"
      using 2 x(2) by (auto simp: p_def q_def payload_def cont_def)
    then have "c div 64 = p" "c mod 64 = q" "128 \<le> c" "c < 2048"
      using x(3) by (simp_all flip: p_def q_def)
    moreover have "byte_of (192 + p) = b" "byte_of (128 + q) = x"
      by (simp_all flip: pq(1,4))
    ultimately show ?thesis by (simp add: bs x(1) utf8_char_def scalar_def)
  next
    case 3
    then obtain x y where x: "ds = x # y # rest" "second3 (unat b) x" "cont y"
      "c = (unat b - 224) * 4096 + payload x * 64 + payload y"
      using assms by (auto simp: bs Let_def split: list.splits if_splits)
    define p q r where "p = unat b - 224" and "q = payload x" and "r = payload y"
    have pq: "unat b = 224 + p" "p < 16" "unat x = 128 + q" "q < 64" "unat y = 128 + r" "r < 64"
      "p = 0 \<longrightarrow> 32 \<le> q" "p = 13 \<longrightarrow> q < 32"
      using 3 x(2,3) by (auto simp: p_def q_def r_def payload_def cont_def second3_def)
    have c: "c = p * 4096 + q * 64 + r" using x(4) by (simp flip: p_def q_def r_def)
    have "c div 4096 = p" "c div 64 mod 64 = q" "c mod 64 = r"
      unfolding c by (rule base64_join [OF pq(4,6), of 0]; simp)+
    moreover have "2048 \<le> c" "c < 65536" using pq c by auto
    moreover have "scalar c"
    proof -
      consider "p \<le> 12" | "p = 13" | "14 \<le> p" by linarith
      then show ?thesis using pq c by cases (auto simp: scalar_def)
    qed
    moreover have "byte_of (224 + p) = b" "byte_of (128 + q) = x" "byte_of (128 + r) = y"
      by (simp_all flip: pq(1,3,5))
    ultimately show ?thesis by (simp add: bs x(1) utf8_char_def)
  next
    case 4
    then obtain x y z where x: "ds = x # y # z # rest" "second4 (unat b) x" "cont y" "cont z"
      "c = (unat b - 240) * 262144 + payload x * 4096 + payload y * 64 + payload z"
      using assms by (auto simp: bs Let_def split: list.splits if_splits)
    define p q r t where "p = unat b - 240" and "q = payload x" and "r = payload y"
      and "t = payload z"
    have pq: "unat b = 240 + p" "p < 5" "unat x = 128 + q" "q < 64" "unat y = 128 + r" "r < 64"
      "unat z = 128 + t" "t < 64" "p = 0 \<longrightarrow> 16 \<le> q" "p = 4 \<longrightarrow> q < 16"
      using 4 x(2-4) by (auto simp: p_def q_def r_def t_def payload_def cont_def second4_def)
    have c: "c = p * 262144 + q * 4096 + r * 64 + t"
      using x(5) by (simp flip: p_def q_def r_def t_def)
    have "c div 262144 = p" "c div 4096 mod 64 = q" "c div 64 mod 64 = r" "c mod 64 = t"
      unfolding c by (rule base64_join [OF pq(4,6,8)])+
    moreover have "65536 \<le> c" "scalar c"
      using pq c by (auto simp: scalar_def)
    moreover have "byte_of (240 + p) = b" "byte_of (128 + q) = x" "byte_of (128 + r) = y"
      "byte_of (128 + t) = z"
      by (simp_all flip: pq(1,3,5,7))
    ultimately show ?thesis by (simp add: bs x(1) utf8_char_def)
  qed
qed

lemma utf8_encode_decode: "utf8_decode bs = Some s \<Longrightarrow> list_all scalar s \<and> utf8_encode s = bs"
proof (induction bs arbitrary: s rule: utf8_decode.induct)
  case (1 bs)
  show ?case
  proof (cases "bs = []")
    case True
    then show ?thesis using "1.prems" by (simp add: utf8_decode.simps utf8_encode_def)
  next
    case False
    then obtain c rest t where n: "utf8_next bs = Some (c, rest)" "utf8_decode rest = Some t" "s = c # t"
      using "1.prems" by (subst (asm) utf8_decode.simps) (auto split: option.splits)
    have "list_all scalar t \<and> utf8_encode t = rest"
      using False n(1,2) by (intro "1.IH" [of "(c, rest)" c rest]) simp_all
    moreover have "scalar c \<and> bs = utf8_char c @ rest" using n(1) by (rule utf8_next_encode)
    ultimately show ?thesis by (simp add: n(3) utf8_encode_def)
  qed
qed

end
