(* ===== verification/Sha256.thy ===== *)
theory Sha256
  imports Utf8
begin

text \<open>
  SHA-256 (FIPS 180-4) as \<open>hashlib.sha256\<close> computes it: words of 32 bits whose addition wraps,
  message padding to blocks of 64 bytes, and the hexadecimal digest. The fingerprint of a schema
  is this digest of its canonical text.
\<close>

unbundle bit_operations_syntax

type_synonym w32 = "32 word"

definition round_constants :: "w32 list" where
  "round_constants =
    [0x428A2F98, 0x71374491, 0xB5C0FBCF, 0xE9B5DBA5, 0x3956C25B, 0x59F111F1, 0x923F82A4,
     0xAB1C5ED5, 0xD807AA98, 0x12835B01, 0x243185BE, 0x550C7DC3, 0x72BE5D74, 0x80DEB1FE,
     0x9BDC06A7, 0xC19BF174, 0xE49B69C1, 0xEFBE4786, 0x0FC19DC6, 0x240CA1CC, 0x2DE92C6F,
     0x4A7484AA, 0x5CB0A9DC, 0x76F988DA, 0x983E5152, 0xA831C66D, 0xB00327C8, 0xBF597FC7,
     0xC6E00BF3, 0xD5A79147, 0x06CA6351, 0x14292967, 0x27B70A85, 0x2E1B2138, 0x4D2C6DFC,
     0x53380D13, 0x650A7354, 0x766A0ABB, 0x81C2C92E, 0x92722C85, 0xA2BFE8A1, 0xA81A664B,
     0xC24B8B70, 0xC76C51A3, 0xD192E819, 0xD6990624, 0xF40E3585, 0x106AA070, 0x19A4C116,
     0x1E376C08, 0x2748774C, 0x34B0BCB5, 0x391C0CB3, 0x4ED8AA4A, 0x5B9CCA4F, 0x682E6FF3,
     0x748F82EE, 0x78A5636F, 0x84C87814, 0x8CC70208, 0x90BEFFFA, 0xA4506CEB, 0xBEF9A3F7,
     0xC67178F2]"

definition initial_hash :: "w32 list" where
  "initial_hash =
    [0x6A09E667, 0xBB67AE85, 0x3C6EF372, 0xA54FF53A, 0x510E527F, 0x9B05688C, 0x1F83D9AB,
     0x5BE0CD19]"

subsection \<open>Padding and words\<close>

fun be_bytes :: "nat \<Rightarrow> nat \<Rightarrow> byte list" where
  "be_bytes 0 n = []"
| "be_bytes (Suc width) n = be_bytes width (n div 256) @ [byte_of (n mod 256)]"

lemma length_be_bytes: "length (be_bytes width n) = width"
  by (induction width arbitrary: n) simp_all

definition pad_message :: "byte list \<Rightarrow> byte list" where
  "pad_message bs =
     bs @ [byte_of 128] @ replicate ((119 - length bs mod 64) mod 64) 0 @ be_bytes 8 (8 * length bs)"

definition be_word :: "byte list \<Rightarrow> w32" where
  "be_word bs = fold (\<lambda>b acc. push_bit 8 acc OR ucast b) bs 0"

function chunks_of :: "nat \<Rightarrow> 'a list \<Rightarrow> 'a list list" where
  "chunks_of n xs = (if n = 0 \<or> xs = [] then [] else take n xs # chunks_of n (drop n xs))"
  by pat_completeness auto
termination
  by (relation "measure (\<lambda>(n, xs). length xs)") auto

declare chunks_of.simps [simp del]

text \<open>The padded message fills whole blocks.\<close>

lemma fill_zeros:
  fixes r :: nat
  assumes "r < 64"
  shows "r + 9 + (119 - r) mod 64 = (if r \<le> 55 then 64 else 128)"
proof (cases "r \<le> 55")
  case True
  then obtain k where k: "55 = r + k" by (auto simp: le_iff_add)
  then have "119 - r = 64 + k" "k < 64" by simp_all
  with True k show ?thesis by simp
qed (use assms in simp)

lemma length_pad_message: "64 dvd length (pad_message bs)"
proof -
  let ?r = "length bs mod 64"
  have "length (pad_message bs) = length bs + 9 + (119 - ?r) mod 64"
    by (simp add: pad_message_def length_be_bytes del: be_bytes.simps)
  also have "\<dots> = length bs div 64 * 64 + (?r + 9 + (119 - ?r) mod 64)"
    by (simp only: add.assoc [symmetric] div_mult_mod_eq)
  also have "?r + 9 + (119 - ?r) mod 64 = (if ?r \<le> 55 then 64 else 128)"
    by (rule fill_zeros) simp
  finally have len: "length (pad_message bs) =
      length bs div 64 * 64 + (if ?r \<le> 55 then 64 else 128)" .
  have "64 dvd (if ?r \<le> 55 then 64 else 128 :: nat)" by (cases "?r \<le> 55") simp_all
  then show ?thesis unfolding len by (rule dvd_add [OF dvd_triv_right])
qed

subsection \<open>Compression\<close>

definition rotr :: "nat \<Rightarrow> w32 \<Rightarrow> w32" where
  "rotr n w = drop_bit n w OR push_bit (32 - n) w"

definition small_sigma0 :: "w32 \<Rightarrow> w32" where
  "small_sigma0 w = rotr 7 w XOR rotr 18 w XOR drop_bit 3 w"

definition small_sigma1 :: "w32 \<Rightarrow> w32" where
  "small_sigma1 w = rotr 17 w XOR rotr 19 w XOR drop_bit 10 w"

definition big_sigma0 :: "w32 \<Rightarrow> w32" where
  "big_sigma0 w = rotr 2 w XOR rotr 13 w XOR rotr 22 w"

definition big_sigma1 :: "w32 \<Rightarrow> w32" where
  "big_sigma1 w = rotr 6 w XOR rotr 11 w XOR rotr 25 w"

text \<open>The message schedule, newest word first while it grows.\<close>

fun extend_schedule :: "nat \<Rightarrow> w32 list \<Rightarrow> w32 list" where
  "extend_schedule 0 ws = ws"
| "extend_schedule (Suc n) ws =
     extend_schedule n
       ((small_sigma1 (ws ! 1) + ws ! 6 + small_sigma0 (ws ! 14) + ws ! 15) # ws)"

definition schedule :: "byte list \<Rightarrow> w32 list" where
  "schedule block = rev (extend_schedule 48 (rev (map be_word (chunks_of 4 block))))"

fun sha_round :: "w32 \<times> w32 \<Rightarrow> w32 list \<Rightarrow> w32 list" where
  "sha_round (k, w) [a, b, c, d, e, f, g, h] =
     (let t1 = h + big_sigma1 e + ((e AND f) XOR (NOT e AND g)) + k + w;
          t2 = big_sigma0 a + ((a AND b) XOR (a AND c) XOR (b AND c))
      in [t1 + t2, a, b, c, d + t1, e, f, g])"
| "sha_round kw st = st"

definition compress :: "byte list \<Rightarrow> w32 list \<Rightarrow> w32 list" where
  "compress block st = map2 (+) st (fold sha_round (zip round_constants (schedule block)) st)"

definition sha256 :: "byte list \<Rightarrow> w32 list" where
  "sha256 bs = fold compress (chunks_of 64 (pad_message bs)) initial_hash"

definition hexdigest :: "w32 list \<Rightarrow> ustring" where
  "hexdigest ws = concat (map (\<lambda>w. hex_pad 8 (unat w)) ws)"

definition sha256_hexdigest :: "byte list \<Rightarrow> ustring" where
  "sha256_hexdigest bs = hexdigest (sha256 bs)"

lemma length_hex_pad: "length (hex_pad w n) = w"
  by (induction w arbitrary: n) simp_all

lemma length_sha_round: "length (sha_round kw st) = length st"
  by (induction kw st rule: sha_round.induct) (simp_all add: Let_def)

lemma length_sha256: "length (sha256 bs) = 8"
proof -
  have rounds: "length (fold sha_round kws st) = length st" for kws st
    by (induction kws arbitrary: st) (simp_all add: length_sha_round)
  have "length (fold compress blocks st) = length st" for blocks st
    by (induction blocks arbitrary: st) (simp_all add: compress_def rounds)
  then show ?thesis by (simp add: sha256_def initial_hash_def)
qed

lemma length_sha256_hexdigest: "length (sha256_hexdigest bs) = 64"
proof -
  have "length (concat (map (\<lambda>w. hex_pad 8 (unat w)) ws)) = 8 * length ws" for ws :: "w32 list"
    by (induction ws) (simp_all add: length_hex_pad)
  then show ?thesis by (simp add: sha256_hexdigest_def hexdigest_def length_sha256)
qed

end
