(* ===== verification/Fingerprint.thy ===== *)
theory Fingerprint
  imports InstanceValidation Sha256
begin

text \<open>
  \<open>schema_validation_fingerprint\<close> of \<open>scripts/check_contract.py\<close>: a schema is encoded as nested
  tagged lists with sorted keys, without annotations, with the unordered arrays sorted and the
  numbers normalised; the fingerprint is the SHA-256 of the compact JSON text of this encoding.
\<close>

subsection \<open>Canonical numbers\<close>

text \<open>\<open>while digits and digits[-1] == 0\<close>, on the reversed digit list.\<close>

fun drop_zeros :: "nat list \<Rightarrow> int \<Rightarrow> nat list \<times> int" where
  "drop_zeros (0 # ds) e = drop_zeros ds (e + 1)"
| "drop_zeros ds e = (ds, e)"

definition number_key_of :: "bool \<Rightarrow> nat \<Rightarrow> int \<Rightarrow> ustring" where
  "number_key_of sign coefficient exponent =
     (case drop_zeros (rev (digits10 coefficient)) exponent of
        (ds, e) \<Rightarrow> (if sign then [49] else [48]) @ [58] @ map (\<lambda>d. 48 + d) (rev ds) @ [58] @ py_str_int e)"

text \<open>
  \<open>number_key\<close>: an infinity has the exponent \<open>'F'\<close>, to which no number can be added; a NaN has
  no digits and the exponent \<open>'n'\<close>.
\<close>

fun number_key :: "pydec \<Rightarrow> ustring result" where
  "number_key (DFin s c e) = Inr (if c = 0 then [48] else number_key_of s c e)"
| "number_key (DInf s) = Inl TypeError"
| "number_key DNaN = Inr (ascii ''0::n'')"

definition decimal_of_int :: "int \<Rightarrow> pydec" where
  "decimal_of_int i = DFin (i < 0) (nat \<bar>i\<bar>) 0"

subsection \<open>Encoded schemas and their text\<close>

datatype enc = EStr ustring | EBool bool | EList "enc list"

text \<open>The escapes of \<open>json.dumps\<close> with \<open>ensure_ascii\<close>.\<close>

definition hex4 :: "nat \<Rightarrow> ustring" where
  "hex4 n = [92, 117] @ hex_pad 4 n"

definition ascii_escape :: "nat \<Rightarrow> ustring" where
  "ascii_escape c =
     (if c = 34 then [92, 34] else if c = 92 then [92, 92]
      else if c = 10 then [92, 110] else if c = 13 then [92, 114] else if c = 9 then [92, 116]
      else if c = 12 then [92, 102] else if c = 8 then [92, 98]
      else if 32 \<le> c \<and> c < 127 then [c]
      else if c < 65536 then hex4 c
      else hex4 (55296 + (c - 65536) div 1024) @ hex4 (56320 + (c - 65536) mod 1024))"

definition json_quote :: "ustring \<Rightarrow> ustring" where
  "json_quote s = [34] @ concat (map ascii_escape s) @ [34]"

fun dumps :: "enc \<Rightarrow> ustring" where
  "dumps (EStr s) = json_quote s"
| "dumps (EBool b) = (if b then ascii ''true'' else ascii ''false'')"
| "dumps (EList es) = [91] @ join_with [44] (map dumps es) @ [93]"

definition tagged :: "string \<Rightarrow> enc list \<Rightarrow> enc" where
  "tagged tag es = EList (EStr (ascii tag) # es)"

subsection \<open>encode\<close>

text \<open>The keys a node contributes, in sorted order.\<close>

definition encoded_keys :: "bool \<Rightarrow> entries \<Rightarrow> ustring list" where
  "encoded_keys schema_node kvs =
     filter (\<lambda>k. \<not> (schema_node \<and> k \<in> set SCHEMA_ANNOTATIONS)) (sort (dict_keys kvs))"

text \<open>
  \<open>sorted(child)\<close> with \<open>child[name]\<close>. The fingerprint is taken of schemas the profile check accepted,
  where the child is a dictionary; a child that is neither a dictionary nor empty is an error here
  (a list of integers in its own index range is the one such child that Python would encode).
\<close>

fun children_of :: "pyval \<Rightarrow> entries result" where
  "children_of (VDict ps) = Inr ps"
| "children_of (VList []) = Inr []"
| "children_of (VStr []) = Inr []"
| "children_of v = Inl TypeError"

lemma children_of_size: "children_of v = Inr ps \<Longrightarrow> (k, c) \<in> set ps \<Longrightarrow> size c < size v"
  by (cases v rule: children_of.cases) (auto dest: size_dict_member simp del: pyval.size)

lemma py_iter_size:
  assumes "py_iter v = Inr items" and "x \<in> set items" and "(k, v) \<in> set kvs"
  shows "size x < size (VDict kvs)"
proof (cases v)
  case (VList xs)
  have "x \<in> set xs" using assms(1,2) by (simp add: VList)
  then have "size x < size v" unfolding VList by (rule size_list_member)
  also have "\<dots> < size (VDict kvs)" using assms(3) by (rule size_dict_member)
  finally show ?thesis .
qed (use assms in auto)

lemma children_of_size_dict:
  assumes "dict_get kvs k = Some v" and "children_of v = Inr ps" and "dict_get ps n = Some c"
  shows "size c < size (VDict kvs)"
  using size_dict_get [OF assms(1)] children_of_size [OF assms(2) map_of_SomeD [OF assms(3)]] by simp

function encode :: "bool \<Rightarrow> pyval \<Rightarrow> enc result" where
  "encode schema_node v =
     (case v of
        VDict kvs \<Rightarrow>
          bindR (mapR (\<lambda>key.
              case dict_get kvs key of
                None \<Rightarrow> Inl KeyError
              | Some child \<Rightarrow>
                  bindR
                    (if schema_node \<and> key = ascii ''properties'' then
                       bindR (children_of child) (\<lambda>ps.
                       bindR (mapR (\<lambda>name.
                           case dict_get ps name of
                             None \<Rightarrow> Inl KeyError
                           | Some grandchild \<Rightarrow>
                               bindR (encode True grandchild) (\<lambda>e. Inr (EList [EStr name, e])))
                         (sort (dict_keys ps))) (\<lambda>es.
                       Inr (tagged ''object'' [EList es])))
                     else if schema_node \<and> key = ascii ''items'' then encode True child
                     else if schema_node \<and> key \<in> set SCHEMA_UNORDERED_ARRAYS then
                       bindR (py_iter child) (\<lambda>items.
                       bindR (mapR (encode False) items) (\<lambda>es.
                       Inr (tagged ''array'' [EList (sort_key dumps es)])))
                     else encode False child)
                    (\<lambda>encoded. Inr (EList [EStr key, encoded])))
            (encoded_keys schema_node kvs)) (\<lambda>entries.
          Inr (tagged ''object'' [EList entries]))
      | VList xs \<Rightarrow> bindR (mapR (encode False) xs) (\<lambda>es. Inr (tagged ''array'' [EList es]))
      | VStr s \<Rightarrow> Inr (tagged ''string'' [EStr s])
      | VBool b \<Rightarrow> Inr (tagged ''boolean'' [EBool b])
      | VInt i \<Rightarrow> bindR (number_key (decimal_of_int i)) (\<lambda>n. Inr (tagged ''number'' [EStr n]))
      | VDec d \<Rightarrow> bindR (number_key d) (\<lambda>n. Inr (tagged ''number'' [EStr n]))
      | VNone \<Rightarrow> Inr (tagged ''null'' [])
      | VFloat f \<Rightarrow> Inl TypeError)"
  by pat_completeness auto

termination
  by (relation "measure (\<lambda>(schema_node, v). size v)")
    (auto dest: size_list_member size_dict_get children_of_size_dict py_iter_size [OF _ _ map_of_SomeD]
      simp del: pyval.size)

declare encode.simps [simp del, code del]

text \<open>One equation per constructor.\<close>

lemma encode_eqs [code]:
  "encode schema_node (VDict kvs) =
          bindR (mapR (\<lambda>key.
              case dict_get kvs key of
                None \<Rightarrow> Inl KeyError
              | Some child \<Rightarrow>
                  bindR
                    (if schema_node \<and> key = ascii ''properties'' then
                       bindR (children_of child) (\<lambda>ps.
                       bindR (mapR (\<lambda>name.
                           case dict_get ps name of
                             None \<Rightarrow> Inl KeyError
                           | Some grandchild \<Rightarrow>
                               bindR (encode True grandchild) (\<lambda>e. Inr (EList [EStr name, e])))
                         (sort (dict_keys ps))) (\<lambda>es.
                       Inr (tagged ''object'' [EList es])))
                     else if schema_node \<and> key = ascii ''items'' then encode True child
                     else if schema_node \<and> key \<in> set SCHEMA_UNORDERED_ARRAYS then
                       bindR (py_iter child) (\<lambda>items.
                       bindR (mapR (encode False) items) (\<lambda>es.
                       Inr (tagged ''array'' [EList (sort_key dumps es)])))
                     else encode False child)
                    (\<lambda>encoded. Inr (EList [EStr key, encoded])))
            (encoded_keys schema_node kvs)) (\<lambda>entries.
          Inr (tagged ''object'' [EList entries]))"
  "encode schema_node (VList xs) = bindR (mapR (encode False) xs) (\<lambda>es. Inr (tagged ''array'' [EList es]))"
  "encode schema_node (VStr s) = Inr (tagged ''string'' [EStr s])"
  "encode schema_node (VBool b) = Inr (tagged ''boolean'' [EBool b])"
  "encode schema_node (VInt i) = bindR (number_key (decimal_of_int i)) (\<lambda>n. Inr (tagged ''number'' [EStr n]))"
  "encode schema_node (VDec d) = bindR (number_key d) (\<lambda>n. Inr (tagged ''number'' [EStr n]))"
  "encode schema_node VNone = Inr (tagged ''null'' [])"
  "encode schema_node (VFloat f) = Inl TypeError"
  by (subst encode.simps, simp only: pyval.case)+

text \<open>The canonical text is ASCII, so its UTF-8 bytes are its characters.\<close>

definition canonical_text :: "pyval \<Rightarrow> ustring result" where
  "canonical_text schema = bindR (encode True schema) (\<lambda>e. Inr (dumps e))"

definition schema_validation_fingerprint :: "pyval \<Rightarrow> ustring result" where
  "schema_validation_fingerprint schema =
     bindR (canonical_text schema) (\<lambda>text. Inr (sha256_hexdigest (utf8_encode text)))"

end
