(* ===== verification/FingerprintText.thy ===== *)
theory FingerprintText
  imports Fingerprint
begin

text \<open>
  The compact JSON text of an encoding determines the encoding: escapes are read back, and both
  quoted strings and whole encodings are prefix-free. Numbers are equal as keys exactly when they
  have the same value.
\<close>

subsection \<open>Escapes are prefix-free\<close>

definition unhex :: "nat \<Rightarrow> nat" where
  "unhex d = (if d < 58 then d - 48 else d - 87)"

lemma unhex_hexdigit: "n < 16 \<Longrightarrow> unhex (hexdigit n) = n"
  by (simp add: unhex_def hexdigit_def)

definition hex_value4 :: "nat \<Rightarrow> nat \<Rightarrow> nat \<Rightarrow> nat \<Rightarrow> nat" where
  "hex_value4 a b c d = ((unhex a * 16 + unhex b) * 16 + unhex c) * 16 + unhex d"

definition high_surrogate :: "nat \<Rightarrow> bool" where
  "high_surrogate c \<longleftrightarrow> 55296 \<le> c \<and> c < 56320"

text \<open>One escaped character read back, with surrogate pairs joined.\<close>

definition join_surrogates :: "nat \<Rightarrow> ustring \<Rightarrow> nat \<times> ustring" where
  "join_surrogates u more =
     (if high_surrogate u then
        (case more of
           s # t # e # f # g # h # final \<Rightarrow>
             (65536 + (u - 55296) * 1024 + (hex_value4 e f g h - 56320), final)
         | _ \<Rightarrow> (u, more))
      else (u, more))"

fun read_escape :: "ustring \<Rightarrow> nat \<times> ustring" where
  "read_escape (x # y # rest) =
     (if x \<noteq> 92 then (x, y # rest)
      else if y = 110 then (10, rest) else if y = 114 then (13, rest) else if y = 116 then (9, rest)
      else if y = 102 then (12, rest) else if y = 98 then (8, rest)
      else if y \<noteq> 117 then (y, rest)
      else (case rest of
         a # b # c # d # more \<Rightarrow> join_surrogates (hex_value4 a b c d) more
       | _ \<Rightarrow> (y, rest)))"
| "read_escape [x] = (x, [])"
| "read_escape [] = (0, [])"

lemma hex_pad_4:
  "hex_pad 4 n =
     [hexdigit (n div 16 div 16 div 16 mod 16), hexdigit (n div 16 div 16 mod 16),
      hexdigit (n div 16 mod 16), hexdigit (n mod 16)]"
proof -
  have four: "4 = Suc (Suc (Suc (Suc 0)))" by simp
  show ?thesis unfolding four hex_pad.simps by (simp only: append.simps)
qed

lemma hex_digits4:
  fixes n :: nat
  assumes "n < 65536"
  shows "((n div 16 div 16 div 16 mod 16 * 16 + n div 16 div 16 mod 16) * 16 + n div 16 mod 16) * 16 +
    n mod 16 = n"
proof -
  have "n div 16 div 16 div 16 < 16" using assms by (simp add: div_less_iff_less_mult flip: div_mult2_eq)
  then have "n div 16 div 16 div 16 mod 16 = n div 16 div 16 div 16" by (rule mod_less)
  then show ?thesis by (simp only: div_mult_mod_eq)
qed

lemma hex_pad_value:
  assumes "n < 65536"
  obtains a b c d where "hex_pad 4 n = [a, b, c, d]" and "hex_value4 a b c d = n"
proof
  have small: "m mod 16 < 16" for m :: nat by simp
  show "hex_value4 (hexdigit (n div 16 div 16 div 16 mod 16)) (hexdigit (n div 16 div 16 mod 16))
      (hexdigit (n div 16 mod 16)) (hexdigit (n mod 16)) = n"
    unfolding hex_value4_def unhex_hexdigit [OF small] using assms by (rule hex_digits4)
qed (rule hex_pad_4)

lemma read_hex4: "n < 65536 \<Longrightarrow> read_escape (hex4 n @ more) = join_surrogates n more"
  unfolding hex4_def by (elim hex_pad_value) simp

lemma read_ascii_escape:
  assumes "scalar c" and "rest \<noteq> []"
  shows "read_escape (ascii_escape c @ rest) = (c, rest)"
proof -
  consider (special) "c \<in> {34, 92, 10, 13, 9, 12, 8}"
    | (plain) "c \<notin> {34, 92, 10, 13, 9, 12, 8}" "32 \<le> c" "c < 127"
    | (bmp) "c \<notin> {34, 92, 10, 13, 9, 12, 8}" "c < 32 \<or> 127 \<le> c" "c < 65536"
    | (astral) "65536 \<le> c" by force
  then show ?thesis
  proof cases
    case special
    then show ?thesis by (auto simp: ascii_escape_def)
  next
    case plain
    then show ?thesis using assms(2) by (cases rest) (auto simp: ascii_escape_def)
  next
    case bmp
    then have "ascii_escape c = hex4 c" by (auto simp: ascii_escape_def)
    moreover have "\<not> high_surrogate c" using assms(1) by (auto simp: high_surrogate_def scalar_def)
    ultimately show ?thesis using bmp by (simp add: read_hex4 join_surrogates_def)
  next
    case astral
    define h l where "h = 55296 + (c - 65536) div 1024" and "l = 56320 + (c - 65536) mod 1024"
    have "c < 1114112" using assms(1) astral by (auto simp: scalar_def)
    then have h: "high_surrogate h" "h < 65536"
      by (auto simp: high_surrogate_def h_def div_less_iff_less_mult)
    have l: "l < 65536" by (simp add: l_def)
    have "(c - 65536) div 1024 * 1024 + (c - 65536) mod 1024 = c - 65536" by (rule div_mult_mod_eq)
    then have c: "65536 + (h - 55296) * 1024 + (l - 56320) = c"
      using astral by (simp add: h_def l_def)
    have "ascii_escape c = hex4 h @ hex4 l" using astral by (simp add: ascii_escape_def h_def l_def)
    moreover obtain x y z w where "hex4 l = [92, 117, x, y, z, w]" "hex_value4 x y z w = l"
      using l unfolding hex4_def by (elim hex_pad_value) simp
    ultimately show ?thesis using h c by (simp add: read_hex4 join_surrogates_def)
  qed
qed

lemma ascii_escape_hd: "ascii_escape c \<noteq> [] \<and> hd (ascii_escape c) \<noteq> 34"
  by (simp add: ascii_escape_def hex4_def)

lemma escapes_prefix_free:
  assumes "list_all scalar s" and "list_all scalar t"
    and "concat (map ascii_escape s) @ 34 # r = concat (map ascii_escape t) @ 34 # r'"
  shows "s = t \<and> r = r'"
  using assms
proof (induction s arbitrary: t)
  case Nil
  then show ?case using ascii_escape_hd [of "hd t"] by (cases t) (auto simp: hd_append dest!: arg_cong [of _ _ hd])
next
  case (Cons c s)
  show ?case
  proof (cases t)
    case Nil
    then show ?thesis using Cons.prems ascii_escape_hd [of c]
      by (auto simp: hd_append dest!: arg_cong [of _ _ hd])
  next
    case t: (Cons d t')
    let ?r = "concat (map ascii_escape s) @ 34 # r" and ?r' = "concat (map ascii_escape t') @ 34 # r'"
    have "ascii_escape c @ ?r = ascii_escape d @ ?r'" using Cons.prems(3) by (simp add: t)
    then have "read_escape (ascii_escape c @ ?r) = read_escape (ascii_escape d @ ?r')" by (rule arg_cong)
    then have "c = d \<and> ?r = ?r'"
      using Cons.prems(1,2) by (simp add: t read_ascii_escape)
    then show ?thesis using Cons by (auto simp: t)
  qed
qed

lemma json_quote_prefix_free:
  "list_all scalar s \<Longrightarrow> list_all scalar t \<Longrightarrow> json_quote s @ r = json_quote t @ r' \<Longrightarrow> s = t \<and> r = r'"
  using escapes_prefix_free [of s t r r'] by (simp add: json_quote_def)


subsection \<open>Encodings are prefix-free\<close>

fun enc_scalar :: "enc \<Rightarrow> bool" where
  "enc_scalar (EStr s) = list_all scalar s"
| "enc_scalar (EBool b) = True"
| "enc_scalar (EList es) = list_all enc_scalar es"

fun tail_text :: "enc list \<Rightarrow> ustring \<Rightarrow> ustring" where
  "tail_text [] r = 93 # r"
| "tail_text (e # es) r = 44 # dumps e @ tail_text es r"

definition list_text :: "enc list \<Rightarrow> ustring \<Rightarrow> ustring" where
  "list_text es r = (case es of [] \<Rightarrow> 93 # r | e # es' \<Rightarrow> dumps e @ tail_text es' r)"

lemma list_text_join: "join_with [44] (map dumps es) @ 93 # r = list_text es r"
proof (cases es)
  case (Cons e es')
  have "join_with [44] (map dumps (e # es')) @ 93 # r = dumps e @ tail_text es' r"
    by (induction es' arbitrary: e) simp_all
  with Cons show ?thesis by (simp add: list_text_def)
qed (simp add: list_text_def)

lemma dumps_list: "dumps (EList es) @ r = 91 # list_text es r"
  using list_text_join [of es r] by simp

definition enc_hd :: "enc \<Rightarrow> nat" where
  "enc_hd e = (case e of EStr s \<Rightarrow> 34 | EBool b \<Rightarrow> if b then 116 else 102 | EList es \<Rightarrow> 91)"

lemma dumps_cons: "\<exists>w. dumps e = enc_hd e # w"
  by (cases e) (simp_all add: json_quote_def ascii_def enc_hd_def)

lemma dumps_same_hd: "dumps e @ r = dumps e' @ r' \<Longrightarrow> enc_hd e = enc_hd e'"
  using dumps_cons [of e] dumps_cons [of e'] by auto

lemma enc_hd_not_close: "enc_hd e \<noteq> 93"
  by (simp add: enc_hd_def split: enc.split)

lemma dumps_not_close: "dumps e @ r \<noteq> 93 # r'" "93 # r' \<noteq> dumps e @ r"
  using dumps_cons [of e] enc_hd_not_close [of e] by auto

lemma tail_text_prefix_free:
  assumes "\<And>e e' r r'. e \<in> set es \<Longrightarrow> enc_scalar e' \<Longrightarrow> dumps e @ r = dumps e' @ r' \<Longrightarrow> e = e' \<and> r = r'"
    and "list_all enc_scalar fs" and "tail_text es r = tail_text fs r'"
  shows "es = fs \<and> r = r'"
  using assms
proof (induction es arbitrary: fs)
  case Nil
  then show ?case by (cases fs) auto
next
  case (Cons e es)
  then obtain f gs where fs: "fs = f # gs" by (cases fs) auto
  have "dumps e @ tail_text es r = dumps f @ tail_text gs r'" "enc_scalar f"
    using Cons.prems(2,3) by (simp_all add: fs)
  then have head: "e = f \<and> tail_text es r = tail_text gs r'" by (intro Cons.prems(1)) simp_all
  have "es = gs \<and> r = r'"
  proof (rule Cons.IH)
    show "list_all enc_scalar gs" using Cons.prems(2) by (simp add: fs)
    show "tail_text es r = tail_text gs r'" using head ..
  qed (rule Cons.prems(1), auto)
  then show ?case using head by (simp add: fs)
qed

lemma list_text_prefix_free:
  assumes "\<And>e e' r r'. e \<in> set es \<Longrightarrow> enc_scalar e' \<Longrightarrow> dumps e @ r = dumps e' @ r' \<Longrightarrow> e = e' \<and> r = r'"
    and "list_all enc_scalar fs" and "list_text es r = list_text fs r'"
  shows "es = fs \<and> r = r'"
proof (cases es)
  case Nil
  then show ?thesis using assms(3) by (cases fs) (simp_all add: list_text_def dumps_not_close)
next
  case es: (Cons e es')
  then obtain f fs' where fs: "fs = f # fs'"
    using assms(3) by (cases fs) (simp_all add: list_text_def dumps_not_close)
  have "dumps e @ tail_text es' r = dumps f @ tail_text fs' r'" "enc_scalar f"
    using assms(2,3) by (simp_all add: es fs list_text_def)
  then have "e = f \<and> tail_text es' r = tail_text fs' r'" by (intro assms(1)) (simp_all add: es)
  moreover have "es' = fs' \<and> r = r'" if "tail_text es' r = tail_text fs' r'"
  proof (rule tail_text_prefix_free [OF _ _ that])
    show "list_all enc_scalar fs'" using assms(2) by (simp add: fs)
  qed (rule assms(1), auto simp: es)
  ultimately show ?thesis by (simp add: es fs)
qed

lemma dumps_prefix_free:
  "enc_scalar e \<Longrightarrow> enc_scalar e' \<Longrightarrow> dumps e @ r = dumps e' @ r' \<Longrightarrow> e = e' \<and> r = r'"
proof (induction e arbitrary: e' r r')
  case (EStr s)
  have "enc_hd e' = 34" using dumps_same_hd [OF EStr.prems(3)] by (simp add: enc_hd_def)
  then obtain t where e': "e' = EStr t" by (cases e') (auto simp: enc_hd_def split: if_splits)
  show ?case using EStr json_quote_prefix_free [of s t r r'] by (simp add: e')
next
  case (EBool b)
  have "enc_hd e' = (if b then 116 else 102)"
    using dumps_same_hd [OF EBool.prems(3)] by (simp add: enc_hd_def)
  then have e': "e' = EBool b" by (cases e') (auto simp: enc_hd_def split: if_splits)
  show ?case using EBool.prems(3) by (simp only: e' same_append_eq)
next
  case (EList es)
  have "enc_hd e' = 91" using dumps_same_hd [OF EList.prems(3)] by (simp add: enc_hd_def)
  then obtain fs where fs: "e' = EList fs" by (cases e') (auto simp: enc_hd_def split: if_splits)
  have "list_text es r = list_text fs r'"
    using EList.prems(3) unfolding fs dumps_list by simp
  moreover have "e = f \<and> q = q'"
    if "e \<in> set es" "enc_scalar f" "dumps e @ q = dumps f @ q'" for e f q q'
    using EList.prems(1) that by (intro EList.IH) (auto simp: list_all_iff)
  moreover have "list_all enc_scalar fs" using EList.prems(2) by (simp add: fs)
  ultimately have "es = fs \<and> r = r'" by (intro list_text_prefix_free)
  then show ?case by (simp add: fs)
qed

lemma dumps_inject: "enc_scalar e \<Longrightarrow> enc_scalar e' \<Longrightarrow> dumps e = dumps e' \<longleftrightarrow> e = e'"
  using dumps_prefix_free [of e e' "[]" "[]"] by auto

end
