(* ===== verification/FingerprintSpec.thy ===== *)
theory FingerprintSpec
  imports FingerprintText SchemaSpec
begin

text \<open>
  What the encoding of a value determines: numbers have the same key exactly when they are equal,
  and two values have the same encoding exactly when they denote the same JSON value.
\<close>

subsection \<open>Canonical numbers\<close>

lemma drop_zeros_digits:
  "0 < c \<Longrightarrow> \<exists>c' k. drop_zeros (rev (digits10 c)) e = (rev (digits10 c'), e + int k) \<and>
     c = c' * 10 ^ k \<and> \<not> 10 dvd c'"
proof (induction c arbitrary: e rule: digits10.induct)
  case (1 c)
  show ?case
  proof (cases "10 dvd c")
    case True
    with "1.prems" have big: "\<not> c < 10" by (auto simp: dvd_imp_le)
    with "1.prems" "1.IH" [OF this, of "e + 1"] obtain c' k where
      ck: "drop_zeros (rev (digits10 (c div 10))) (e + 1) = (rev (digits10 c'), e + 1 + int k)"
      "c div 10 = c' * 10 ^ k" "\<not> 10 dvd c'" by (auto simp: div_greater_zero_iff)
    have "c = c' * 10 ^ Suc k" using ck(2) True by (metis dvd_mult_div_cancel mult.assoc mult.commute power_Suc)
    moreover have "drop_zeros (rev (digits10 c)) e = (rev (digits10 c'), e + int (Suc k))"
      using ck(1) True big by (simp add: digits10.simps [of c] dvd_eq_mod_eq_0)
    ultimately show ?thesis using ck(3) by blast
  next
    case False
    then have "c mod 10 \<noteq> 0" by (simp add: dvd_eq_mod_eq_0)
    moreover obtain ds where "rev (digits10 c) = c mod 10 # ds"
      by (cases "c < 10") (simp_all add: digits10.simps [of c])
    ultimately have "drop_zeros (rev (digits10 c)) e = (rev (digits10 c), e + int 0)"
      by (cases "c mod 10") simp_all
    moreover have "c = c * 10 ^ 0" by simp
    ultimately show ?thesis using False by blast
  qed
qed

lemma py_str_int_inject: "py_str_int i = py_str_int j \<longleftrightarrow> i = j"
proof -
  have no_sign: "45 # s \<noteq> py_str_nat n" for s n
  proof
    assume "45 # s = py_str_nat n"
    then have "45 \<in> set (py_str_nat n)" by (metis list.set_intros(1))
    then show False using py_str_nat_range by fastforce
  qed
  show ?thesis
    using no_sign no_sign [symmetric] by (auto simp: py_str_int_def nat_eq_iff2 split: if_splits)
qed

lemma separated_inject:
  "c \<notin> set u \<Longrightarrow> c \<notin> set u' \<Longrightarrow> u @ c # v = u' @ c # v' \<longleftrightarrow> u = u' \<and> v = v'"
proof (induction u arbitrary: u')
  case Nil
  then show ?case by (cases u') auto
next
  case (Cons x u)
  then show ?case by (cases u') auto
qed

lemma number_key_of_form:
  assumes "0 < c"
  obtains c' k where "number_key_of s c e =
      (if s then [49] else [48]) @ [58] @ py_str_nat c' @ [58] @ py_str_int (e + int k)"
    and "c = c' * 10 ^ k" and "\<not> 10 dvd c'"
proof -
  obtain c' k where ck: "drop_zeros (rev (digits10 c)) e = (rev (digits10 c'), e + int k)"
    "c = c' * 10 ^ k" "\<not> 10 dvd c'" using drop_zeros_digits [OF assms] by blast
  have "number_key_of s c e =
      (if s then [49] else [48]) @ [58] @ py_str_nat c' @ [58] @ py_str_int (e + int k)"
    by (simp add: number_key_of_def ck(1) py_str_nat_def)
  then show thesis using ck(2,3) by (rule that)
qed

lemma power_ten_unique:
  fixes c d :: nat
  assumes "\<not> 10 dvd c" and "\<not> 10 dvd d" and "(of_nat c :: rat) * 10 powi a = of_nat d * 10 powi b"
  shows "c = d \<and> a = b"
proof -
  have wlog: "c = d \<and> a = b"
    if "a \<le> b" "\<not> 10 dvd c" "(of_nat c :: rat) * 10 powi a = of_nat d * 10 powi b" for c d a b
  proof -
    have "(10 :: rat) powi b = 10 ^ nat (b - a) * 10 powi a"
      using power_int_add [of "10 :: rat" "b - a" a] that(1) by (simp add: power_int_def)
    then have "(of_nat c :: rat) = of_nat (d * 10 ^ nat (b - a))" using that(3) by simp
    then have c: "c = d * 10 ^ nat (b - a)" by (simp only: of_nat_eq_iff)
    with that(2) have "nat (b - a) = 0" by (metis dvd_triv_right dvd_mult dvd_power gr0I)
    with c that(1) show ?thesis by simp
  qed
  show ?thesis
  proof (cases "a \<le> b")
    case True
    then show ?thesis using wlog assms by blast
  next
    case False
    then have "d = c \<and> b = a" using wlog [of b a d c] assms by simp
    then show ?thesis by simp
  qed
qed

lemma number_key_iff:
  "number_key (DFin s c e) = number_key (DFin s' c' e') \<longleftrightarrow>
     scaled_value (dec_scaled s c e) = scaled_value (dec_scaled s' c' e')"
proof (cases "c = 0 \<or> c' = 0")
  case True
  have "number_key_of u d f \<noteq> [48]" for u d f
    by (simp add: number_key_of_def split: prod.split)
  with True show ?thesis by (auto simp: dec_scaled_def dest: sym)
next
  case False
  then obtain d k d' k' where
    d: "number_key_of s c e = (if s then [49] else [48]) @ [58] @ py_str_nat d @ [58] @ py_str_int (e + int k)"
      "c = d * 10 ^ k" "\<not> 10 dvd d" and
    d': "number_key_of s' c' e' = (if s' then [49] else [48]) @ [58] @ py_str_nat d' @ [58] @ py_str_int (e' + int k')"
      "c' = d' * 10 ^ k'" "\<not> 10 dvd d'"
    by (metis number_key_of_form gr0I)
  have sep: "58 \<notin> set (py_str_nat n)" for n using py_str_nat_range [of 58 n] by auto
  have "number_key (DFin s c e) = number_key (DFin s' c' e') \<longleftrightarrow>
      s = s' \<and> d = d' \<and> e + int k = e' + int k'"
    using False by (auto simp: d(1) d'(1) separated_inject [OF sep sep] py_str_int_inject split: if_splits)
  also have "\<dots> \<longleftrightarrow> s = s' \<and> (of_nat d :: rat) * 10 powi (e + int k) = of_nat d' * 10 powi (e' + int k')"
    using power_ten_unique [OF d(3) d'(3)] by auto
  also have "\<dots> \<longleftrightarrow> s = s' \<and> (of_nat c :: rat) * 10 powi e = of_nat c' * 10 powi e'"
    by (simp add: d(2) d'(2) power_int_add mult.assoc mult.commute [of "10 ^ _"])
  also have "\<dots> \<longleftrightarrow> scaled_value (dec_scaled s c e) = scaled_value (dec_scaled s' c' e')"
  proof -
    have pos: "0 < (of_nat c :: rat) * 10 powi e" "0 < (of_nat c' :: rat) * 10 powi e'"
      using False by simp_all
    show ?thesis using pos by (auto simp: dec_scaled_def)
  qed
  finally show ?thesis .
qed


subsection \<open>Encodings of values\<close>

text \<open>
  What the loader builds: exact finite numbers, text of Unicode scalar values, no key twice.
\<close>

fun exact_val :: "pyval \<Rightarrow> bool" where
  "exact_val (VStr s) = list_all scalar s"
| "exact_val (VFloat f) = False"
| "exact_val (VDec d) = dec_is_finite d"
| "exact_val (VList xs) = list_all exact_val xs"
| "exact_val (VDict kvs) = (distinct (dict_keys kvs) \<and> list_all (list_all scalar) (dict_keys kvs) \<and>
     list_all (\<lambda>(k, v). exact_val v) kvs)"
| "exact_val v = True"

lemma exact_member: "exact_val (VDict kvs) \<Longrightarrow> (k, v) \<in> set kvs \<Longrightarrow> exact_val v \<and> list_all scalar k"
  by (auto simp: list_all_iff)

lemma exact_get: "exact_val (VDict kvs) \<Longrightarrow> dict_get kvs k = Some v \<Longrightarrow> exact_val v \<and> list_all scalar k"
  by (rule exact_member) (auto dest: map_of_SomeD)

lemma exact_proper: "exact_val v \<Longrightarrow> proper v"
proof (induction v rule: measure_induct_rule [where f = size])
  case (less v)
  show ?case
  proof (cases v)
    case (VList xs)
    then show ?thesis using less size_list_member by (auto simp: proper_def list_all_iff simp del: pyval.size)
  next
    case (VDict kvs)
    then have "proper w" if "(k, w) \<in> set kvs" for k w
      using less that size_dict_member exact_member by blast
    with VDict less.prems show ?thesis by (auto simp: proper_def list_all_iff)
  qed (use less in \<open>auto simp: proper_def\<close>)
qed

lemma key_get: "k \<in> set (dict_keys kvs) \<Longrightarrow> \<exists>x. dict_get kvs k = Some x"
  using dict_has_iff [of kvs k] by (simp only: dict_has_def)

definition code :: "pyval \<Rightarrow> enc" where
  "code v = projr (encode False v)"

definition member_code :: "entries \<Rightarrow> ustring \<Rightarrow> enc" where
  "member_code kvs k = EList [EStr k, code (the (dict_get kvs k))]"

definition coded :: "pyval \<Rightarrow> bool" where
  "coded v \<longleftrightarrow> encode False v = Inr (code v) \<and> enc_scalar (code v)"

lemma codedI: "encode False v = Inr e \<Longrightarrow> enc_scalar e \<Longrightarrow> coded v"
  by (simp add: coded_def code_def)

lemma scalar_ascii: "list_all scalar (ascii s)"
  by (auto simp: list_all_iff scalar_def dest: ascii_less_256)

lemma enc_scalar_tagged [simp]: "enc_scalar (tagged t es) = list_all enc_scalar es"
  by (simp add: tagged_def scalar_ascii)

lemma tagged_inject [simp]: "tagged t es = tagged u fs \<longleftrightarrow> t = u \<and> es = fs"
  by (simp add: tagged_def)

lemma scalar_number_key: "number_key d = Inr s \<Longrightarrow> list_all scalar s"
proof -
  have nat: "list_all scalar (py_str_nat n)" for n
    by (auto simp: list_all_iff scalar_def dest: py_str_nat_range)
  then have int: "list_all scalar (py_str_int i)" for i
    by (auto simp: py_str_int_def scalar_def)
  have "list_all scalar (number_key_of b c e)" if pos: "0 < c" for b c e
  proof -
    obtain d f where "number_key_of b c e =
        (if b then [49] else [48]) @ [58] @ py_str_nat d @ [58] @ py_str_int f"
      by (rule number_key_of_form [OF pos])
    then show ?thesis by (simp add: nat int scalar_def)
  qed
  then show "number_key d = Inr s \<Longrightarrow> list_all scalar s"
    by (cases d) (auto simp: scalar_def scalar_ascii split: if_splits)
qed

lemma encode_list:
  assumes "\<And>x. x \<in> set xs \<Longrightarrow> coded x"
  shows "encode False (VList xs) = Inr (tagged ''array'' [EList (map code xs)])"
proof -
  have "mapR (encode False) xs = Inr (map code xs)"
    using assms by (intro mapR_pure) (simp add: coded_def)
  then show ?thesis by (simp add: encode.simps [of False "VList xs"])
qed

text \<open>The branches of \<open>encode\<close> on one member of a dictionary.\<close>

definition member_encoding :: "bool \<Rightarrow> ustring \<Rightarrow> pyval \<Rightarrow> enc result" where
  "member_encoding schema_node key child =
     (if schema_node \<and> key = ascii ''properties'' then
        bindR (children_of child) (\<lambda>ps.
        bindR (mapR (\<lambda>name.
            case dict_get ps name of
              None \<Rightarrow> Inl KeyError
            | Some grandchild \<Rightarrow>
                bindR (encode True grandchild) (\<lambda>e. Inr (EList [EStr name, e])))
          (sort (dict_keys ps))) (\<lambda>es.
        Inr (tagged ''object'' [EList es])))
      else if schema_node \<and> key = ascii ''items'' then encode True child
      else if schema_node \<and> key \<in> set SCHEMA_UNORDERED_ARRAYS then
        bindR (py_iter child) (\<lambda>items.
        bindR (mapR (encode False) items) (\<lambda>es.
        Inr (tagged ''array'' [EList (sort_key dumps es)])))
      else encode False child)"

lemma encode_VDict:
  assumes "\<And>k. k \<in> set (encoded_keys b kvs) \<Longrightarrow> member_encoding b k (the (dict_get kvs k)) = Inr (f k)"
  shows "encode b (VDict kvs) =
    Inr (tagged ''object'' [EList (map (\<lambda>k. EList [EStr k, f k]) (encoded_keys b kvs))])"
proof -
  have "mapR (\<lambda>key. case dict_get kvs key of None \<Rightarrow> Inl KeyError
          | Some child \<Rightarrow> bindR (member_encoding b key child) (\<lambda>e. Inr (EList [EStr key, e])))
        (encoded_keys b kvs) = Inr (map (\<lambda>k. EList [EStr k, f k]) (encoded_keys b kvs))"
  proof (rule mapR_pure)
    fix k
    assume k: "k \<in> set (encoded_keys b kvs)"
    then obtain x where x: "dict_get kvs k = Some x" using key_get [of k kvs] by (auto simp: encoded_keys_def)
    with assms [OF k]
    show "(case dict_get kvs k of None \<Rightarrow> Inl KeyError
        | Some child \<Rightarrow> bindR (member_encoding b k child) (\<lambda>e. Inr (EList [EStr k, e]))) =
        Inr (EList [EStr k, f k])" by simp
  qed
  then show ?thesis
    unfolding encode.simps [of b "VDict kvs"] pyval.case member_encoding_def by simp
qed

lemma encode_dict:
  assumes "\<And>k x. dict_get kvs k = Some x \<Longrightarrow> coded x"
  shows "encode False (VDict kvs) =
    Inr (tagged ''object'' [EList (map (member_code kvs) (sort (dict_keys kvs)))])"
proof -
  have "encoded_keys False kvs = sort (dict_keys kvs)" by (simp add: encoded_keys_def)
  moreover have "member_encoding False k (the (dict_get kvs k)) = Inr (code (the (dict_get kvs k)))"
    if "k \<in> set (dict_keys kvs)" for k
    using assms key_get [OF that] by (auto simp: member_encoding_def coded_def)
  ultimately show ?thesis
    using encode_VDict [of False kvs "\<lambda>k. code (the (dict_get kvs k))"] by (simp add: member_code_def [abs_def])
qed

lemma encode_number:
  assumes "number_key d = Inr n"
  shows "encode False (VDec d) = Inr (tagged ''number'' [EStr n])"
    and "d = decimal_of_int i \<Longrightarrow> encode False (VInt i) = Inr (tagged ''number'' [EStr n])"
  using assms by (simp_all add: encode.simps)

lemma exact_coded: "exact_val v \<Longrightarrow> coded v"
proof (induction v rule: measure_induct_rule [where f = size])
  case (less v)
  show ?case
  proof (cases v)
    case (VList xs)
    then have "coded x" if "x \<in> set xs" for x
      using less that size_list_member by (auto simp: list_all_iff simp del: pyval.size)
    then show ?thesis unfolding VList by (intro codedI [OF encode_list]) (auto simp: list_all_iff coded_def)
  next
    case (VDict kvs)
    have coded: "coded x" if "dict_get kvs k = Some x" for k x
      using less that size_dict_get exact_get unfolding VDict by blast
    have "enc_scalar (member_code kvs k)" if k: "k \<in> set (dict_keys kvs)" for k
    proof -
      obtain x where x: "dict_get kvs k = Some x"
        using key_get [OF k] by blast
      then have "coded x \<and> list_all scalar k" using coded exact_get less.prems unfolding VDict by blast
      with x show ?thesis by (simp add: member_code_def coded_def)
    qed
    then show ?thesis unfolding VDict by (intro codedI [OF encode_dict] coded) (auto simp: list_all_iff)
  next
    case (VInt i)
    obtain n where n: "number_key (decimal_of_int i) = Inr n" by (simp add: decimal_of_int_def)
    then show ?thesis unfolding VInt
      by (intro codedI [OF encode_number(2) [OF n refl]]) (simp add: scalar_number_key)
  next
    case (VDec d)
    then obtain n where n: "number_key d = Inr n" using less.prems by (cases d) auto
    then show ?thesis unfolding VDec
      by (intro codedI [OF encode_number(1) [OF n]]) (simp add: scalar_number_key)
  qed (use less.prems in \<open>auto intro!: codedI simp: encode.simps\<close>)
qed

text \<open>Equal encodings are equal values.\<close>

lemma keyed_inject:
  "map (\<lambda>k. EList [EStr k, f k]) ks = map (\<lambda>k. EList [EStr k, g k]) ls \<longleftrightarrow>
     ks = ls \<and> (\<forall>k \<in> set ks. f k = g k)"
proof (induction ks arbitrary: ls)
  case Nil
  then show ?case by auto
next
  case (Cons k ks)
  then show ?case by (cases ls) auto
qed

lemma sorted_keys_eq:
  "distinct (dict_keys kvs) \<Longrightarrow> distinct (dict_keys lvs) \<Longrightarrow>
     sort (dict_keys kvs) = sort (dict_keys lvs) \<longleftrightarrow> set (dict_keys kvs) = set (dict_keys lvs)"
proof
  assume "sort (dict_keys kvs) = sort (dict_keys lvs)"
  then have "set (sort (dict_keys kvs)) = set (sort (dict_keys lvs))" by (rule arg_cong)
  then show "set (dict_keys kvs) = set (dict_keys lvs)" by (simp only: set_sort)
qed (rule sorted_distinct_set_unique, simp_all)

lemma code_list: "exact_val (VList xs) \<Longrightarrow> code (VList xs) = tagged ''array'' [EList (map code xs)]"
  by (simp add: code_def [of "VList xs"] encode_list exact_coded list_all_iff)

lemma code_dict:
  "exact_val (VDict kvs) \<Longrightarrow> code (VDict kvs) =
     tagged ''object'' [EList (map (\<lambda>k. EList [EStr k, code (the (dict_get kvs k))]) (sort (dict_keys kvs)))]"
  using exact_get exact_coded
  by (subst code_def) (subst encode_dict, blast, simp add: member_code_def [abs_def])

lemma code_number:
  assumes "exact_val v" and "is_numeric v" and "\<not> is_bool v"
  obtains s c e n where "number_key (DFin s c e) = Inr n" and "code v = tagged ''number'' [EStr n]"
    and "denote v = JNum (scaled_value (dec_scaled s c e))"
proof (cases v)
  case (VInt i)
  obtain n where n: "number_key (decimal_of_int i) = Inr n" by (simp add: decimal_of_int_def)
  have "denote v = JNum (scaled_value (dec_scaled (i < 0) (nat \<bar>i\<bar>) 0))"
    by (simp add: VInt dec_scaled_def)
  then show ?thesis
    using that [of "i < 0" "nat \<bar>i\<bar>" 0 n] n encode_number(2) [OF n refl]
    by (simp add: VInt code_def decimal_of_int_def)
next
  case (VDec d)
  then obtain s c e where d: "d = DFin s c e" using assms(1) by (cases d) auto
  obtain n where n: "number_key d = Inr n" by (simp add: d)
  then show ?thesis
    using that [of s c e n] encode_number(1) [OF n] by (simp add: VDec code_def d)
qed (use assms in \<open>auto simp: is_numeric_def\<close>)

lemma code_plain:
  "code VNone = tagged ''null'' []" "code (VBool b) = tagged ''boolean'' [EBool b]"
  "code (VStr s) = tagged ''string'' [EStr s]"
  by (simp_all add: code_def encode.simps)

lemma jmap_eq_iff:
  "distinct (dict_keys kvs) \<Longrightarrow> distinct (dict_keys lvs) \<Longrightarrow> jmap kvs = jmap lvs \<longleftrightarrow>
     set (dict_keys kvs) = set (dict_keys lvs) \<and>
     (\<forall>k \<in> set (dict_keys kvs). denote (the (dict_get kvs k)) = denote (the (dict_get lvs k)))"
proof -
  have "jmap kvs = jmap lvs \<longleftrightarrow> dom (jmap kvs) = dom (jmap lvs) \<and>
      (\<forall>k \<in> dom (jmap kvs). jmap kvs k = jmap lvs k)"
    by (metis domIff map_le_antisym map_le_def)
  moreover have "jmap kvs k = Some (denote (the (dict_get kvs k)))" if "k \<in> dom (jmap kvs)" for kvs k
    using that by (auto simp: jmap_def)
  ultimately show ?thesis unfolding keys_jmap by (metis option.inject)
qed

lemma code_denote:
  "exact_val v \<Longrightarrow> exact_val w \<Longrightarrow> code v = code w \<longleftrightarrow> denote v = denote w"
proof (induction v arbitrary: w rule: measure_induct_rule [where f = size])
  case (less v)
  consider (lists) xs ys where "v = VList xs" "w = VList ys"
    | (dicts) kvs lvs where "v = VDict kvs" "w = VDict lvs"
    | (numbers) "is_numeric v" "\<not> is_bool v" "is_numeric w" "\<not> is_bool w"
    | (other) "\<not> (is_list v \<and> is_list w)" "\<not> (is_dict v \<and> is_dict w)"
       "\<not> (is_numeric v \<and> \<not> is_bool v \<and> is_numeric w \<and> \<not> is_bool w)"
    by (metis is_dict.elims(2) is_list.elims(2))
  then show ?case
  proof cases
    case lists
    have "code a = code b \<longleftrightarrow> denote a = denote b" if "a \<in> set xs" "b \<in> set ys" for a b
      using less that size_list_member [of a xs] unfolding lists by (auto simp: list_all_iff)
    then have "list_all2 (\<lambda>a b. code a = code b) xs ys \<longleftrightarrow> list_all2 (\<lambda>a b. denote a = denote b) xs ys"
      by (intro list.rel_cong refl) auto
    then have "map code xs = map code ys \<longleftrightarrow> map denote xs = map denote ys"
      by (simp add: list_all2_map1 list_all2_map2 list_all2_eq)
    then show ?thesis using less.prems by (simp add: lists code_list)
  next
    case dicts
    have d: "distinct (dict_keys kvs)" "distinct (dict_keys lvs)" using less.prems by (simp_all add: dicts)
    have IH: "code (the (dict_get kvs k)) = code (the (dict_get lvs k)) \<longleftrightarrow>
        denote (the (dict_get kvs k)) = denote (the (dict_get lvs k))"
      if k: "k \<in> set (dict_keys kvs)" "k \<in> set (dict_keys lvs)" for k
    proof -
      obtain a b where ab: "dict_get kvs k = Some a" "dict_get lvs k = Some b"
        using key_get [OF k(1)] key_get [OF k(2)] by blast
      then have "size a < size v" "exact_val a" "exact_val b"
        using size_dict_get exact_get less.prems unfolding dicts by blast+
      with less.IH ab show ?thesis by simp
    qed
    have "code v = code w \<longleftrightarrow> set (dict_keys kvs) = set (dict_keys lvs) \<and>
        (\<forall>k \<in> set (dict_keys kvs). code (the (dict_get kvs k)) = code (the (dict_get lvs k)))"
      using less.prems unfolding dicts
      by (simp only: code_dict tagged_inject list.inject enc.inject keyed_inject sorted_keys_eq [OF d]
          set_sort) simp
    also have "\<dots> \<longleftrightarrow> jmap kvs = jmap lvs" unfolding jmap_eq_iff [OF d] using IH by blast
    finally show ?thesis unfolding dicts denote_VDict by simp
  next
    case numbers
    from less.prems(1) numbers(1,2) obtain s c e n where v: "number_key (DFin s c e) = Inr n"
      "code v = tagged ''number'' [EStr n]" "denote v = JNum (scaled_value (dec_scaled s c e))"
      by (rule code_number)
    from less.prems(2) numbers(3,4) obtain s' c' e' n' where w: "number_key (DFin s' c' e') = Inr n'"
      "code w = tagged ''number'' [EStr n']" "denote w = JNum (scaled_value (dec_scaled s' c' e'))"
      by (rule code_number)
    have "n = n' \<longleftrightarrow> number_key (DFin s c e) = number_key (DFin s' c' e')"
      unfolding v(1) w(1) by simp
    then show ?thesis unfolding v(2,3) w(2,3) number_key_iff by simp
  next
    case other
    have tag: "\<exists>es. code u = tagged (case u of VNone \<Rightarrow> ''null'' | VBool b \<Rightarrow> ''boolean'' | VStr s \<Rightarrow> ''string''
        | VList xs \<Rightarrow> ''array'' | VDict kvs \<Rightarrow> ''object'' | _ \<Rightarrow> ''number'') es" if u: "exact_val u" for u
    proof (cases "is_numeric u \<and> \<not> is_bool u")
      case True
      then obtain n where "code u = tagged ''number'' [EStr n]" using code_number [OF u] by metis
      with True show ?thesis by (cases u) (auto simp: is_numeric_def)
    next
      case False
      then show ?thesis using u by (cases u) (auto simp: code_plain code_list code_dict is_numeric_def
          simp del: exact_val.simps)
    qed
    show ?thesis using tag [OF less.prems(1)] tag [OF less.prems(2)] other
      by (cases v; cases w; simp add: code_plain is_numeric_def num_denote_shape num_denote_shape [symmetric])
        auto
  qed
qed

end
