(* ===== verification/ValidationSpec.thy ===== *)
theory ValidationSpec
  imports InstanceValidation
begin

text \<open>
  The contract of \<open>validate_instance\<close>. \<open>violates\<close> is the JSON Schema semantics of the profile's
  keywords on JSON values: which keyword an instance breaks, and at which pointer. On every schema
  of the profile the walk raises nothing and reports exactly these violations, up to the bound.
\<close>

subsection \<open>Violations of a schema\<close>

definition pattern_holds :: "ustring \<Rightarrow> ustring \<Rightarrow> bool" where
  "pattern_holds p s \<longleftrightarrow>
     p = IDENTIFIER_PATTERN \<and> s \<noteq> [] \<and> ascii_alnum (hd s) \<and> (\<forall>c \<in> set s. identifier_char c) \<or>
     p = CONTROL_SAFE_PATTERN \<and> s \<noteq> [] \<and> (\<forall>c \<in> set s. control_safe_char c)"

definition typed :: "(ustring \<Rightarrow> jval option) \<Rightarrow> jval \<Rightarrow> bool" where
  "typed m v \<longleftrightarrow> (\<exists>t. m (ascii ''type'') = Some (JStr t) \<and> jtype_holds t v)"

inductive violates :: "jval \<Rightarrow> jval \<Rightarrow> ustring \<Rightarrow> violation \<Rightarrow> bool" where
  bad_type:
    "m (ascii ''type'') = Some (JStr t) \<Longrightarrow> \<not> jtype_holds t v \<Longrightarrow>
     violates (JObj m) v p (ascii ''type'', p)"
| bad_enum:
    "typed m v \<Longrightarrow> m (ascii ''enum'') = Some (JArr vs) \<Longrightarrow> v \<notin> set vs \<Longrightarrow>
     violates (JObj m) v p (ascii ''enum'', p)"
| bad_const:
    "typed m v \<Longrightarrow> m (ascii ''const'') = Some c \<Longrightarrow> c \<noteq> v \<Longrightarrow>
     violates (JObj m) v p (ascii ''const'', p)"
| bad_required:
    "typed m (JObj ob) \<Longrightarrow> m (ascii ''required'') = Some (JArr ns) \<Longrightarrow> JStr n \<in> set ns \<Longrightarrow>
     ob n = None \<Longrightarrow> violates (JObj m) (JObj ob) p (ascii ''required'', p)"
| bad_member:
    "typed m (JObj ob) \<Longrightarrow> m (ascii ''properties'') = Some (JObj ps) \<Longrightarrow> ob n = Some c \<Longrightarrow>
     ps n = None \<Longrightarrow> violates (JObj m) (JObj ob) p (ascii ''additionalProperties'', p)"
| in_member:
    "typed m (JObj ob) \<Longrightarrow> m (ascii ''properties'') = Some (JObj ps) \<Longrightarrow> ob n = Some c \<Longrightarrow>
     ps n = Some s \<Longrightarrow> violates s c (pointer_join p (Name n)) x \<Longrightarrow>
     violates (JObj m) (JObj ob) p x"
| bad_minItems:
    "typed m (JArr vs) \<Longrightarrow> m (ascii ''minItems'') = Some (JNum q) \<Longrightarrow> of_nat (length vs) < q \<Longrightarrow>
     violates (JObj m) (JArr vs) p (ascii ''minItems'', p)"
| bad_maxItems:
    "typed m (JArr vs) \<Longrightarrow> m (ascii ''maxItems'') = Some (JNum q) \<Longrightarrow> q < of_nat (length vs) \<Longrightarrow>
     violates (JObj m) (JArr vs) p (ascii ''maxItems'', p)"
| in_item:
    "typed m (JArr vs) \<Longrightarrow> m (ascii ''items'') = Some s \<Longrightarrow> i < length vs \<Longrightarrow>
     violates s (vs ! i) (pointer_join p (Index i)) x \<Longrightarrow> violates (JObj m) (JArr vs) p x"
| bad_minLength:
    "typed m (JStr s) \<Longrightarrow> m (ascii ''minLength'') = Some (JNum q) \<Longrightarrow> of_nat (length s) < q \<Longrightarrow>
     violates (JObj m) (JStr s) p (ascii ''minLength'', p)"
| bad_maxLength:
    "typed m (JStr s) \<Longrightarrow> m (ascii ''maxLength'') = Some (JNum q) \<Longrightarrow> q < of_nat (length s) \<Longrightarrow>
     violates (JObj m) (JStr s) p (ascii ''maxLength'', p)"
| bad_pattern:
    "typed m (JStr s) \<Longrightarrow> m (ascii ''pattern'') = Some (JStr r) \<Longrightarrow> \<not> pattern_holds r s \<Longrightarrow>
     violates (JObj m) (JStr s) p (ascii ''pattern'', p)"
| bad_minimum:
    "typed m (JNum x) \<Longrightarrow> m (ascii ''minimum'') = Some (JNum q) \<Longrightarrow> x < q \<Longrightarrow>
     violates (JObj m) (JNum x) p (ascii ''minimum'', p)"
| bad_maximum:
    "typed m (JNum x) \<Longrightarrow> m (ascii ''maximum'') = Some (JNum q) \<Longrightarrow> q < x \<Longrightarrow>
     violates (JObj m) (JNum x) p (ascii ''maximum'', p)"

inductive_cases violatesE: "violates (JObj m) v p x"

definition violation_set :: "jval \<Rightarrow> jval \<Rightarrow> ustring \<Rightarrow> violation set" where
  "violation_set s v p = {x. violates s v p x}"

subsection \<open>The violations of one node, by type\<close>

definition failing :: "(ustring \<Rightarrow> jval option) \<Rightarrow> string \<Rightarrow> (jval \<Rightarrow> bool) \<Rightarrow> ustring \<Rightarrow> violation set" where
  "failing m keyword bad p = {x. x = (ascii keyword, p) \<and> (\<exists>j. m (ascii keyword) = Some j \<and> bad j)}"

definition value_failures :: "(ustring \<Rightarrow> jval option) \<Rightarrow> jval \<Rightarrow> ustring \<Rightarrow> violation set" where
  "value_failures m v p =
     failing m ''enum'' (\<lambda>j. \<exists>vs. j = JArr vs \<and> v \<notin> set vs) p \<union> failing m ''const'' (\<lambda>j. j \<noteq> v) p"

definition above :: "rat \<Rightarrow> jval \<Rightarrow> bool" where
  "above x j \<longleftrightarrow> (\<exists>q. j = JNum q \<and> x < q)"

definition below :: "rat \<Rightarrow> jval \<Rightarrow> bool" where
  "below x j \<longleftrightarrow> (\<exists>q. j = JNum q \<and> q < x)"

lemma violations_mistyped:
  assumes "m (ascii ''type'') = Some (JStr t)" and "\<not> jtype_holds t v"
  shows "violation_set (JObj m) v p = {(ascii ''type'', p)}"
proof -
  have "\<not> typed m v" using assms by (simp add: typed_def)
  then show ?thesis
    using assms by (auto simp: violation_set_def elim: violatesE intro: bad_type)
qed

abbreviation missing_violations ::
  "(ustring \<Rightarrow> jval option) \<Rightarrow> (ustring \<Rightarrow> jval option) \<Rightarrow> ustring \<Rightarrow> violation set" where
  "missing_violations m ob p \<equiv> {x. x = (ascii ''required'', p) \<and>
     (\<exists>ns n. m (ascii ''required'') = Some (JArr ns) \<and> JStr n \<in> set ns \<and> ob n = None)}"

abbreviation member_violations ::
  "(ustring \<Rightarrow> jval option) \<Rightarrow> (ustring \<Rightarrow> jval option) \<Rightarrow> ustring \<Rightarrow> violation set" where
  "member_violations m ob p \<equiv> {x. \<exists>ps n c. m (ascii ''properties'') = Some (JObj ps) \<and> ob n = Some c \<and>
     (case ps n of None \<Rightarrow> x = (ascii ''additionalProperties'', p)
      | Some s \<Rightarrow> x \<in> violation_set s c (pointer_join p (Name n)))}"

lemma violations_object:
  assumes ty: "typed m (JObj ob)"
  shows "violation_set (JObj m) (JObj ob) p =
    value_failures m (JObj ob) p \<union>
    missing_violations m ob p \<union> member_violations m ob p" (is "_ = ?A \<union> ?B \<union> ?C")
proof (intro equalityI subsetI)
  fix x
  assume "x \<in> violation_set (JObj m) (JObj ob) p"
  then have "violates (JObj m) (JObj ob) p x" by (simp add: violation_set_def)
  then show "x \<in> ?A \<union> ?B \<union> ?C"
  proof (cases rule: violates.cases)
    case (bad_type t)
    then show ?thesis using ty by (simp add: typed_def)
  next
    case (bad_member ps n c)
    then have "x \<in> ?C" by (force split: option.split)
    then show ?thesis by blast
  next
    case (in_member ps n c s)
    then have "x \<in> ?C" by (force simp: violation_set_def split: option.split)
    then show ?thesis by blast
  qed (auto simp: value_failures_def failing_def)
next
  fix x
  assume "x \<in> ?A \<union> ?B \<union> ?C"
  then consider "x \<in> ?A" | "x \<in> ?B" | "x \<in> ?C" by blast
  then show "x \<in> violation_set (JObj m) (JObj ob) p"
  proof cases
    case 1
    then show ?thesis using ty
      by (auto simp: violation_set_def value_failures_def failing_def intro: bad_enum bad_const)
  next
    case 2
    then show ?thesis using ty by (auto simp: violation_set_def intro: bad_required)
  next
    case 3
    then obtain ps n c where "m (ascii ''properties'') = Some (JObj ps)" "ob n = Some c"
      "case ps n of None \<Rightarrow> x = (ascii ''additionalProperties'', p)
        | Some s \<Rightarrow> x \<in> violation_set s c (pointer_join p (Name n))" by blast
    then show ?thesis using ty
      by (cases "ps n") (auto simp: violation_set_def intro: bad_member in_member)
  qed
qed

lemma violations_array:
  assumes "typed m (JArr vs)"
  shows "violation_set (JObj m) (JArr vs) p =
    value_failures m (JArr vs) p \<union> failing m ''minItems'' (above (of_nat (length vs))) p \<union>
    failing m ''maxItems'' (below (of_nat (length vs))) p \<union>
    {x. \<exists>i s. i < length vs \<and> m (ascii ''items'') = Some s \<and>
       x \<in> violation_set s (vs ! i) (pointer_join p (Index i))}"
  using assms
  by (auto simp: violation_set_def value_failures_def failing_def typed_def above_def below_def
      elim!: violatesE intro: violates.intros)

lemma violations_string:
  assumes "typed m (JStr s)"
  shows "violation_set (JObj m) (JStr s) p =
    value_failures m (JStr s) p \<union> failing m ''minLength'' (above (of_nat (length s))) p \<union>
    failing m ''maxLength'' (below (of_nat (length s))) p \<union>
    failing m ''pattern'' (\<lambda>j. \<exists>r. j = JStr r \<and> \<not> pattern_holds r s) p"
  using assms
  by (auto simp: violation_set_def value_failures_def failing_def typed_def above_def below_def
      elim!: violatesE intro: violates.intros)

lemma violations_number:
  assumes "typed m (JNum q)"
  shows "violation_set (JObj m) (JNum q) p =
    value_failures m (JNum q) p \<union> failing m ''minimum'' (above q) p \<union>
    failing m ''maximum'' (below q) p"
  using assms
  by (auto simp: violation_set_def value_failures_def failing_def typed_def above_def below_def
      elim!: violatesE intro: violates.intros)

lemma violations_other:
  assumes "typed m v" and "v = JNull \<or> (\<exists>b. v = JBool b)"
  shows "violation_set (JObj m) v p = value_failures m v p"
  using assms
  by (auto simp: violation_set_def value_failures_def failing_def typed_def
      elim!: violatesE intro: violates.intros)


subsection \<open>What the checks of a node report\<close>

abbreviation "records \<equiv> reports MAX_VIOLATIONS"

lemma add_violation_records: "records (\<lambda>vs. Inr (add_violation v vs)) {v}"
  using violation_log.add_reports [of v] by simp

lemma check_keyword_records:
  assumes "\<And>b. dict_get kvs (ascii k) = Some b \<Longrightarrow> fails b = Inr (bad (denote b))"
  shows "records (check_keyword kvs k fails p) (failing (jmap kvs) k bad p)"
proof (cases "dict_get kvs (ascii k)")
  case None
  then show ?thesis
    using reports_pure by (simp add: check_keyword_def [abs_def] failing_def jmap_def fun_eq_iff reports_def)
next
  case (Some b)
  have "records (\<lambda>vs. if bad (denote b) then Inr (add_violation (ascii k, p) vs) else Inr vs)
      (if bad (denote b) then {(ascii k, p)} else {})"
    using add_violation_records reports_pure by (cases "bad (denote b)") (simp_all add: reports_def)
  then show ?thesis
    by (rule reports_cong [THEN reports_set, rotated])
      (auto simp: check_keyword_def Some assms failing_def jmap_def)
qed

lemma records_then:
  "records f X \<Longrightarrow> records g Y \<Longrightarrow> X \<union> Y = Z \<Longrightarrow> records (\<lambda>vs. bindR (f vs) g) Z"
  using reports_bind by fastforce

lemma enum_fails_denote:
  assumes "proper v" and "\<forall>i \<in> set items. proper i"
  shows "enum_fails v (VList items) = Inr (denote v \<notin> set (map denote items))"
  using assms by (auto simp: enum_fails_def list_ex_iff proper_def json_equal_iff_denote)

lemma const_fails_denote:
  "proper v \<Longrightarrow> proper c \<Longrightarrow> const_fails v c = Inr (denote c \<noteq> denote v)"
  by (auto simp: const_fails_def proper_def json_equal_iff_denote)

lemma py_lt_denote:
  assumes "denote a = JNum p" and "denote b = JNum q"
  shows "py_lt a b = Inr (p < q)"
proof -
  have "is_number_value a" "is_number_value b" using assms by (auto simp: is_number_denote)
  then obtain x y where "num_of a = Some (NumFin x)" "num_of b = Some (NumFin y)"
    "py_lt a b = Inr (scaled_value x < scaled_value y)" using py_lt_numbers by blast
  moreover have "scaled_value x = p" "scaled_value y = q"
    using calculation num_of_denote [OF assms(1)] num_of_denote [OF assms(2)] by auto
  ultimately show ?thesis by simp
qed

lemma length_value_denote: "denote (length_value xs) = JNum (of_nat (length xs))"
  by (simp add: length_value_def)

lemma above_fails:
  "denote v = JNum x \<Longrightarrow> \<exists>q. denote b = JNum q \<Longrightarrow> py_lt v b = Inr (above x (denote b))"
  by (auto simp: py_lt_denote above_def)

lemma below_fails:
  "denote v = JNum x \<Longrightarrow> \<exists>q. denote b = JNum q \<Longrightarrow> py_lt b v = Inr (below x (denote b))"
  by (auto simp: py_lt_denote below_def)

text \<open>A pair of limits, as the three kinds of bounds check them.\<close>

lemma limit_records:
  assumes v: "denote v = JNum x" and num: "\<And>j. jmap kvs (ascii k) = Some j \<Longrightarrow> \<exists>q. j = JNum q"
  shows "records (check_keyword kvs k (\<lambda>b. py_lt v b) p) (failing (jmap kvs) k (above x) p)"
    and "records (check_keyword kvs k (\<lambda>b. py_lt b v) p) (failing (jmap kvs) k (below x) p)"
  using num by (auto intro!: check_keyword_records above_fails [OF v] below_fails [OF v] simp: jmap_def)

lemma count_limits_num:
  "count_limits m low high \<Longrightarrow> m (ascii low) = Some j \<Longrightarrow> \<exists>q. j = JNum q"
  "count_limits m low high \<Longrightarrow> m (ascii high) = Some j \<Longrightarrow> \<exists>q. j = JNum q"
  "number_limits m low high \<Longrightarrow> m (ascii low) = Some j \<Longrightarrow> \<exists>q. j = JNum q"
  "number_limits m low high \<Longrightarrow> m (ascii high) = Some j \<Longrightarrow> \<exists>q. j = JNum q"
  unfolding count_limits_def number_limits_def by blast+

lemma audited_distinct: "IDENTIFIER_PATTERN \<noteq> CONTROL_SAFE_PATTERN"
  by code_simp

lemma pattern_fails_denote:
  assumes "denote b \<in> {JStr IDENTIFIER_PATTERN, JStr CONTROL_SAFE_PATTERN}"
  shows "pattern_fails s b = Inr (\<exists>r. denote b = JStr r \<and> \<not> pattern_holds r s)"
proof -
  have "re_search identifier_rx s = None \<longleftrightarrow> \<not> pattern_holds IDENTIFIER_PATTERN s"
    "re_search control_safe_rx s = None \<longleftrightarrow> \<not> pattern_holds CONTROL_SAFE_PATTERN s"
    using audited_distinct identifier_search [of s, symmetric] control_safe_search [of s, symmetric]
    by (simp_all add: pattern_holds_def del: not_None_eq not_Some_eq)
  then have "pattern_fails s (VStr r) = Inr (\<not> pattern_holds r s)"
    if "r \<in> {IDENTIFIER_PATTERN, CONTROL_SAFE_PATTERN}" for r
    using that audited_distinct by (auto simp: pattern_fails_def AUDITED_PATTERN_MATCHERS_def)
  then show ?thesis using assms by (auto simp: denote_shapes)
qed

lemma value_checks_records:
  assumes v: "proper v" and kvs: "wf_val (VDict kvs)" "nan_free (VDict kvs)"
    and allowed: "allowed_values t (jmap kvs)"
  shows "records (check_keyword kvs ''enum'' (enum_fails v) p)
      (failing (jmap kvs) ''enum'' (\<lambda>j. \<exists>vs. j = JArr vs \<and> denote v \<notin> set vs) p)" (is ?enum)
    and "records (check_keyword kvs ''const'' (const_fails v) p)
      (failing (jmap kvs) ''const'' (\<lambda>j. j \<noteq> denote v) p)" (is ?const)
proof -
  show ?enum
  proof (rule check_keyword_records)
    fix e
    assume e: "dict_get kvs (ascii ''enum'') = Some e"
    then obtain vs where "denote e = JArr vs"
      using allowed by (auto simp: allowed_values_def jmap_def)
    then obtain items where items: "e = VList items" by (auto simp: denote_shapes)
    moreover have "proper e" using kvs e by (rule proper_member)
    then have "\<forall>i \<in> set items. proper i" using items by (auto simp: proper_def list_all_iff)
    ultimately show "enum_fails v e = Inr (\<exists>vs. denote e = JArr vs \<and> denote v \<notin> set vs)"
      by (simp only: enum_fails_denote [OF v] denote.simps) simp
  qed
  show ?const
    by (rule check_keyword_records) (rule const_fails_denote [OF v proper_member [OF kvs]])
qed

lemma required_records:
  "records (check_required ovs p (map VStr names))
     {x. x = (ascii ''required'', p) \<and> (\<exists>n \<in> set names. \<not> dict_has ovs n)}"
proof -
  have "records (check_required ovs p (map VStr names))
      (\<Union>n \<in> set (map VStr names). if \<exists>k. n = VStr k \<and> \<not> dict_has ovs k
         then {(ascii ''required'', p)} else {})"
    unfolding check_required_def
  proof (rule reports_foldR)
    fix n
    assume "n \<in> set (map VStr names)"
    then obtain k where k: "n = VStr k" by auto
    show "records (\<lambda>vs. bindR (missing_key n ovs) (\<lambda>bad.
        Inr (if bad then add_violation (ascii ''required'', p) vs else vs)))
        (if \<exists>k. n = VStr k \<and> \<not> dict_has ovs k then {(ascii ''required'', p)} else {})"
      using add_violation_records [of "(ascii ''required'', p)"] reports_pure
      by (cases "dict_has ovs k") (simp_all add: k missing_key_def)
  qed
  then show ?thesis by (rule reports_set) auto
qed

lemma members_records:
  assumes "\<And>n c s. (n, c) \<in> set ovs \<Longrightarrow> dict_get ps n = Some s \<Longrightarrow>
    records (walk c s (pointer_join p (Name n))) (X n c s)"
  shows "records
    (foldR (\<lambda>(name, child) vs.
        bindR (py_contains (VDict ps) name) (\<lambda>known.
          if known then
            bindR (py_index (VDict ps) name) (\<lambda>s. walk child s (pointer_join p (Name name)) vs)
          else Inr (add_violation (ascii ''additionalProperties'', p) vs))) ovs)
    (\<Union>nc \<in> set ovs. case dict_get ps (fst nc) of
        None \<Rightarrow> {(ascii ''additionalProperties'', p)} | Some s \<Rightarrow> X (fst nc) (snd nc) s)"
proof (rule reports_foldR, clarify)
  fix n c
  assume nc: "(n, c) \<in> set ovs"
  show "records (\<lambda>vs. bindR (py_contains (VDict ps) n) (\<lambda>known.
          if known then
            bindR (py_index (VDict ps) n) (\<lambda>s. walk c s (pointer_join p (Name n)) vs)
          else Inr (add_violation (ascii ''additionalProperties'', p) vs)))
     (case dict_get ps (fst (n, c)) of
        None \<Rightarrow> {(ascii ''additionalProperties'', p)} | Some s \<Rightarrow> X (fst (n, c)) (snd (n, c)) s)"
  proof (cases "dict_get ps n")
    case None
    then have "\<not> dict_has ps n" by (simp add: dict_has_None)
    with None show ?thesis using add_violation_records by simp
  next
    case (Some s)
    then have "dict_has ps n" by (auto simp: dict_has_iff)
    with Some show ?thesis using assms [OF nc Some] by simp
  qed
qed

lemma items_records:
  assumes "\<And>i. i < length xs \<Longrightarrow> records (walk (xs ! i) s (pointer_join p (Index i))) (X i)"
  shows "records
    (foldR (\<lambda>(index, item) vs. bindR (Inr s) (\<lambda>s. walk item s (pointer_join p (Index index)) vs))
      (enumerate 0 xs))
    (\<Union>i \<in> {..<length xs}. X i)"
proof -
  have "records
    (foldR (\<lambda>(index, item) vs. bindR (Inr s) (\<lambda>s. walk item s (pointer_join p (Index index)) vs))
      (enumerate 0 xs))
    (\<Union>ix \<in> set (enumerate 0 xs). X (fst ix))"
    by (rule reports_foldR) (use assms in \<open>auto simp: in_set_enumerate_eq\<close>)
  moreover have eq: "fst ` set (enumerate 0 xs) = {..<length xs}"
    by (metis add_0 atLeast0LessThan list.set_map map_fst_enumerate set_upt)
  have "(\<Union>ix \<in> set (enumerate 0 xs). X (fst ix)) = (\<Union>i \<in> fst ` set (enumerate 0 xs). X i)"
    by (simp only: image_image)
  ultimately show ?thesis by (simp only: eq)
qed


subsection \<open>The whole walk\<close>

text \<open>A typed node of the profile, read back as the dictionary the walk sees.\<close>

lemma profile_node:
  assumes "schema_profile is_root depth (denote node)"
  obtains kvs t extra where "node = VDict kvs" "(t, extra) \<in> set type_keywords"
    "dict_get kvs (ascii ''type'') = Some (VStr (ascii t))"
    "jmap kvs (ascii ''type'') = Some (JStr (ascii t))"
    "allowed_values (ascii t) (jmap kvs)"
    "body_members (schema_profile False (depth + 1)) (jmap kvs)"
proof -
  obtain m where "denote node = JObj m" using assms schema_profile_object by blast
  then obtain kvs where kvs: "node = VDict kvs" by (auto simp: denote_shapes)
  then have "schema_profile is_root depth (JObj (jmap kvs))" using assms by (simp only: denote_VDict)
  then obtain t extra where t: "node_head is_root t extra (jmap kvs)" "(t, extra) \<in> set type_keywords"
    "body_members (schema_profile False (depth + 1)) (jmap kvs)"
    using node_decompose by blast
  then have ty: "jmap kvs (ascii ''type'') = Some (JStr (ascii t))" by (simp add: node_head_def)
  then have "dict_get kvs (ascii ''type'') = Some (VStr (ascii t))"
    by (auto simp: jmap_def denote_shapes)
  moreover have "allowed_values (ascii t) (jmap kvs)" using t by (simp add: node_head_def)
  ultimately show thesis using t(2,3) ty kvs by (intro that)
qed

lemma union_items:
  assumes "distinct (dict_keys ovs)"
  shows "(\<Union>nc \<in> set ovs. f (fst nc) (snd nc)) = {x. \<exists>n c. dict_get ovs n = Some c \<and> x \<in> f n c}"
proof -
  have "(n, c) \<in> set ovs \<longleftrightarrow> dict_get ovs n = Some c" for n c using assms by simp
  then show ?thesis by fastforce
qed

lemma object_records:
  assumes ps: "dict_get kvs (ascii ''properties'') = Some (VDict ps)"
      "distinct (dict_keys ps)"
    and names: "dict_get kvs (ascii ''required'') = Some (VList (map VStr names))"
    and ovs: "distinct (dict_keys ovs)"
    and walk: "\<And>n c s. (n, c) \<in> set ovs \<Longrightarrow> dict_get ps n = Some s \<Longrightarrow>
      records (walk c s (pointer_join p (Name n)))
        (violation_set (denote s) (denote c) (pointer_join p (Name n)))"
  shows "records (\<lambda>vs.
      bindR (py_index (VDict kvs) (ascii ''properties'')) (\<lambda>properties.
      bindR (py_index (VDict kvs) (ascii ''required'')) (\<lambda>required.
      bindR (py_iter required) (\<lambda>names.
      bindR (check_required ovs p names vs) (\<lambda>vs.
      foldR (\<lambda>(name, child) vs.
          bindR (py_contains properties name) (\<lambda>known.
            if known then
              bindR (py_index properties name) (\<lambda>s. walk child s (pointer_join p (Name name)) vs)
            else Inr (add_violation (ascii ''additionalProperties'', p) vs)))
        ovs vs)))))
    (missing_violations (jmap kvs) (jmap ovs) p \<union> member_violations (jmap kvs) (jmap ovs) p)" (is "records _ (?R \<union> ?M)")
proof -
  have req: "jmap kvs (ascii ''required'') = Some (JArr (map JStr names))"
    using names by (simp add: jmap_def comp_def)
  have props: "jmap kvs (ascii ''properties'') = Some (JObj (jmap ps))"
    using ps by (simp add: jmap_def [of kvs] denote_VDict del: denote.simps(8))
  have "{x. x = (ascii ''required'', p) \<and> (\<exists>n \<in> set names. \<not> dict_has ovs n)} = ?R"
    using req by (auto simp: jmap_def [of ovs] dict_has_None)
  with required_records [of ovs p names] have R: "records (check_required ovs p (map VStr names)) ?R"
    by simp
  have eq: "(\<Union>nc \<in> set ovs. case dict_get ps (fst nc) of
        None \<Rightarrow> {(ascii ''additionalProperties'', p)}
      | Some s \<Rightarrow> violation_set (denote s) (denote (snd nc)) (pointer_join p (Name (fst nc)))) = ?M"
  proof -
    let ?f = "\<lambda>n c. case dict_get ps n of None \<Rightarrow> {(ascii ''additionalProperties'', p)}
      | Some s \<Rightarrow> violation_set (denote s) (denote c) (pointer_join p (Name n))"
    have "(\<Union>nc \<in> set ovs. ?f (fst nc) (snd nc)) = {x. \<exists>n c. dict_get ovs n = Some c \<and> x \<in> ?f n c}"
      using ovs by (rule union_items)
    moreover have "x \<in> ?f n c \<longleftrightarrow>
        (case jmap ps n of None \<Rightarrow> x = (ascii ''additionalProperties'', p)
         | Some s \<Rightarrow> x \<in> violation_set s (denote c) (pointer_join p (Name n)))" for x n c
      by (simp add: jmap_def split: option.split)
    moreover have "(\<exists>c. jmap ovs n = Some c \<and> G c) \<longleftrightarrow> (\<exists>c. dict_get ovs n = Some c \<and> G (denote c))"
      for n G by (auto simp: jmap_def)
    ultimately show ?thesis
      unfolding props by simp
  qed
  have M: "records (foldR (\<lambda>(name, child) vs.
          bindR (py_contains (VDict ps) name) (\<lambda>known.
            if known then
              bindR (py_index (VDict ps) name) (\<lambda>s. walk child s (pointer_join p (Name name)) vs)
            else Inr (add_violation (ascii ''additionalProperties'', p) vs)))
        ovs) ?M"
    unfolding eq [symmetric]
    by (rule members_records [where X = "\<lambda>n c s. violation_set (denote s) (denote c) (pointer_join p (Name n))"])
      (rule walk)
  show ?thesis using records_then [OF R M refl] ps(1) names by simp
qed


lemma typed_walk_records:
  assumes v: "proper v" and kvs: "wf_val (VDict kvs)" "nan_free (VDict kvs)"
    and allowed: "allowed_values t (jmap kvs)"
    and shape: "\<And>vs. length vs < MAX_VIOLATIONS \<Longrightarrow>
      validate_walk v (VDict kvs) p vs =
        bindR (check_keyword kvs ''enum'' (enum_fails v) p vs) (\<lambda>vs.
        bindR (check_keyword kvs ''const'' (const_fails v) p vs) body)"
    and body: "records body B"
    and split: "violation_set (JObj (jmap kvs)) (denote v) p = value_failures (jmap kvs) (denote v) p \<union> B"
  shows "records (validate_walk v (VDict kvs) p) (violation_set (JObj (jmap kvs)) (denote v) p)"
proof -
  let ?step = "\<lambda>vs. bindR (check_keyword kvs ''enum'' (enum_fails v) p vs) (\<lambda>vs.
      bindR (check_keyword kvs ''const'' (const_fails v) p vs) body)"
  note checks = value_checks_records [OF v kvs allowed, of p]
  have "records ?step (violation_set (JObj (jmap kvs)) (denote v) p)"
    using records_then [OF checks(1) records_then [OF checks(2) body refl] refl]
    by (simp add: split value_failures_def Un_assoc)
  then have "records (\<lambda>vs. if MAX_VIOLATIONS \<le> length vs then Inr vs else ?step vs)
      (violation_set (JObj (jmap kvs)) (denote v) p)"
    by (rule reports_unless_full)
  then show ?thesis
  proof (rule reports_cong [rotated])
    fix vs
    show "validate_walk v (VDict kvs) p vs = (if MAX_VIOLATIONS \<le> length vs then Inr vs else ?step vs)"
    proof (cases "MAX_VIOLATIONS \<le> length vs")
      case True
      then show ?thesis by (subst validate_walk.simps) simp
    qed (use shape in simp)
  qed
qed

lemma mistyped_walk_records:
  assumes "dict_get kvs (ascii ''type'') = Some (VStr t)" and "\<not> matches_type v t"
  shows "records (validate_walk v (VDict kvs) p) {(ascii ''type'', p)}"
proof -
  have "records (\<lambda>vs. if MAX_VIOLATIONS \<le> length vs then Inr vs
      else Inr (add_violation (ascii ''type'', p) vs)) {(ascii ''type'', p)}"
    by (rule reports_unless_full) (rule add_violation_records)
  then show ?thesis
    by (rule reports_cong [rotated]) (subst validate_walk.simps, simp add: assms matches_any_type_def)
qed

text \<open>The facts the five kinds of typed node share.\<close>

definition checked_node :: "pyval \<Rightarrow> entries \<Rightarrow> string \<Rightarrow> bool" where
  "checked_node v kvs t \<longleftrightarrow> proper v \<and> wf_val (VDict kvs) \<and> nan_free (VDict kvs) \<and>
     allowed_values (ascii t) (jmap kvs) \<and> dict_get kvs (ascii ''type'') = Some (VStr (ascii t)) \<and>
     matches_type v (ascii t) \<and> typed (jmap kvs) (denote v)"

lemma checked_nodeD:
  assumes "checked_node v kvs t"
  shows "proper v" "wf_val (VDict kvs)" "nan_free (VDict kvs)" "allowed_values (ascii t) (jmap kvs)"
    "dict_get kvs (ascii ''type'') = Some (VStr (ascii t))" "matches_type v (ascii t)"
    "typed (jmap kvs) (denote v)"
  using assms by (simp_all only: checked_node_def)

lemma checked_walk_records:
  assumes ck: "checked_node v kvs t"
    and shape: "\<And>vs. length vs < MAX_VIOLATIONS \<Longrightarrow>
      validate_walk v (VDict kvs) p vs =
        bindR (check_keyword kvs ''enum'' (enum_fails v) p vs) (\<lambda>vs.
        bindR (check_keyword kvs ''const'' (const_fails v) p vs) body)"
    and body: "records body B"
    and split: "violation_set (JObj (jmap kvs)) (denote v) p = value_failures (jmap kvs) (denote v) p \<union> B"
  shows "records (validate_walk v (VDict kvs) p) (violation_set (JObj (jmap kvs)) (denote v) p)"
  using checked_nodeD [OF ck] shape body split by (intro typed_walk_records)

lemma map_JStr: "map denote xs = map JStr names \<longleftrightarrow> xs = map VStr names"
proof (induction xs arbitrary: names)
  case (Cons x xs)
  then show ?case by (cases names) (auto simp: denote_shapes)
qed simp

lemma object_walk_records:
  assumes ck: "checked_node v kvs ''object''" and members: "object_members P (jmap kvs)"
    and walk: "\<And>c s p. size c < size v \<Longrightarrow> proper c \<Longrightarrow> proper s \<Longrightarrow> P (denote s) \<Longrightarrow>
      records (validate_walk c s p) (violation_set (denote s) (denote c) p)"
  shows "records (validate_walk v (VDict kvs) p) (violation_set (JObj (jmap kvs)) (denote v) p)"
proof -
  note c = checked_nodeD [OF ck]
  obtain ovs where v: "v = VDict ovs" using c(6) by (cases v) simp_all
  obtain qs names where m: "jmap kvs (ascii ''properties'') = Some (JObj qs)"
    "jmap kvs (ascii ''required'') = Some (JArr (map JStr names))" "\<forall>n j. qs n = Some j \<longrightarrow> P j"
    using members by (auto simp: object_members_def)
  obtain ps where ps: "dict_get kvs (ascii ''properties'') = Some (VDict ps)" "qs = jmap ps"
    using m(1) by (auto simp: jmap_def [of kvs] denote_shapes)
  have pps: "proper (VDict ps)" using c(2,3) ps(1) by (rule proper_member)
  have names: "dict_get kvs (ascii ''required'') = Some (VList (map VStr names))"
  proof -
    obtain r where r: "dict_get kvs (ascii ''required'') = Some r" "denote r = JArr (map JStr names)"
      using m(2) by (auto simp: jmap_def)
    then obtain xs where "r = VList xs" "map denote xs = map JStr names"
      unfolding denote_shapes by auto
    then show ?thesis using r(1) by (simp only: map_JStr)
  qed
  have keys: "distinct (dict_keys ps)" "distinct (dict_keys ovs)"
    using pps c(1) by (simp_all add: proper_def v)
  have member: "records (validate_walk w s (pointer_join p (Name n)))
      (violation_set (denote s) (denote w) (pointer_join p (Name n)))"
    if nw: "(n, w) \<in> set ovs" and s: "dict_get ps n = Some s" for n w s
  proof (rule walk)
    show "size w < size v" unfolding v using nw by (rule size_dict_member)
    show "proper w" using c(1) nw by (auto simp: v proper_def list_all_iff)
    show "proper s" using pps s by (auto simp: proper_def list_all_iff dest: map_of_SomeD)
    have "jmap ps n = Some (denote s)" using s by (simp add: jmap_def)
    then show "P (denote s)" using m(3) ps(2) by blast
  qed
  note inner = object_records [where kvs = kvs and ps = ps and names = names and ovs = ovs
      and walk = validate_walk and p = p, OF ps(1) keys(1) names keys(2) member]
  have split: "violation_set (JObj (jmap kvs)) (denote v) p = value_failures (jmap kvs) (denote v) p \<union>
      (missing_violations (jmap kvs) (jmap ovs) p \<union> member_violations (jmap kvs) (jmap ovs) p)"
    using c(7) unfolding v denote_VDict Un_assoc [symmetric] by (rule violations_object)
  show ?thesis
    by (rule checked_walk_records [OF ck _ inner split])
      (subst validate_walk.simps, simp add: c matches_any_type_def v)
qed

lemma array_walk_records:
  assumes ck: "checked_node v kvs ''array''" and item: "jmap kvs (ascii ''items'') = Some j" "P j"
    and limits: "count_limits (jmap kvs) ''minItems'' ''maxItems''"
    and walk: "\<And>c s p. size c < size v \<Longrightarrow> proper c \<Longrightarrow> proper s \<Longrightarrow> P (denote s) \<Longrightarrow>
      records (validate_walk c s p) (violation_set (denote s) (denote c) p)"
  shows "records (validate_walk v (VDict kvs) p) (violation_set (JObj (jmap kvs)) (denote v) p)"
proof -
  note c = checked_nodeD [OF ck]
  obtain xs where v: "v = VList xs" using c(6) by (cases v) simp_all
  obtain s where s: "dict_get kvs (ascii ''items'') = Some s" "denote s = j"
    using item(1) by (auto simp: jmap_def)
  have ps: "proper s" using c(2,3) s(1) by (rule proper_member)
  have items: "records (validate_walk (xs ! i) s (pointer_join p (Index i)))
      (violation_set (denote s) (denote (xs ! i)) (pointer_join p (Index i)))" if "i < length xs" for i
  proof (rule walk)
    show "size (xs ! i) < size v" unfolding v using that by (intro size_list_member nth_mem)
    show "proper (xs ! i)" using c(1) that by (simp add: v proper_def list_all_length)
  qed (use ps item s in simp_all)
  note loop = items_records [where walk = validate_walk and s = s and p = p and xs = xs, OF items]
  note low = limit_records(1) [where kvs = kvs and p = p, OF length_value_denote [of xs] count_limits_num(1) [OF limits]]
  note high = limit_records(2) [where kvs = kvs and p = p, OF length_value_denote [of xs] count_limits_num(2) [OF limits]]
  note inner = records_then [OF low records_then [OF high loop refl] refl]
  show ?thesis
    by (rule checked_walk_records [OF ck _ inner])
      (subst validate_walk.simps, simp add: c matches_any_type_def v s,
       use violations_array [of "jmap kvs" "map denote xs" p] c(7) item s in
         \<open>auto simp: v Un_assoc\<close>)
qed

lemma string_walk_records:
  assumes ck: "checked_node v kvs ''string''"
    and limits: "count_limits (jmap kvs) ''minLength'' ''maxLength''"
    and pattern: "\<forall>j. jmap kvs (ascii ''pattern'') = Some j \<longrightarrow>
      j \<in> {JStr IDENTIFIER_PATTERN, JStr CONTROL_SAFE_PATTERN}"
  shows "records (validate_walk v (VDict kvs) p) (violation_set (JObj (jmap kvs)) (denote v) p)"
proof -
  note c = checked_nodeD [OF ck]
  obtain s where v: "v = VStr s" using c(6) by (cases v) simp_all
  note low = limit_records(1) [where kvs = kvs and p = p, OF length_value_denote [of s] count_limits_num(1) [OF limits]]
  note high = limit_records(2) [where kvs = kvs and p = p, OF length_value_denote [of s] count_limits_num(2) [OF limits]]
  have pat: "records (check_keyword kvs ''pattern'' (pattern_fails s) p)
      (failing (jmap kvs) ''pattern'' (\<lambda>j. \<exists>r. j = JStr r \<and> \<not> pattern_holds r s) p)"
    using pattern by (intro check_keyword_records pattern_fails_denote) (simp add: jmap_def)
  note inner = records_then [OF low records_then [OF high pat refl] refl]
  show ?thesis
  proof (rule checked_walk_records [OF ck _ inner])
    show "violation_set (JObj (jmap kvs)) (denote v) p = value_failures (jmap kvs) (denote v) p \<union>
        (failing (jmap kvs) ''minLength'' (above (of_nat (length s))) p \<union>
         (failing (jmap kvs) ''maxLength'' (below (of_nat (length s))) p \<union>
          failing (jmap kvs) ''pattern'' (\<lambda>j. \<exists>r. j = JStr r \<and> \<not> pattern_holds r s) p))"
      using violations_string [of "jmap kvs" s p] c(7) by (simp add: v Un_assoc)
  qed (subst validate_walk.simps, simp add: c matches_any_type_def v check_string_def)
qed

lemma number_walk_records:
  assumes ck: "checked_node v kvs t" and t: "t \<in> {''integer'', ''number''}"
    and limits: "number_limits (jmap kvs) ''minimum'' ''maximum''"
  shows "records (validate_walk v (VDict kvs) p) (violation_set (JObj (jmap kvs)) (denote v) p)"
proof -
  note c = checked_nodeD [OF ck]
  have "is_number_value v" using c(6) t integer_is_number by auto
  then obtain q where v: "denote v = JNum q" by (auto simp: is_number_denote)
  note low = limit_records(1) [where kvs = kvs and p = p, OF v count_limits_num(3) [OF limits]]
  note high = limit_records(2) [where kvs = kvs and p = p, OF v count_limits_num(4) [OF limits]]
  note inner = records_then [OF low high refl]
  have "matches_any_type v (VStr (ascii t))" using c(6) by (simp add: matches_any_type_def)
  then show ?thesis
    using t violations_number [of "jmap kvs" q p] c(7)
    by (intro checked_walk_records [OF ck _ inner])
      (subst validate_walk.simps, auto simp: c check_number_def v Un_assoc)
qed

lemma plain_walk_records:
  assumes ck: "checked_node v kvs t" and t: "t \<in> {''boolean'', ''null''}"
  shows "records (validate_walk v (VDict kvs) p) (violation_set (JObj (jmap kvs)) (denote v) p)"
proof -
  note c = checked_nodeD [OF ck]
  have v: "denote v = JNull \<or> (\<exists>b. denote v = JBool b)"
    using c(6) t by (cases v) auto
  have "matches_any_type v (VStr (ascii t))" using c(6) by (simp add: matches_any_type_def)
  then show ?thesis
    using t violations_other [OF c(7) v, of p]
    by (intro checked_walk_records [OF ck _ reports_pure])
      (subst validate_walk.simps, auto simp: c)
qed

lemma walk_records:
  "proper v \<Longrightarrow> proper node \<Longrightarrow> schema_profile is_root depth (denote node) \<Longrightarrow>
     records (validate_walk v node p) (violation_set (denote node) (denote v) p)"
proof (induction v arbitrary: node is_root depth p rule: measure_induct_rule [where f = size])
  case (less v)
  obtain kvs t extra where node: "node = VDict kvs" and tx: "(t, extra) \<in> set type_keywords"
    and ty: "dict_get kvs (ascii ''type'') = Some (VStr (ascii t))"
      "jmap kvs (ascii ''type'') = Some (JStr (ascii t))"
    and allowed: "allowed_values (ascii t) (jmap kvs)"
    and body: "body_members (schema_profile False (depth + 1)) (jmap kvs)"
    using less.prems(3) by (rule profile_node)
  have kvs: "wf_val (VDict kvs)" "nan_free (VDict kvs)"
    using less.prems(2) by (simp_all only: node proper_def)
  have "ascii t \<in> set JSON_TYPES" using tx type_in_table by blast
  then have match: "matches_type v (ascii t) \<longleftrightarrow> jtype_holds (ascii t) (denote v)"
    by (rule matches_type_denote)
  note typed_rule = typed_walk_records [OF less.prems(1) kvs allowed]
  have "records (validate_walk v (VDict kvs) p) (violation_set (JObj (jmap kvs)) (denote v) p)"
  proof (cases "jtype_holds (ascii t) (denote v)")
    case False
    then show ?thesis
      using mistyped_walk_records [OF ty(1)] match violations_mistyped [where m = "jmap kvs", OF ty(2) False] by simp
  next
    case True
    have typed: "typed (jmap kvs) (denote v)" using ty(2) True by (auto simp: typed_def)
    have ck: "checked_node v kvs t"
      using less.prems(1) kvs allowed ty(1) True match typed by (simp only: checked_node_def)
    have walk: "records (validate_walk c s p) (violation_set (denote s) (denote c) p)"
      if "size c < size v" "proper c" "proper s" "schema_profile False (depth + 1) (denote s)" for c s p
      using that by (rule less.IH)
    from type_keywords_cases [OF tx] show ?thesis
    proof (elim disjE conjE)
      assume "t = ''object''"
      then show ?thesis using object_walk_records [OF _ _ walk] ck body ty(2)
        by (simp add: body_members_def)
    next
      assume "t = ''array''"
      then show ?thesis using array_walk_records [OF _ _ _ _ walk] ck body ty(2)
        by (auto simp: body_members_def)
    next
      assume "t = ''string''"
      then show ?thesis using string_walk_records ck body ty(2)
        by (simp add: body_members_def)
    next
      assume t: "t \<in> {''integer'', ''number''}"
      then have "number_limits (jmap kvs) ''minimum'' ''maximum''"
        using body ty(2) by (auto simp: body_members_def)
      with ck t show ?thesis by (rule number_walk_records)
    next
      assume "t \<in> {''boolean'', ''null''}"
      with ck show ?thesis by (rule plain_walk_records)
    qed
  qed
  then show ?case by (simp only: node denote_VDict)
qed


subsection \<open>What validate\_instance returns\<close>

lemma validate_instance_reports:
  assumes "proper v" and "proper s" and "schema_profile True 0 (denote s)"
  shows "\<exists>ms. set ms = violation_set (denote s) (denote v) [] \<and>
    validate_instance v s = Inr (take MAX_VIOLATIONS ms)"
  unfolding validate_instance_def
  using walk_records [OF assms, of "[]"] by (rule reports_result)

text \<open>Every violation sits at a place of the instance.\<close>

lemma violates_located:
  assumes "violates s j p x" and "located doc p v" and "denote v = j" and "wf_val doc"
  shows "\<exists>w. located doc (snd x) w"
  using assms
proof (induction arbitrary: v rule: violates.induct)
  case (in_member m ob ps n c s p x)
  then obtain ovs where v: "v = VDict ovs" "ob = jmap ovs" by (auto simp: denote_shapes)
  then obtain w where w: "dict_get ovs n = Some w" "denote w = c"
    using in_member.hyps by (auto simp: jmap_def)
  have "located doc (pointer_join p (Name n)) w"
    using in_member.prems(1) map_of_SomeD [OF w(1)] unfolding v(1) by (rule located.member)
  then show ?case using w(2) in_member.prems(3) by (rule in_member.IH)
next
  case (in_item m vs s i p x)
  then obtain xs where v: "v = VList xs" "vs = map denote xs" by (auto simp: denote_shapes)
  then have i: "i < length xs" using in_item.hyps by simp
  have "located doc (pointer_join p (Index i)) (xs ! i)"
    using in_item.prems(1) i unfolding v(1) by (rule located.item)
  moreover have "denote (xs ! i) = vs ! i" using i by (simp add: v(2))
  ultimately show ?case using in_item.prems(3) by (rule in_item.IH)
qed auto

lemma violation_paths:
  assumes "violates (denote s) (denote v) [] x" and "wf_val v"
  shows "\<exists>w. resolve_pointer v (snd x) = Some w" and "snd x \<in> pointer_lang"
proof -
  obtain w where w: "located v (snd x) w"
    using violates_located [OF assms(1) located.root refl assms(2)] by blast
  then show "\<exists>w. resolve_pointer v (snd x) = Some w" using assms(2) located_resolves by blast
  show "snd x \<in> pointer_lang" using w by (rule located_lang)
qed

end
