(* ===== verification/SameRules.thy ===== *)
theory SameRules
  imports FingerprintSpec ValidationSpec "HOL-Library.Multiset"
begin

text \<open>
  Schemas with the same rules: \<open>same_rules\<close> lets annotations, the order of keys, the order of
  \<open>required\<close> and \<open>enum\<close> and the spelling of numbers differ, and nothing else. Schemas with the same
  rules have the same violations.
\<close>

text \<open>Sorting evaluates by insertion: the equation of the library's quicksort does not stop on a
  list that is not yet a value.\<close>

declare sort_key_by_quicksort_code [code del]
declare sort_key_simps [code]

subsection \<open>Schemas with the same rules\<close>

inductive same_rules :: "jval \<Rightarrow> jval \<Rightarrow> bool" where
  same_node:
    "(\<And>k. k \<notin> set SCHEMA_ANNOTATIONS \<Longrightarrow> m k = None \<longleftrightarrow> m' k = None) \<Longrightarrow>
     (\<And>k. k \<notin> set SCHEMA_ANNOTATIONS \<Longrightarrow> k \<notin> set SCHEMA_UNORDERED_ARRAYS \<Longrightarrow>
        k \<notin> {ascii ''properties'', ascii ''items''} \<Longrightarrow> m k = m' k) \<Longrightarrow>
     (\<And>k vs. k \<in> set SCHEMA_UNORDERED_ARRAYS \<Longrightarrow> m k = Some (JArr vs) \<Longrightarrow>
        \<exists>ws. m' k = Some (JArr ws) \<and> mset vs = mset ws) \<Longrightarrow>
     (\<And>i i'. m (ascii ''items'') = Some i \<Longrightarrow> m' (ascii ''items'') = Some i' \<Longrightarrow> same_rules i i') \<Longrightarrow>
     (\<And>ps. m (ascii ''properties'') = Some (JObj ps) \<Longrightarrow>
        \<exists>qs. m' (ascii ''properties'') = Some (JObj qs) \<and> dom ps = dom qs \<and>
          (\<forall>n c c'. ps n = Some c \<longrightarrow> qs n = Some c' \<longrightarrow> same_rules c c')) \<Longrightarrow>
     same_rules (JObj m) (JObj m')"

lemma same_rulesD:
  assumes "same_rules (JObj m) (JObj m')"
  shows "k \<notin> set SCHEMA_ANNOTATIONS \<Longrightarrow> m k = None \<longleftrightarrow> m' k = None"
    and "k \<notin> set SCHEMA_ANNOTATIONS \<Longrightarrow> k \<notin> set SCHEMA_UNORDERED_ARRAYS \<Longrightarrow>
        k \<notin> {ascii ''properties'', ascii ''items''} \<Longrightarrow> m k = m' k"
    and "k \<in> set SCHEMA_UNORDERED_ARRAYS \<Longrightarrow> m k = Some (JArr vs) \<Longrightarrow>
        \<exists>ws. m' k = Some (JArr ws) \<and> mset vs = mset ws"
    and "m (ascii ''items'') = Some i \<Longrightarrow> m' (ascii ''items'') = Some i' \<Longrightarrow> same_rules i i'"
    and "m (ascii ''properties'') = Some (JObj ps) \<Longrightarrow>
        \<exists>qs. m' (ascii ''properties'') = Some (JObj qs) \<and> dom ps = dom qs \<and>
          (\<forall>n c c'. ps n = Some c \<longrightarrow> qs n = Some c' \<longrightarrow> same_rules c c')"
proof -
  note rules = same_rules.cases [OF assms, simplified]
  show "k \<notin> set SCHEMA_ANNOTATIONS \<Longrightarrow> m k = None \<longleftrightarrow> m' k = None"
    by (rule rules) blast
  show "k \<notin> set SCHEMA_ANNOTATIONS \<Longrightarrow> k \<notin> set SCHEMA_UNORDERED_ARRAYS \<Longrightarrow>
      k \<notin> {ascii ''properties'', ascii ''items''} \<Longrightarrow> m k = m' k"
    by (rule rules) blast
  show "k \<in> set SCHEMA_UNORDERED_ARRAYS \<Longrightarrow> m k = Some (JArr vs) \<Longrightarrow>
      \<exists>ws. m' k = Some (JArr ws) \<and> mset vs = mset ws"
    by (rule rules) blast
  show "m (ascii ''items'') = Some i \<Longrightarrow> m' (ascii ''items'') = Some i' \<Longrightarrow> same_rules i i'"
    by (rule rules) blast
  show "m (ascii ''properties'') = Some (JObj ps) \<Longrightarrow>
      \<exists>qs. m' (ascii ''properties'') = Some (JObj qs) \<and> dom ps = dom qs \<and>
        (\<forall>n c c'. ps n = Some c \<longrightarrow> qs n = Some c' \<longrightarrow> same_rules c c')"
    by (rule rules) simp
qed

lemma absent_keywords:
  assumes "node_head r t extra m" and "k \<notin> set (base_keywords True)" and "k \<notin> set extra"
  shows "m (ascii k) = None"
proof (rule ccontr)
  assume "m (ascii k) \<noteq> None"
  then have "ascii k \<in> ascii ` set (base_keywords r @ extra)"
    using assms(1) unfolding node_head_def by blast
  then show False using assms(2,3) base_keywords_root [of k r] by (simp add: ascii_image_iff)
qed

lemma profile_arrays:
  assumes "node_head r t extra m" and "m (ascii ''enum'') = Some j"
  shows "\<exists>vs. j = JArr vs"
  using assms by (auto simp: node_head_def allowed_values_def)

lemma nested_not_base:
  "''properties'' \<notin> set (base_keywords True)" "''items'' \<notin> set (base_keywords True)"
  "''required'' \<notin> set (base_keywords True)"
  by code_simp+

lemma profile_members:
  assumes "schema_profile r d (JObj m)"
  shows "m (ascii ''properties'') = Some j \<Longrightarrow>
      \<exists>ps. j = JObj ps \<and> (\<forall>n c. ps n = Some c \<longrightarrow> schema_profile False (d + 1) c)"
    and "m (ascii ''items'') = Some j \<Longrightarrow> schema_profile False (d + 1) j"
    and "m (ascii ''required'') = Some j \<Longrightarrow> \<exists>vs. j = JArr vs"
    and "m (ascii ''enum'') = Some j \<Longrightarrow> \<exists>vs. j = JArr vs"
proof -
  have "(m (ascii ''properties'') = Some j \<longrightarrow>
       (\<exists>ps. j = JObj ps \<and> (\<forall>n c. ps n = Some c \<longrightarrow> schema_profile False (d + 1) c))) \<and>
     (m (ascii ''items'') = Some j \<longrightarrow> schema_profile False (d + 1) j) \<and>
     (m (ascii ''required'') = Some j \<longrightarrow> (\<exists>vs. j = JArr vs)) \<and>
     (m (ascii ''enum'') = Some j \<longrightarrow> (\<exists>vs. j = JArr vs))"
    using assms
    by (cases rule: schema_profile.cases) (auto simp: nested_not_base absent_keywords profile_arrays)
  then show "m (ascii ''properties'') = Some j \<Longrightarrow>
      \<exists>ps. j = JObj ps \<and> (\<forall>n c. ps n = Some c \<longrightarrow> schema_profile False (d + 1) c)"
    and "m (ascii ''items'') = Some j \<Longrightarrow> schema_profile False (d + 1) j"
    and "m (ascii ''required'') = Some j \<Longrightarrow> \<exists>vs. j = JArr vs"
    and "m (ascii ''enum'') = Some j \<Longrightarrow> \<exists>vs. j = JArr vs" by blast+
qed

text \<open>Schemas with the same rules have the same violations on every instance.\<close>

lemma keyword_classes:
  "list_all (\<lambda>k. ascii k \<notin> set SCHEMA_ANNOTATIONS \<and> ascii k \<notin> set SCHEMA_UNORDERED_ARRAYS \<and>
       ascii k \<notin> {ascii ''properties'', ascii ''items''})
     [''type'', ''const'', ''minItems'', ''maxItems'', ''minLength'', ''maxLength'', ''pattern'',
      ''minimum'', ''maximum'']"
  "list_all (\<lambda>k. ascii k \<notin> set SCHEMA_ANNOTATIONS) [''properties'', ''items'', ''required'', ''enum'']"
  "list_all (\<lambda>k. ascii k \<in> set SCHEMA_UNORDERED_ARRAYS) [''required'', ''enum'']"
  by (simp_all add: SCHEMA_ANNOTATIONS_def SCHEMA_UNORDERED_ARRAYS_def)

lemma same_rules_plain:
  assumes "same_rules (JObj m) (JObj m')"
  shows "k \<in> set [''type'', ''const'', ''minItems'', ''maxItems'', ''minLength'', ''maxLength'', ''pattern'',
      ''minimum'', ''maximum''] \<Longrightarrow> m' (ascii k) = m (ascii k)"
    and "typed m' v = typed m v"
proof -
  have plain: "m' (ascii k) = m (ascii k)" if "k \<in> set [''type'', ''const'', ''minItems'', ''maxItems'',
      ''minLength'', ''maxLength'', ''pattern'', ''minimum'', ''maximum'']" for k
  proof -
    have "ascii k \<notin> set SCHEMA_ANNOTATIONS \<and> ascii k \<notin> set SCHEMA_UNORDERED_ARRAYS \<and>
        ascii k \<notin> {ascii ''properties'', ascii ''items''}"
      using keyword_classes(1) that unfolding list_all_iff by blast
    then show ?thesis using same_rulesD(2) [OF assms] by (simp del: ascii_inject)
  qed
  then show "k \<in> set [''type'', ''const'', ''minItems'', ''maxItems'', ''minLength'', ''maxLength'', ''pattern'',
      ''minimum'', ''maximum''] \<Longrightarrow> m' (ascii k) = m (ascii k)" .
  have "m' (ascii ''type'') = m (ascii ''type'')" by (rule plain) simp
  then show "typed m' v = typed m v" by (simp only: typed_def)
qed

lemma same_rules_present:
  assumes "same_rules (JObj m) (JObj m')" and "k \<in> set [''properties'', ''items'', ''required'', ''enum'']"
  shows "m (ascii k) = None \<longleftrightarrow> m' (ascii k) = None"
proof (rule same_rulesD(1) [OF assms(1)])
  show "ascii k \<notin> set SCHEMA_ANNOTATIONS" using keyword_classes(2) assms(2) unfolding list_all_iff by blast
qed

lemma same_rules_arrays:
  assumes "same_rules (JObj m) (JObj m')" and "k \<in> set [''required'', ''enum'']"
    and "m (ascii k) = Some (JArr vs)"
  shows "\<exists>ws. m' (ascii k) = Some (JArr ws) \<and> set ws = set vs"
proof -
  have "ascii k \<in> set SCHEMA_UNORDERED_ARRAYS"
    using keyword_classes(3) assms(2) unfolding list_all_iff by blast
  then obtain ws where "m' (ascii k) = Some (JArr ws)" "mset vs = mset ws"
    using same_rulesD(3) [OF assms(1) _ assms(3)] by blast
  then show ?thesis by (metis set_mset_mset)
qed

lemma same_rules_form: "same_rules (JObj m) s' \<Longrightarrow> \<exists>m'. s' = JObj m'"
  by (auto elim: same_rules.cases)

lemma same_rules_typed: "same_rules (JObj m) (JObj m') \<Longrightarrow> typed m' = typed m"
  using same_rules_plain(2) by blast

lemma same_rules_violates:
  "violates s v p x \<Longrightarrow> same_rules s s' \<Longrightarrow> violates s' v p x"
proof (induction arbitrary: s' rule: violates.induct)
  case (bad_enum m v vs p)
  then obtain m' where s': "s' = JObj m'" using same_rules_form by blast
  then show ?case using bad_enum same_rules_arrays [of m m' "''enum''" vs] same_rules_plain(2) [of m m']
    by (auto intro: violates.bad_enum)
next
  case (bad_required m ob ns n p)
  then obtain m' where s': "s' = JObj m'" using same_rules_form by blast
  then show ?case using bad_required same_rules_arrays [of m m' "''required''" ns] same_rules_plain(2) [of m m']
    by (auto intro: violates.bad_required)
next
  case (bad_member m ob ps n c p)
  then obtain m' where s': "s' = JObj m'" using same_rules_form by blast
  then obtain qs where "m' (ascii ''properties'') = Some (JObj qs)" "dom ps = dom qs"
    using same_rulesD(5) [of m m' ps] bad_member.hyps(2) bad_member.prems by blast
  moreover have "qs n = None" using bad_member.hyps(4) calculation(2) by (metis domIff)
  ultimately show ?case using bad_member same_rules_plain(2) [of m m'] unfolding s'
    by (auto intro: violates.bad_member)
next
  case (in_member m ob ps n c s p x)
  then obtain m' where s': "s' = JObj m'" using same_rules_form by blast
  then obtain qs where qs: "m' (ascii ''properties'') = Some (JObj qs)" "dom ps = dom qs"
    "\<forall>n c c'. ps n = Some c \<longrightarrow> qs n = Some c' \<longrightarrow> same_rules c c'"
    using same_rulesD(5) [of m m' ps] in_member.hyps(2) in_member.prems by blast
  moreover obtain t where "qs n = Some t" using in_member.hyps(4) qs(2) by (metis domD domI)
  ultimately show ?case using in_member same_rules_plain(2) [of m m'] unfolding s'
    by (auto intro: violates.in_member)
next
  case (in_item m vs s i p x)
  then obtain m' where s': "s' = JObj m'" using same_rules_form by blast
  then obtain t where t: "m' (ascii ''items'') = Some t"
    using in_item same_rules_present [of m m' "''items''"] by (cases "m' (ascii ''items'')") auto
  then have "same_rules s t" using same_rulesD(4) in_item.hyps(2) in_item.prems unfolding s' by blast
  then show ?case using in_item t same_rules_plain(2) [of m m'] unfolding s'
    by (auto intro: violates.in_item)
qed (frule same_rules_form, elim exE, hypsubst, frule same_rules_typed,
    rule violates.intros, simp_all add: same_rules_plain(1))+

end
