(* ===== verification/FingerprintRules.thy ===== *)
theory FingerprintRules
  imports SameRules
begin

text \<open>
  The encoding of a schema of the profile exists, and two of them are equal exactly when the
  schemas have the same rules.
\<close>

subsection \<open>Encodings of schemas\<close>

lemma image_map_mset_iff:
  assumes "\<And>a b. a \<in> set xs \<Longrightarrow> b \<in> set ys \<Longrightarrow> f a = f b \<longleftrightarrow> g a = g b"
    and "mset (map f xs) = mset (map f ys)"
  shows "mset (map g xs) = mset (map g ys)"
  using assms
proof (induction xs arbitrary: ys)
  case Nil
  then show ?case by simp
next
  case (Cons x xs)
  then have "f x \<in># mset (map f ys)" by (metis image_eqI list.set_intros(1) list.set_map set_mset_mset)
  then obtain y where y: "y \<in> set ys" "f x = f y" by auto
  then obtain us vs where ys: "ys = us @ y # vs" by (meson split_list)
  have "mset (map f xs) = mset (map f (us @ vs))" using Cons.prems(2) y(2) by (simp add: ys)
  then have "mset (map g xs) = mset (map g (us @ vs))"
    using Cons.prems(1) by (intro Cons.IH) (auto simp: ys)
  moreover have "g x = g y" using Cons.prems(1) y by simp
  ultimately show ?case by (simp add: ys)
qed

lemma sort_key_eq_iff:
  assumes "inj_on f (set xs \<union> set ys)"
  shows "sort_key f xs = sort_key f ys \<longleftrightarrow> mset xs = mset ys"
proof
  assume "sort_key f xs = sort_key f ys"
  then show "mset xs = mset ys" by (metis mset_sort)
next
  assume m: "mset xs = mset ys"
  show "sort_key f xs = sort_key f ys"
  proof (rule sort_key_inj_key_eq)
    show "mset xs = mset (sort_key f ys)" using m by simp
    show "inj_on f (set xs)" using assms by (rule inj_on_subset) simp
  qed simp
qed

definition rule_code :: "pyval \<Rightarrow> enc" where
  "rule_code v = projr (encode True v)"

definition ruled :: "pyval \<Rightarrow> bool" where
  "ruled v \<longleftrightarrow> encode True v = Inr (rule_code v) \<and> enc_scalar (rule_code v)"

lemma ruledI: "encode True v = Inr e \<Longrightarrow> enc_scalar e \<Longrightarrow> ruled v"
  by (simp add: ruled_def rule_code_def)

definition member_rule :: "ustring \<Rightarrow> pyval \<Rightarrow> enc" where
  "member_rule key v =
     (if key = ascii ''properties'' then
        tagged ''object'' [EList (map (\<lambda>n. EList [EStr n, rule_code (the (dict_get (dict_items v) n))])
          (sort (dict_keys (dict_items v))))]
      else if key = ascii ''items'' then rule_code v
      else if key \<in> set SCHEMA_UNORDERED_ARRAYS then
        tagged ''array'' [EList (sort_key dumps (map code (list_items v)))]
      else code v)"

lemma not_unordered:
  "ascii ''properties'' \<notin> set SCHEMA_UNORDERED_ARRAYS" "ascii ''items'' \<notin> set SCHEMA_UNORDERED_ARRAYS"
  by (simp_all add: SCHEMA_UNORDERED_ARRAYS_def)

text \<open>The shape of the members of a schema node the encoding relies on.\<close>

definition member_shape :: "(pyval \<Rightarrow> bool) \<Rightarrow> ustring \<Rightarrow> pyval \<Rightarrow> bool" where
  "member_shape P key v \<longleftrightarrow>
     (key = ascii ''properties'' \<longrightarrow> is_dict v \<and> (\<forall>n c. dict_get (dict_items v) n = Some c \<longrightarrow> P c)) \<and>
     (key = ascii ''items'' \<longrightarrow> P v) \<and>
     (key \<in> set SCHEMA_UNORDERED_ARRAYS \<longrightarrow> is_list v)"

lemma member_encoding_shape:
  assumes v: "exact_val v" and shape: "member_shape ruled key v"
  shows "member_encoding True key v = Inr (member_rule key v) \<and> enc_scalar (member_rule key v)"
proof -
  consider (properties) "key = ascii ''properties''" | (items) "key = ascii ''items''"
    | (unordered) "key \<in> set SCHEMA_UNORDERED_ARRAYS" "key \<notin> {ascii ''properties'', ascii ''items''}"
    | (other) "key \<notin> set SCHEMA_UNORDERED_ARRAYS" "key \<notin> {ascii ''properties'', ascii ''items''}" by blast
  then show ?thesis
  proof cases
    case properties
    then obtain ps where ps: "v = VDict ps" using shape by (auto simp: member_shape_def elim: is_dict.elims)
    have ruled: "dict_get ps n = Some c \<Longrightarrow> ruled c" for n c
      using shape properties by (simp add: member_shape_def ps)
    have "mapR (\<lambda>name. case dict_get ps name of None \<Rightarrow> Inl KeyError
          | Some grandchild \<Rightarrow> bindR (encode True grandchild) (\<lambda>e. Inr (EList [EStr name, e])))
        (sort (dict_keys ps)) = Inr (map (\<lambda>n. EList [EStr n, rule_code (the (dict_get ps n))]) (sort (dict_keys ps)))"
      (is "mapR ?f _ = _")
    proof (rule mapR_pure)
      fix n
      assume "n \<in> set (sort (dict_keys ps))"
      then obtain c where c: "dict_get ps n = Some c" using key_get [of n ps] by auto
      then show "?f n = Inr (EList [EStr n, rule_code (the (dict_get ps n))])"
        using ruled [OF c] by (simp add: ruled_def)
    qed
    moreover have "enc_scalar (rule_code (the (dict_get ps n))) \<and> list_all scalar n"
      if n: "n \<in> set (dict_keys ps)" for n
    proof -
      obtain c where c: "dict_get ps n = Some c" using key_get [OF n] by blast
      then show ?thesis using ruled [OF c] exact_get [OF v [unfolded ps] c] by (simp add: ruled_def)
    qed
    ultimately show ?thesis
      by (simp add: properties member_encoding_def member_rule_def ps list_all_iff)
  next
    case items
    then have "ruled v" using shape by (simp add: member_shape_def)
    with items show ?thesis by (simp add: member_encoding_def member_rule_def ruled_def)
  next
    case unordered
    then obtain xs where xs: "v = VList xs" using shape by (auto simp: member_shape_def elim: is_list.elims)
    have "coded x" if "x \<in> set xs" for x using v that by (auto simp: xs list_all_iff intro: exact_coded)
    then have "mapR (encode False) xs = Inr (map code xs)" "list_all enc_scalar (map code xs)"
      by (auto intro!: mapR_pure simp: coded_def list_all_iff)
    with unordered show ?thesis
      by (simp add: member_encoding_def member_rule_def xs list_all_iff)
  next
    case other
    then have "coded v" using v exact_coded by blast
    with other show ?thesis by (simp add: member_encoding_def member_rule_def coded_def)
  qed
qed

lemma encode_node:
  assumes v: "exact_val (VDict kvs)" and shape: "\<And>k x. dict_get kvs k = Some x \<Longrightarrow> member_shape ruled k x"
  shows "encode True (VDict kvs) = Inr (tagged ''object''
      [EList (map (\<lambda>k. EList [EStr k, member_rule k (the (dict_get kvs k))]) (encoded_keys True kvs))])"
    and "ruled (VDict kvs)"
proof -
  have member: "member_encoding True k (the (dict_get kvs k)) = Inr (member_rule k (the (dict_get kvs k))) \<and>
      enc_scalar (member_rule k (the (dict_get kvs k))) \<and> list_all scalar k"
    if k: "k \<in> set (encoded_keys True kvs)" for k
  proof -
    obtain x where x: "dict_get kvs k = Some x" using key_get [of k kvs] k by (auto simp: encoded_keys_def)
    then show ?thesis using member_encoding_shape [of x k] shape exact_get [OF v] by simp
  qed
  then show enc: "encode True (VDict kvs) = Inr (tagged ''object''
      [EList (map (\<lambda>k. EList [EStr k, member_rule k (the (dict_get kvs k))]) (encoded_keys True kvs))])"
    by (intro encode_VDict) blast
  from enc show "ruled (VDict kvs)" using member by (intro ruledI) (auto simp: list_all_iff)
qed

lemma profile_shape:
  assumes profile: "schema_profile r d (denote (VDict kvs))" and x: "dict_get kvs k = Some x"
  shows "member_shape (\<lambda>c. schema_profile False (d + 1) (denote c)) k x"
proof -
  have p: "schema_profile r d (JObj (jmap kvs))" using profile by (simp only: denote_VDict)
  have j: "jmap kvs k = Some (denote x)" using x by (simp add: jmap_def)
  have "is_dict x \<and> (\<forall>n c. dict_get (dict_items x) n = Some c \<longrightarrow> schema_profile False (d + 1) (denote c))"
    if key: "k = ascii ''properties''"
  proof -
    obtain ps where ps: "denote x = JObj ps" "\<forall>n c. ps n = Some c \<longrightarrow> schema_profile False (d + 1) c"
      using profile_members(1) [OF p j [unfolded key]] by blast
    then obtain es where "x = VDict es" by (cases x) (auto simp: num_denote_shape)
    moreover have "schema_profile False (d + 1) (denote c)" if "dict_get es n = Some c" for n c
    proof -
      have "ps = jmap es" using ps(1) unfolding \<open>x = VDict es\<close> denote_VDict by simp
      then have "ps n = Some (denote c)" using that by (simp add: jmap_def)
      with ps(2) show ?thesis by blast
    qed
    ultimately show ?thesis by simp
  qed
  moreover have "schema_profile False (d + 1) (denote x)" if key: "k = ascii ''items''"
    using profile_members(2) [OF p j [unfolded key]] .
  moreover have "is_list x" if key: "k \<in> set SCHEMA_UNORDERED_ARRAYS"
  proof -
    have "k = ascii ''required'' \<or> k = ascii ''enum''" using key by (simp add: SCHEMA_UNORDERED_ARRAYS_def)
    then obtain vs where "denote x = JArr vs" using profile_members(3,4) [OF p] j by blast
    then show ?thesis by (cases x) (auto simp: num_denote_shape)
  qed
  ultimately show ?thesis by (simp add: member_shape_def)
qed

lemma profile_ruled:
  "exact_val s \<Longrightarrow> schema_profile r d (denote s) \<Longrightarrow> ruled s"
proof (induction s arbitrary: r d rule: measure_induct_rule [where f = size])
  case (less s)
  then obtain m where "denote s = JObj m" using schema_profile_object by blast
  then obtain kvs where s: "s = VDict kvs" by (cases s) (auto simp: num_denote_shape)
  have "member_shape ruled k x" if x: "dict_get kvs k = Some x" for k x
  proof -
    have IH: "ruled c" if "size c < size s" "exact_val c" "schema_profile False (d + 1) (denote c)" for c
      using less.IH that by blast
    have size: "size x < size s" "exact_val x"
      using size_dict_get [OF x] exact_get [OF less.prems(1) [unfolded s] x] by (simp_all add: s del: pyval.size)
    have nested: "size c < size s \<and> exact_val c"
      if c: "dict_get (dict_items x) n = Some c" "is_dict x" for n c
    proof -
      obtain es where "x = VDict es" using c(2) by (auto elim: is_dict.elims)
      then show ?thesis using size c(1) size_dict_get [of es n c] exact_get [of es n c] by simp
    qed
    show ?thesis
      using profile_shape [OF less.prems(2) [unfolded s] x] IH size nested
      unfolding member_shape_def by blast
  qed
  then show ?case unfolding s using less.prems(1) by (intro encode_node(2)) (simp_all only: s)
qed


text \<open>Two nodes have the same encoding exactly when their rules agree member by member.\<close>

lemma encoded_keys_iff:
  assumes "distinct (dict_keys kvs)" and "distinct (dict_keys lvs)"
  shows "encoded_keys True kvs = encoded_keys True lvs \<longleftrightarrow>
    (\<forall>k. k \<notin> set SCHEMA_ANNOTATIONS \<longrightarrow> (jmap kvs k = None \<longleftrightarrow> jmap lvs k = None))"
proof -
  have sorted: "distinct (encoded_keys True es) \<and> sorted (encoded_keys True es) \<and>
      set (encoded_keys True es) = {k. k \<notin> set SCHEMA_ANNOTATIONS \<and> jmap es k \<noteq> None}"
    if "distinct (dict_keys es)" for es
    using that keys_jmap [of es] by (auto simp: encoded_keys_def sorted_filter [of id, simplified] simp flip: dom_def)
  have "encoded_keys True kvs = encoded_keys True lvs \<longleftrightarrow>
      set (encoded_keys True kvs) = set (encoded_keys True lvs)"
    using sorted [OF assms(1)] sorted [OF assms(2)] sorted_distinct_set_unique by metis
  then show ?thesis using sorted [OF assms(1)] sorted [OF assms(2)] by blast
qed

lemma member_rule_unordered:
  assumes "key \<in> set SCHEMA_UNORDERED_ARRAYS" and "exact_val (VList xs)" and "exact_val (VList ys)"
  shows "member_rule key (VList xs) = member_rule key (VList ys) \<longleftrightarrow>
    mset (map denote xs) = mset (map denote ys)"
proof -
  have key: "key \<noteq> ascii ''properties''" "key \<noteq> ascii ''items''" using assms(1) not_unordered by auto
  have ok: "exact_val a" if "a \<in> set xs \<union> set ys" for a using that assms(2,3) by (auto simp: list_all_iff)
  have inj: "inj_on dumps (set (map code xs) \<union> set (map code ys))"
  proof (rule inj_onI)
    fix e f
    assume "e \<in> set (map code xs) \<union> set (map code ys)" "f \<in> set (map code xs) \<union> set (map code ys)"
    then have "enc_scalar e" "enc_scalar f" using ok exact_coded by (auto simp: coded_def)
    then show "dumps e = dumps f \<Longrightarrow> e = f" by (simp add: dumps_inject)
  qed
  have same: "code a = code b \<longleftrightarrow> denote a = denote b" if "a \<in> set xs" "b \<in> set ys" for a b
    using that ok by (intro code_denote) auto
  have "member_rule key (VList xs) = member_rule key (VList ys) \<longleftrightarrow> mset (map code xs) = mset (map code ys)"
    using key assms(1) by (simp add: member_rule_def sort_key_eq_iff [OF inj] del: mset_map)
  also have "\<dots> \<longleftrightarrow> mset (map denote xs) = mset (map denote ys)"
    using image_map_mset_iff [of xs ys code denote] image_map_mset_iff [of xs ys denote code] same by blast
  finally show ?thesis .
qed

lemma member_rule_properties:
  assumes "exact_val (VDict ps)" and "exact_val (VDict qs)"
    and IH: "\<And>n c c'. dict_get ps n = Some c \<Longrightarrow> dict_get qs n = Some c' \<Longrightarrow>
      rule_code c = rule_code c' \<longleftrightarrow> same_rules (denote c) (denote c')"
  shows "member_rule (ascii ''properties'') (VDict ps) = member_rule (ascii ''properties'') (VDict qs) \<longleftrightarrow>
    dom (jmap ps) = dom (jmap qs) \<and>
    (\<forall>n c c'. jmap ps n = Some c \<longrightarrow> jmap qs n = Some c' \<longrightarrow> same_rules c c')"
proof -
  have d: "distinct (dict_keys ps)" "distinct (dict_keys qs)" using assms(1,2) by simp_all
  have "member_rule (ascii ''properties'') (VDict ps) = member_rule (ascii ''properties'') (VDict qs) \<longleftrightarrow>
      dom (jmap ps) = dom (jmap qs) \<and>
      (\<forall>n \<in> dom (jmap ps). rule_code (the (dict_get ps n)) = rule_code (the (dict_get qs n)))"
    by (simp only: member_rule_def if_True dict_items.simps tagged_inject list.inject enc.inject keyed_inject
        sorted_keys_eq [OF d] set_sort keys_jmap simp_thms)
  also have "\<dots> \<longleftrightarrow> dom (jmap ps) = dom (jmap qs) \<and>
    (\<forall>n c c'. jmap ps n = Some c \<longrightarrow> jmap qs n = Some c' \<longrightarrow> same_rules c c')"
  proof (intro conj_cong refl)
    assume dom: "dom (jmap ps) = dom (jmap qs)"
    have "(rule_code (the (dict_get ps n)) = rule_code (the (dict_get qs n))) \<longleftrightarrow>
        same_rules (the (jmap ps n)) (the (jmap qs n))" if n: "n \<in> dom (jmap ps)" for n
    proof -
      have n': "n \<in> dom (jmap qs)" using n dom by simp
      obtain c where c: "dict_get ps n = Some c" using n by (auto simp: jmap_def)
      obtain c' where c': "dict_get qs n = Some c'" using n' by (auto simp: jmap_def)
      show ?thesis using IH [OF c c'] c c' by (simp add: jmap_def)
    qed
    then have "(\<forall>n \<in> dom (jmap ps). rule_code (the (dict_get ps n)) = rule_code (the (dict_get qs n))) \<longleftrightarrow>
        (\<forall>n \<in> dom (jmap ps). same_rules (the (jmap ps n)) (the (jmap qs n)))" by blast
    also have "\<dots> \<longleftrightarrow> (\<forall>n c c'. jmap ps n = Some c \<longrightarrow> jmap qs n = Some c' \<longrightarrow> same_rules c c')"
      using dom by (fastforce simp: dom_def)
    finally show "(\<forall>n \<in> dom (jmap ps). rule_code (the (dict_get ps n)) = rule_code (the (dict_get qs n))) \<longleftrightarrow>
        (\<forall>n c c'. jmap ps n = Some c \<longrightarrow> jmap qs n = Some c' \<longrightarrow> same_rules c c')" .
  qed
  finally show ?thesis .
qed

lemma rule_code_node:
  assumes "exact_val (VDict kvs)" and "schema_profile r d (denote (VDict kvs))"
  shows "rule_code (VDict kvs) = tagged ''object''
      [EList (map (\<lambda>k. EList [EStr k, member_rule k (the (dict_get kvs k))]) (encoded_keys True kvs))]"
proof -
  have "member_shape ruled k x" if x: "dict_get kvs k = Some x" for k x
  proof -
    have e: "exact_val x" using exact_get [OF assms(1) x] ..
    have nested: "exact_val c" if "is_dict x" "dict_get (dict_items x) n = Some c" for n c
      using e that exact_get by (cases x) auto
    show ?thesis
      using profile_shape [OF assms(2) x] e nested profile_ruled unfolding member_shape_def by blast
  qed
  then show ?thesis using encode_node(1) [OF assms(1)] by (simp add: rule_code_def)
qed

definition agree :: "ustring \<Rightarrow> jval \<Rightarrow> jval \<Rightarrow> bool" where
  "agree k j j' \<longleftrightarrow>
     (k \<in> set SCHEMA_UNORDERED_ARRAYS \<longrightarrow> (\<exists>vs ws. j = JArr vs \<and> j' = JArr ws \<and> mset vs = mset ws)) \<and>
     (k = ascii ''items'' \<longrightarrow> same_rules j j') \<and>
     (k = ascii ''properties'' \<longrightarrow> (\<exists>ps qs. j = JObj ps \<and> j' = JObj qs \<and> dom ps = dom qs \<and>
        (\<forall>n c c'. ps n = Some c \<longrightarrow> qs n = Some c' \<longrightarrow> same_rules c c'))) \<and>
     (k \<notin> set SCHEMA_UNORDERED_ARRAYS \<longrightarrow> k \<notin> {ascii ''properties'', ascii ''items''} \<longrightarrow> j = j')"

lemma nested_not_annotations:
  "ascii ''properties'' \<notin> set SCHEMA_ANNOTATIONS" "ascii ''items'' \<notin> set SCHEMA_ANNOTATIONS"
  "k \<in> set SCHEMA_UNORDERED_ARRAYS \<Longrightarrow> k \<notin> set SCHEMA_ANNOTATIONS"
  by (auto simp: SCHEMA_ANNOTATIONS_def SCHEMA_UNORDERED_ARRAYS_def)

lemma same_rules_agree:
  assumes "schema_profile r d (JObj m)"
  shows "same_rules (JObj m) (JObj m') \<longleftrightarrow>
    (\<forall>k. k \<notin> set SCHEMA_ANNOTATIONS \<longrightarrow> (m k = None \<longleftrightarrow> m' k = None)) \<and>
    (\<forall>k j j'. k \<notin> set SCHEMA_ANNOTATIONS \<longrightarrow> m k = Some j \<longrightarrow> m' k = Some j' \<longrightarrow> agree k j j')"
    (is "?L \<longleftrightarrow> ?A \<and> ?B")
proof
  assume L: ?L
  have "agree k j j'" if k: "k \<notin> set SCHEMA_ANNOTATIONS" "m k = Some j" "m' k = Some j'" for k j j'
    unfolding agree_def
  proof (intro conjI impI)
    assume u: "k \<in> set SCHEMA_UNORDERED_ARRAYS"
    then have "k = ascii ''required'' \<or> k = ascii ''enum''" by (simp add: SCHEMA_UNORDERED_ARRAYS_def)
    then obtain vs where vs: "j = JArr vs" using profile_members(3,4) [OF assms] k(2) by blast
    then show "\<exists>vs ws. j = JArr vs \<and> j' = JArr ws \<and> mset vs = mset ws"
      using same_rulesD(3) [OF L u] k(2,3) by fastforce
  next
    assume "k = ascii ''items''"
    then show "same_rules j j'" using same_rulesD(4) [OF L] k(2,3) by blast
  next
    assume p: "k = ascii ''properties''"
    then obtain ps where ps: "j = JObj ps" using profile_members(1) [OF assms] k(2) by blast
    then show "\<exists>ps qs. j = JObj ps \<and> j' = JObj qs \<and> dom ps = dom qs \<and>
        (\<forall>n c c'. ps n = Some c \<longrightarrow> qs n = Some c' \<longrightarrow> same_rules c c')"
      using same_rulesD(5) [OF L] k(2,3) unfolding p by fastforce
  next
    assume "k \<notin> set SCHEMA_UNORDERED_ARRAYS" "k \<notin> {ascii ''properties'', ascii ''items''}"
    then have "m k = m' k" using same_rulesD(2) [OF L] k(1) by blast
    then show "j = j'" using k(2,3) by simp
  qed
  then show "?A \<and> ?B" using same_rulesD(1) [OF L] by blast
next
  assume AB: "?A \<and> ?B"
  then have A: "k \<notin> set SCHEMA_ANNOTATIONS \<Longrightarrow> m k = None \<longleftrightarrow> m' k = None" for k by blast
  have B: "agree k j j'" if "k \<notin> set SCHEMA_ANNOTATIONS" "m k = Some j" "m' k = Some j'" for k j j'
    using AB that by blast
  have other: "\<exists>j'. m' k = Some j' \<and> agree k j j'" if k: "k \<notin> set SCHEMA_ANNOTATIONS" "m k = Some j" for k j
  proof -
    obtain j' where "m' k = Some j'" using A [OF k(1)] k(2) by (cases "m' k") auto
    then show ?thesis using B [OF k] by blast
  qed
  show ?L
  proof (rule same_node)
    show "k \<notin> set SCHEMA_ANNOTATIONS \<Longrightarrow> m k = None \<longleftrightarrow> m' k = None" for k by (rule A)
    show "m k = m' k" if "k \<notin> set SCHEMA_ANNOTATIONS" "k \<notin> set SCHEMA_UNORDERED_ARRAYS"
      "k \<notin> {ascii ''properties'', ascii ''items''}" for k
    proof (cases "m k")
      case None
      then show ?thesis using A [OF that(1)] by simp
    next
      case (Some j)
      then show ?thesis using other [OF that(1) Some] that(2,3) unfolding agree_def by auto
    qed
    show "\<exists>ws. m' k = Some (JArr ws) \<and> mset vs = mset ws"
      if k: "k \<in> set SCHEMA_UNORDERED_ARRAYS" "m k = Some (JArr vs)" for k vs
      using other [OF nested_not_annotations(3) [OF k(1)] k(2)] k(1) unfolding agree_def by auto
    show "same_rules i i'" if "m (ascii ''items'') = Some i" "m' (ascii ''items'') = Some i'" for i i'
      using B [OF nested_not_annotations(2) that] unfolding agree_def by blast
    show "\<exists>qs. m' (ascii ''properties'') = Some (JObj qs) \<and> dom ps = dom qs \<and>
        (\<forall>n c c'. ps n = Some c \<longrightarrow> qs n = Some c' \<longrightarrow> same_rules c c')"
      if "m (ascii ''properties'') = Some (JObj ps)" for ps
      using other [OF nested_not_annotations(1) that] unfolding agree_def by auto
  qed
qed

lemma denote_object: "denote s = JObj m \<Longrightarrow> \<exists>kvs. s = VDict kvs \<and> m = jmap kvs"
  by (cases s) (simp_all add: num_denote_shape denote_VDict del: denote.simps(8))

lemma rule_code_same_rules:
  "exact_val s \<Longrightarrow> exact_val s' \<Longrightarrow> schema_profile r d (denote s) \<Longrightarrow> schema_profile r' d' (denote s') \<Longrightarrow>
     rule_code s = rule_code s' \<longleftrightarrow> same_rules (denote s) (denote s')"
proof (induction s arbitrary: s' r d r' d' rule: measure_induct_rule [where f = size])
  case (less s)
  obtain kvs lvs where s: "s = VDict kvs" and s': "s' = VDict lvs"
    using schema_profile_object [OF less.prems(3)] schema_profile_object [OF less.prems(4)] denote_object
    by metis
  note prems = less.prems [unfolded s s']
  have d: "distinct (dict_keys kvs)" "distinct (dict_keys lvs)" using prems by simp_all
  let ?ann = "set SCHEMA_ANNOTATIONS"
  have member: "member_rule k x = member_rule k y \<longleftrightarrow> agree k (denote x) (denote y)"
    if x: "dict_get kvs k = Some x" and y: "dict_get lvs k = Some y" for k x y
  proof -
    have e: "exact_val x" "exact_val y" using exact_get prems(1,2) x y by blast+
    have size: "size x < size s" using size_dict_get [OF x] by (simp add: s)
    note px = profile_shape [OF prems(3) x, unfolded member_shape_def]
    note py = profile_shape [OF prems(4) y, unfolded member_shape_def]
    consider (properties) "k = ascii ''properties''" | (items) "k = ascii ''items''"
      | (unordered) "k \<in> set SCHEMA_UNORDERED_ARRAYS" "k \<notin> {ascii ''properties'', ascii ''items''}"
      | (other) "k \<notin> set SCHEMA_UNORDERED_ARRAYS" "k \<notin> {ascii ''properties'', ascii ''items''}" by blast
    then show ?thesis
    proof cases
      case properties
      obtain ps qs where pq: "x = VDict ps" "y = VDict qs"
        using px py properties by (auto elim!: is_dict.elims)
      have IH: "rule_code c = rule_code c' \<longleftrightarrow> same_rules (denote c) (denote c')"
        if c: "dict_get ps n = Some c" and c': "dict_get qs n = Some c'" for n c c'
      proof (rule less.IH)
        show "size c < size s" using size_dict_get [OF c] size by (simp add: pq)
        show "exact_val c" "exact_val c'" using exact_get c c' e by (auto simp only: pq)
        show "schema_profile False (d + 1) (denote c)" "schema_profile False (d' + 1) (denote c')"
          using px py properties c c' by (simp_all add: pq)
      qed
      show ?thesis using member_rule_properties [OF e [unfolded pq] IH] properties not_unordered
        by (simp add: agree_def pq denote_VDict del: denote.simps(8))
    next
      case items
      have "rule_code x = rule_code y \<longleftrightarrow> same_rules (denote x) (denote y)"
        using px py items by (intro less.IH [OF size e]) blast+
      with items show ?thesis using not_unordered by (simp add: member_rule_def agree_def)
    next
      case unordered
      obtain xs ys where "x = VList xs" "y = VList ys"
        using px py unordered by (auto elim!: is_list.elims)
      then show ?thesis using member_rule_unordered [of k xs ys] unordered e by (simp add: agree_def)
    next
      case other
      then show ?thesis using code_denote [OF e] by (simp add: member_rule_def agree_def)
    qed
  qed
  have "rule_code s = rule_code s' \<longleftrightarrow> encoded_keys True kvs = encoded_keys True lvs \<and>
      (\<forall>k \<in> set (encoded_keys True kvs).
        member_rule k (the (dict_get kvs k)) = member_rule k (the (dict_get lvs k)))"
    using rule_code_node [OF prems(1,3)] rule_code_node [OF prems(2,4)]
    by (simp only: s s' tagged_inject list.inject enc.inject keyed_inject simp_thms)
  also have "\<dots> \<longleftrightarrow> same_rules (JObj (jmap kvs)) (JObj (jmap lvs))"
  proof -
    have "(\<forall>k \<in> set (encoded_keys True kvs).
        member_rule k (the (dict_get kvs k)) = member_rule k (the (dict_get lvs k))) \<longleftrightarrow>
      (\<forall>k j j'. k \<notin> set SCHEMA_ANNOTATIONS \<longrightarrow> jmap kvs k = Some j \<longrightarrow> jmap lvs k = Some j' \<longrightarrow> agree k j j')"
      if keys: "encoded_keys True kvs = encoded_keys True lvs"
    proof -
      have in_keys: "k \<in> set (encoded_keys True es) \<longleftrightarrow> k \<notin> ?ann \<and> (\<exists>x. dict_get es k = Some x)" for k es
        unfolding encoded_keys_def using dict_has_iff [of es k] by (auto simp: dict_has_def)
      show ?thesis
      proof (intro iffI allI impI ballI)
        fix k j j'
        assume eq: "\<forall>k \<in> set (encoded_keys True kvs).
            member_rule k (the (dict_get kvs k)) = member_rule k (the (dict_get lvs k))"
          and k: "k \<notin> ?ann" "jmap kvs k = Some j" "jmap lvs k = Some j'"
        then obtain x y where xy: "dict_get kvs k = Some x" "dict_get lvs k = Some y"
            "j = denote x" "j' = denote y" by (auto simp: jmap_def)
        have "k \<in> set (encoded_keys True kvs)" using in_keys k(1) xy(1) by blast
        then have "member_rule k (the (dict_get kvs k)) = member_rule k (the (dict_get lvs k))" using eq by blast
        then have "member_rule k x = member_rule k y" by (simp only: xy option.sel)
        then show "agree k j j'" using member [OF xy(1,2)] xy(3,4) by simp
      next
        fix k
        assume eq: "\<forall>k j j'. k \<notin> ?ann \<longrightarrow> jmap kvs k = Some j \<longrightarrow> jmap lvs k = Some j' \<longrightarrow> agree k j j'"
          and k: "k \<in> set (encoded_keys True kvs)"
        then obtain x y where xy: "dict_get kvs k = Some x" "dict_get lvs k = Some y"
          using in_keys keys by metis
        then have "agree k (denote x) (denote y)" using eq k in_keys by (simp add: jmap_def)
        then show "member_rule k (the (dict_get kvs k)) = member_rule k (the (dict_get lvs k))"
          using member [OF xy] xy by simp
      qed
    qed
    then show ?thesis
      using same_rules_agree [OF prems(3) [unfolded denote_VDict], of "jmap lvs"] encoded_keys_iff [OF d] by blast
  qed
  finally show ?case unfolding s s' denote_VDict .
qed

end
