(* ===== verification/ContractProperties.thy ===== *)
theory ContractProperties
  imports ValidationSpec
begin

text \<open>
  The properties of the value predicates, the schema profile and the instance validation, each
  with a witness on concrete documents.
\<close>

subsection \<open>Sample documents\<close>

text \<open>One schema and one instance with two violations, for the witnesses.\<close>

definition sample_schema :: pyval where
  "sample_schema = VDict
     [(ascii ''$schema'', VStr SCHEMA_URI), (ascii ''$id'', VStr (ascii ''urn:x'')),
      (ascii ''type'', VStr (ascii ''object'')),
      (ascii ''properties'', VDict
        [(ascii ''n'', VDict [(ascii ''type'', VStr (ascii ''integer'')),
           (ascii ''minimum'', VDec (DFin False 1 0))])]),
      (ascii ''required'', VList [VStr (ascii ''n'')]),
      (ascii ''additionalProperties'', VBool False)]"

definition sample_instance :: pyval where
  "sample_instance = VDict [(ascii ''n'', VDec (DFin False 0 0)), (ascii ''x/y'', VNone)]"

definition sample_violations :: "violation list" where
  "sample_violations = [(ascii ''minimum'', ascii ''/n''), (ascii ''additionalProperties'', [])]"

lemma sample_facts:
  "proper sample_schema" "proper sample_instance"
  "schema_issues (\<lambda>c. False) sample_schema = []"
  "validate_instance sample_instance sample_schema = Inr sample_violations"
  by (code_simp)+

lemma violation_set_reported:
  assumes "proper v" and "proper s" and "schema_issues pr s = []"
  shows "\<exists>ms. set ms = violation_set (denote s) (denote v) [] \<and>
    validate_instance v s = Inr (take MAX_VIOLATIONS ms)"
  using assms schema_issues_sound_complete validate_instance_reports by blast

lemma accepts_iff_no_violation:
  assumes "proper v" and "proper s" and "schema_issues pr s = []"
  shows "validate_instance v s = Inr [] \<longleftrightarrow> violation_set (denote s) (denote v) [] = {}"
proof -
  obtain ms where "set ms = violation_set (denote s) (denote v) []"
    "validate_instance v s = Inr (take MAX_VIOLATIONS ms)"
    using violation_set_reported [OF assms] by blast
  then show ?thesis by (cases ms) (auto simp: MAX_VIOLATIONS_def)
qed

text \<open>C1: on a schema the profile check accepts, \<open>validate_instance\<close> raises nothing and reports
  exactly the violations of the JSON Schema semantics (keyword and pointer), cut to the first 25.\<close>

theorem validate_instance_exact:
  assumes "proper v" and "proper s" and "schema_issues pr s = []"
  shows "\<exists>ms. set ms = {x. violates (denote s) (denote v) [] x} \<and>
    validate_instance v s = Inr (take MAX_VIOLATIONS ms)"
  using violation_set_reported [OF assms] by (simp add: violation_set_def)

theorem validate_instance_exact_witness:
  "\<exists>ms. set ms = {x. violates (denote sample_schema) (denote sample_instance) [] x} \<and>
     Inr sample_violations = (Inr (take MAX_VIOLATIONS ms) :: violation list result)"
  using validate_instance_exact [OF sample_facts(2,1,3)] by (simp add: sample_facts(4))

text \<open>C4: \<open>schema_issues\<close> returns no issue exactly for the schemas of the closed profile, read on
  the JSON value: allowed members, one type, matching keywords, ordered bounds, a unique and typed
  \<open>enum\<close>, audited patterns, and at most 128 levels.\<close>

theorem schema_issues_iff_profile:
  assumes "proper s"
  shows "schema_issues pr s = [] \<longleftrightarrow> schema_profile True 0 (denote s)"
  using assms by (rule schema_issues_sound_complete)

theorem schema_issues_iff_profile_witness: "schema_profile True 0 (denote sample_schema)"
  using schema_issues_iff_profile [OF sample_facts(1)] sample_facts(3) by blast

text \<open>C5: the pointer of every reported violation resolves in the instance under RFC 6901 and
  matches the pattern the manifest demands of expected violations.\<close>

theorem violation_paths_resolve:
  assumes "proper v" and "proper s" and "schema_issues pr s = []"
    and "validate_instance v s = Inr found" and "(keyword, path) \<in> set found"
  shows "(\<exists>w. resolve_pointer v path = Some w) \<and> re_fullmatch JSON_POINTER path \<noteq> None"
proof -
  have "violates (denote s) (denote v) [] (keyword, path)"
    using violation_set_reported [OF assms(1-3)] assms(4,5)
    by (auto simp: violation_set_def dest: in_set_takeD)
  moreover have "wf_val v" using assms(1) by (simp add: proper_def)
  ultimately show ?thesis
    using violation_paths unfolding JSON_POINTER_fullmatch by fastforce
qed

theorem violation_paths_resolve_witness:
  "(\<exists>w. resolve_pointer sample_instance (ascii ''/n'') = Some w) \<and>
     re_fullmatch JSON_POINTER (ascii ''/n'') \<noteq> None"
  by (rule violation_paths_resolve [OF sample_facts(2,1,3,4), of "ascii ''minimum''"])
    (simp add: sample_violations_def)

text \<open>C18: two documents and two schemas that denote the same JSON values (whatever the order of
  their keys and the spelling of their numbers) get the same verdict.\<close>

theorem verdict_depends_on_json_value:
  assumes "proper v" "proper v'" "proper s" "proper s'" "schema_issues pr s = []"
    and "denote v = denote v'" and "denote s = denote s'"
  shows "schema_issues pr s' = [] \<and>
    (validate_instance v s = Inr [] \<longleftrightarrow> validate_instance v' s' = Inr [])"
proof -
  have s': "schema_issues pr s' = []"
    using assms schema_issues_sound_complete by metis
  then show ?thesis
    using accepts_iff_no_violation assms by metis
qed

theorem verdict_depends_on_json_value_witness:
  "validate_instance (VInt 10) sample_schema = Inr [] \<longleftrightarrow>
     validate_instance (VDec (DFin False 1 1)) sample_schema = Inr []"
proof -
  have "proper (VInt 10)" "proper (VDec (DFin False 1 1))" by (simp_all add: proper_def)
  moreover have "denote (VInt 10) = denote (VDec (DFin False 1 1))" by (simp add: dec_scaled_def)
  ultimately show ?thesis
    using verdict_depends_on_json_value [OF _ _ sample_facts(1,1,3)] by blast
qed

text \<open>C19: whatever the schema file holds, the profile check prints at most fifty issues, each at
  most five hundred characters long, of the form \<open>at <path>: <message>\<close> and without a control
  character, as long as \<open>str.isprintable\<close> is false on the control characters.\<close>

theorem schema_issues_bounded_output:
  assumes "printable_table pr"
  shows "length (schema_issues pr schema) \<le> 50 \<and>
    (\<forall>e \<in> set (schema_issues pr schema).
       length e \<le> 500 \<and> take 3 e = ascii ''at '' \<and> (\<forall>c \<in> set e. \<not> is_control c))"
  using schema_issues_lines [OF assms, of schema]
  by (auto simp: issue_lines_def issue_line_def plain_text_def list_all_iff MAX_ERRORS_def)

theorem schema_issues_bounded_output_witness:
  "length (schema_issues (\<lambda>c. False) (VStr [10])) \<le> 50 \<and>
    list_all (\<lambda>e. length e \<le> 500 \<and> take 3 e = ascii ''at '' \<and> list_all (\<lambda>c. \<not> is_control c) e)
      (schema_issues (\<lambda>c. False) (VStr [10]))"
  using schema_issues_bounded_output [of "\<lambda>c. False" "VStr [10]"]
  by (simp add: printable_table_def list_all_iff)

text \<open>C20: \<open>json_equal\<close> decides equality of the JSON values two Python values denote: booleans are
  no numbers, numbers compare by exact value across \<open>int\<close>, \<open>float\<close> and \<open>Decimal\<close>, and objects as
  maps.\<close>

theorem json_equal_decides_equality:
  assumes "proper left" and "proper right"
  shows "json_equal left right \<longleftrightarrow> denote left = denote right"
  using assms by (simp add: proper_def json_equal_iff_denote)

theorem json_equal_decides_equality_witness:
  "denote (VFloat (FFin 1 (- 1))) = denote (VDec (DFin False 50 (- 2))) \<and>
     denote (VBool True) \<noteq> denote (VInt 1)"
proof -
  have "json_equal (VFloat (FFin 1 (- 1))) (VDec (DFin False 50 (- 2)))"
    "\<not> json_equal (VBool True) (VInt 1)" by (code_simp)+
  moreover have "proper (VFloat (FFin 1 (- 1)))" "proper (VDec (DFin False 50 (- 2)))"
    "proper (VBool True)" "proper (VInt 1)" by (simp_all add: proper_def)
  ultimately show ?thesis using json_equal_decides_equality by blast
qed

text \<open>C21: \<open>pointer_join\<close> escapes its token so that splitting and unescaping give it back: a pointer
  extended by a member name resolves to exactly that member, and no two names collide.\<close>

theorem pointer_join_resolves:
  assumes "resolve_pointer doc p = Some (VDict kvs)"
  shows "resolve_pointer doc (pointer_join p (Name k)) = dict_get kvs k \<and>
    (\<forall>k'. pointer_join p (Name k) = pointer_join p (Name k') \<longleftrightarrow> k = k')"
  using resolve_pointer_join [OF assms, of "Name k"] by (simp add: pointer_join_def)

theorem pointer_join_resolves_witness:
  "resolve_pointer sample_instance (pointer_join [] (Name (ascii ''x/y''))) = Some VNone"
  using pointer_join_resolves [of sample_instance "[]" "[(ascii ''n'', VDec (DFin False 0 0)),
      (ascii ''x/y'', VNone)]" "ascii ''x/y''"]
  by (simp add: resolve_pointer_def sample_instance_def)

end
