(* ===== verification/FingerprintProperties.thy ===== *)
theory FingerprintProperties
  imports FingerprintRules ContractProperties
begin

text \<open>
  The properties of the schema fingerprint: what it depends on, and that schemas with equal
  canonical text validate alike.
\<close>

lemma accepted_profile:
  "exact_val s \<Longrightarrow> schema_issues pr s = [] \<Longrightarrow> schema_profile True 0 (denote s)"
  using exact_proper schema_issues_sound_complete by blast

lemma canonical_text_code:
  assumes "exact_val s" and "schema_issues pr s = []"
  shows "canonical_text s = Inr (dumps (rule_code s))" and "enc_scalar (rule_code s)"
  using profile_ruled [OF assms(1) accepted_profile [OF assms]] by (simp_all add: canonical_text_def ruled_def)

lemma canonical_text_same_rules:
  assumes "exact_val s" and "schema_issues pr s = []" and "exact_val t" and "schema_issues pr t = []"
  shows "canonical_text s = canonical_text t \<longleftrightarrow> same_rules (denote s) (denote t)"
proof -
  have "canonical_text s = canonical_text t \<longleftrightarrow> rule_code s = rule_code t"
    using canonical_text_code [OF assms(1,2)] canonical_text_code [OF assms(3,4)] by (simp add: dumps_inject)
  also have "\<dots> \<longleftrightarrow> same_rules (denote s) (denote t)"
    using assms accepted_profile by (intro rule_code_same_rules) blast+
  finally show ?thesis .
qed

text \<open>A second spelling of the sample schema: other key order, an annotation, another numeral.\<close>

definition respelled_schema :: pyval where
  "respelled_schema = VDict
     [(ascii ''title'', VStr (ascii ''t'')), (ascii ''type'', VStr (ascii ''object'')),
      (ascii ''required'', VList [VStr (ascii ''n'')]),
      (ascii ''properties'', VDict
        [(ascii ''n'', VDict [(ascii ''minimum'', VDec (DFin False 10 (- 1))),
           (ascii ''type'', VStr (ascii ''integer''))])]),
      (ascii ''additionalProperties'', VBool False),
      (ascii ''$id'', VStr (ascii ''urn:x'')), (ascii ''$schema'', VStr SCHEMA_URI)]"

lemma respelled_facts:
  "exact_val sample_schema" "exact_val respelled_schema"
  "schema_issues (\<lambda>c. False) respelled_schema = []"
  "canonical_text sample_schema = canonical_text respelled_schema"
proof -
  show "exact_val sample_schema" "exact_val respelled_schema"
    by (simp_all add: sample_schema_def respelled_schema_def SCHEMA_URI_def scalar_ascii)
qed (code_simp)+

text \<open>C7: two accepted schemas have the same canonical text, hence the same fingerprint input, exactly
  when their rules agree keyword by keyword: only annotations, the order of keys, the order of
  \<open>required\<close> and \<open>enum\<close> and the spelling of numbers may differ.\<close>

theorem canonical_text_iff_same_rules:
  assumes "exact_val s" and "schema_issues pr s = []" and "exact_val t" and "schema_issues pr t = []"
  shows "canonical_text s = canonical_text t \<longleftrightarrow> same_rules (denote s) (denote t)"
  using assms by (rule canonical_text_same_rules)

theorem canonical_text_iff_same_rules_witness:
  "same_rules (denote sample_schema) (denote respelled_schema)"
  using canonical_text_iff_same_rules [OF respelled_facts(1) sample_facts(3) respelled_facts(2,3)]
    respelled_facts(4) by simp

text \<open>C8: accepted schemas with the same canonical text accept the same instances and, on an instance
  they refuse, name the same keywords at the same pointers.\<close>

theorem canonical_text_pins_validation:
  assumes "exact_val s" and "schema_issues pr s = []" and "exact_val t" and "schema_issues pr t = []"
    and "canonical_text s = canonical_text t" and "proper v"
  shows "\<exists>ms ns. set ms = set ns \<and> validate_instance v s = Inr (take MAX_VIOLATIONS ms) \<and>
    validate_instance v t = Inr (take MAX_VIOLATIONS ns)"
proof -
  have "same_rules (denote s) (denote t)" "same_rules (denote t) (denote s)"
    using canonical_text_same_rules [OF assms(1-4)] canonical_text_same_rules [OF assms(3,4,1,2)] assms(5)
    by simp_all
  then have "violation_set (denote s) (denote v) [] = violation_set (denote t) (denote v) []"
    using same_rules_violates by (auto simp: violation_set_def)
  then show ?thesis
    using violation_set_reported [OF assms(6) exact_proper [OF assms(1)] assms(2)]
      violation_set_reported [OF assms(6) exact_proper [OF assms(3)] assms(4)] by metis
qed

theorem canonical_text_pins_validation_witness:
  "\<exists>ms ns. set ms = set ns \<and> validate_instance sample_instance sample_schema = Inr (take MAX_VIOLATIONS ms) \<and>
    validate_instance sample_instance respelled_schema = Inr (take MAX_VIOLATIONS ns)"
  using canonical_text_pins_validation [OF respelled_facts(1) sample_facts(3) respelled_facts(2,3,4)
    sample_facts(2)] .

text \<open>C22: the fingerprint of an accepted schema is computed without an exception, has 64 characters and
  is the same for every schema with the same rules.\<close>

theorem fingerprint_of_accepted_schema:
  assumes "exact_val s" and "schema_issues pr s = []"
  shows "\<exists>h. schema_validation_fingerprint s = Inr h \<and> length h = 64 \<and>
    (\<forall>t. (exact_val t \<and> schema_issues pr t = [] \<and> same_rules (denote s) (denote t)) \<longrightarrow>
       schema_validation_fingerprint t = Inr h)"
proof -
  have "schema_validation_fingerprint t = schema_validation_fingerprint s"
    if "exact_val t \<and> schema_issues pr t = [] \<and> same_rules (denote s) (denote t)" for t
    using that canonical_text_same_rules [OF assms, of t] by (simp add: schema_validation_fingerprint_def)
  then show ?thesis
    using canonical_text_code(1) [OF assms] by (simp add: schema_validation_fingerprint_def length_sha256_hexdigest)
qed

theorem fingerprint_of_accepted_schema_witness:
  "\<exists>h. schema_validation_fingerprint sample_schema = Inr h \<and> length h = 64"
  using fingerprint_of_accepted_schema [OF respelled_facts(1) sample_facts(3)] by auto

end
