(* ===== verification/FileTree.thy ===== *)
theory FileTree
  imports Utf8
begin

text \<open>
  The file system as \<open>pathlib\<close> and \<open>os.walk\<close> show it to the scripts: a tree of files, directories
  and symbolic links, read-only while a check runs. A file that cannot be opened has no contents; a
  link is given with the node it resolves to, or none when it is broken. A device or a pipe is given
  with what reading it to its end yields. Directories are readable and searchable.
  A directory entry whose name is longer than 255 bytes cannot exist: looking one up raises
  \<open>OSError\<close> (\<open>ENAMETOOLONG\<close> is not among the errors \<open>is_symlink\<close> and \<open>is_file\<close> swallow).
\<close>

datatype node =
    RegularFile "byte list option"
  | Directory "(ustring \<times> node) list"
  | Link "node option"
  | OtherNode "byte list option"

subsection \<open>Paths\<close>

text \<open>\<open>pathlib.PurePosixPath\<close>: the root is empty, one slash or exactly two; parts are neither empty nor \<open>.\<close>.\<close>

datatype path = Path (path_root: ustring) (path_parts: "ustring list")

definition slashes :: "ustring \<Rightarrow> ustring" where
  "slashes s = takeWhile (\<lambda>c. c = 47) s"

definition parse_path :: "ustring \<Rightarrow> path" where
  "parse_path s =
     Path (case slashes s of [] \<Rightarrow> [] | [_, _] \<Rightarrow> [47, 47] | _ \<Rightarrow> [47])
       (filter (\<lambda>p. p \<noteq> [] \<and> p \<noteq> [46]) (split_on 47 s))"

definition relative_path :: "string list \<Rightarrow> path" where
  "relative_path ps = Path [] (map ascii ps)"

definition as_posix :: "path \<Rightarrow> ustring" where
  "as_posix p =
     (if path_root p = [] \<and> path_parts p = [] then [46]
      else path_root p @ join_with [47] (path_parts p))"

definition is_absolute :: "path \<Rightarrow> bool" where
  "is_absolute p \<longleftrightarrow> path_root p \<noteq> []"

text \<open>\<open>relative_to\<close> raises \<open>ValueError\<close> exactly when this does not hold.\<close>

definition is_under :: "path \<Rightarrow> path \<Rightarrow> bool" where
  "is_under prefix p \<longleftrightarrow> path_root prefix = path_root p \<and>
     take (length (path_parts prefix)) (path_parts p) = path_parts prefix"

text \<open>Paths are ordered by their parts, for \<open>sorted\<close>.\<close>

instantiation path :: linorder
begin

definition less_eq_path :: "path \<Rightarrow> path \<Rightarrow> bool" where
  "less_eq_path p q \<longleftrightarrow> path_root p < path_root q \<or> path_root p = path_root q \<and> path_parts p \<le> path_parts q"

definition less_path :: "path \<Rightarrow> path \<Rightarrow> bool" where
  "less_path p q \<longleftrightarrow> path_root p < path_root q \<or> path_root p = path_root q \<and> path_parts p < path_parts q"

instance
  by standard (auto simp: less_eq_path_def less_path_def path.expand)

end

subsection \<open>Lookup\<close>

definition name_too_long :: "ustring \<Rightarrow> bool" where
  "name_too_long name \<longleftrightarrow> 255 < length (utf8_encode name)"

fun follow :: "node \<Rightarrow> node option" where
  "follow (Link (Some n)) = follow n"
| "follow (Link None) = None"
| "follow n = Some n"

text \<open>
  \<open>lstat\<close>: links are followed on the way, not at the end. A path with a null byte names nothing
  (\<open>pathlib\<close> swallows the \<open>ValueError\<close>).
\<close>

fun resolve :: "node \<Rightarrow> ustring list \<Rightarrow> node option result" where
  "resolve n [] = Inr (Some n)"
| "resolve n (p # ps) =
     (case follow n of
        Some (Directory entries) \<Rightarrow>
          if name_too_long p then Inl OSError
          else (case map_of entries p of None \<Rightarrow> Inr None | Some m \<Rightarrow> resolve m ps)
      | _ \<Rightarrow> Inr None)"

definition lstat :: "node \<Rightarrow> ustring list \<Rightarrow> node option result" where
  "lstat n ps = (if list_ex (\<lambda>p. 0 \<in> set p) ps then Inr None else resolve n ps)"

definition is_symlink :: "node \<Rightarrow> ustring list \<Rightarrow> bool result" where
  "is_symlink n ps = bindR (lstat n ps) (\<lambda>m. Inr (case m of Some (Link t) \<Rightarrow> True | _ \<Rightarrow> False))"

definition is_file :: "node \<Rightarrow> ustring list \<Rightarrow> bool result" where
  "is_file n ps =
     bindR (lstat n ps) (\<lambda>m.
     Inr (case m of None \<Rightarrow> False
       | Some t \<Rightarrow> (case follow t of Some (RegularFile c) \<Rightarrow> True | _ \<Rightarrow> False)))"

definition is_dir_node :: "node \<Rightarrow> bool" where
  "is_dir_node n \<longleftrightarrow> (case follow n of Some (Directory es) \<Rightarrow> True | _ \<Rightarrow> False)"

text \<open>What opening and reading a path yields; \<open>None\<close> stands for \<open>OSError\<close>.\<close>

definition file_contents :: "node \<Rightarrow> ustring list \<Rightarrow> byte list option" where
  "file_contents n ps =
     (case lstat n ps of
        Inr (Some t) \<Rightarrow> (case follow t of Some (RegularFile c) \<Rightarrow> c | Some (OtherNode c) \<Rightarrow> c | _ \<Rightarrow> None)
      | _ \<Rightarrow> None)"

subsection \<open>os.walk\<close>

fun is_link :: "node \<Rightarrow> bool" where
  "is_link (Link t) = True"
| "is_link n = False"

text \<open>
  \<open>os.walk(top, followlinks=False)\<close>: one triple per directory, top down: its path, its entries that
  are directories (links to directories included) and its other entries.
\<close>

type_synonym walk_step = "ustring list \<times> (ustring \<times> node) list \<times> (ustring \<times> node) list"

fun walk_entries :: "ustring list \<Rightarrow> node \<Rightarrow> walk_step list" where
  "walk_entries base (Directory es) =
     (base, filter (\<lambda>(n, m). is_dir_node m) es, filter (\<lambda>(n, m). \<not> is_dir_node m) es) #
     concat (map (\<lambda>(n, m). walk_entries (base @ [n]) m) es)"
| "walk_entries base n = []"

definition os_walk :: "ustring list \<Rightarrow> node \<Rightarrow> walk_step list" where
  "os_walk base n = (case follow n of None \<Rightarrow> [] | Some t \<Rightarrow> walk_entries base t)"

end
