(* ===== verification/JsonScanner.thy ===== *)
theory JsonScanner
  imports Utf8 PyValues
begin

text \<open>
  \<open>json.loads\<close> of the standard library, as its scanner reads a text, with the hooks
  \<open>strict_json\<close> passes to it (\<open>scripts/check_contract.py\<close>). A position in the text is the number
  of characters that are left from there. The scanner recurses on fuel; more fuel than characters
  is always enough.
\<close>

subsection \<open>Errors and interpreter limits\<close>

datatype json_error =
    JSONDecodeError nat
  | RecursionError
  | Raised exc
  | OutOfFuel

text \<open>
  How many containers the scanner can enter and at how many open containers it can still call a
  Python function before the interpreter raises \<open>RecursionError\<close>: both depend on the interpreter
  and its stack, and every result holds for all of them.
\<close>

record interpreter =
  max_nesting :: nat
  max_hook_nesting :: nat

subsection \<open>Hooks\<close>

definition decimal_max_exponent :: int where "decimal_max_exponent = 999999999999999999"
definition decimal_min_exponent :: int where "decimal_min_exponent = - 1999999999999999997"

text \<open>The values \<open>Decimal(text)\<close> represents exactly; outside, it raises \<open>InvalidOperation\<close>.\<close>

definition decimal_in_range :: "nat \<Rightarrow> int \<Rightarrow> bool" where
  "decimal_in_range c e \<longleftrightarrow> decimal_min_exponent \<le> e \<and>
     (if c = 0 then e \<le> decimal_max_exponent
      else e + int (length (digits10 c)) - 1 \<le> decimal_max_exponent)"

text \<open>A JSON number as the scanner splits it: sign, integer digits, fraction digits, exponent.\<close>

record numeral_text =
  negative :: bool
  int_digits :: ustring
  frac_digits :: ustring
  exp_negative :: bool
  exp_digits :: ustring

definition digit_values :: "ustring \<Rightarrow> nat" where
  "digit_values ds = digits_value 0 (map (\<lambda>c. c - 48) ds)"

definition numeral_exponent :: "numeral_text \<Rightarrow> int" where
  "numeral_exponent n =
     (if exp_negative n then - int (digit_values (exp_digits n)) else int (digit_values (exp_digits n)))
     - int (length (frac_digits n))"

definition exact_decimal :: "numeral_text \<Rightarrow> pyval result" where
  "exact_decimal n =
     (let c = digit_values (int_digits n @ frac_digits n); e = numeral_exponent n in
      if decimal_in_range c e then Inr (VDec (DFin (negative n) c e))
      else Inl (JSONArtifactError (ascii ''JSON number exceeds the checker exact-number range'')))"

definition reject_constant :: "pyval result" where
  "reject_constant = Inl (JSONDocumentError (ascii ''JSON document contains a non-finite number''))"

definition unique_object :: "entries \<Rightarrow> pyval result" where
  "unique_object pairs =
     bindR (foldR (\<lambda>(key, v) result.
         if dict_has result key
         then Inl (JSONDocumentError (ascii ''JSON document contains a duplicate object key''))
         else Inr (dict_set key v result)) pairs [])
       (\<lambda>result. Inr (VDict result))"

definition call_hook :: "interpreter \<Rightarrow> nat \<Rightarrow> pyval result \<Rightarrow> json_error + pyval" where
  "call_hook I depth hook =
     (if max_hook_nesting I \<le> depth then Inl RecursionError
      else case hook of Inl e \<Rightarrow> Inl (Raised e) | Inr v \<Rightarrow> Inr v)"

subsection \<open>Strings\<close>

definition json_space :: "nat \<Rightarrow> bool" where
  "json_space c \<longleftrightarrow> c = 32 \<or> c = 9 \<or> c = 10 \<or> c = 13"

definition skip_space :: "ustring \<Rightarrow> ustring" where
  "skip_space s = dropWhile json_space s"

definition hex_value :: "nat \<Rightarrow> nat option" where
  "hex_value c =
     (if 48 \<le> c \<and> c \<le> 57 then Some (c - 48)
      else if 65 \<le> c \<and> c \<le> 70 then Some (c - 55)
      else if 97 \<le> c \<and> c \<le> 102 then Some (c - 87) else None)"

fun hex_quad :: "ustring \<Rightarrow> nat option" where
  "hex_quad (a # b # c # d # rest) =
     (case (hex_value a, hex_value b, hex_value c, hex_value d) of
        (Some x, Some y, Some z, Some w) \<Rightarrow> Some (((x * 16 + y) * 16 + z) * 16 + w)
      | _ \<Rightarrow> None)"
| "hex_quad s = None"

definition simple_escape :: "nat \<Rightarrow> nat option" where
  "simple_escape c =
     (if c = 34 \<or> c = 92 \<or> c = 47 then Some c
      else if c = 98 then Some 8 else if c = 102 then Some 12 else if c = 110 then Some 10
      else if c = 114 then Some 13 else if c = 116 then Some 9 else None)"

text \<open>
  The escape after \<open>\u\<close>: four hexadecimal digits and at least one more character; a high
  surrogate is joined with an escaped low surrogate when at least one character follows both.
\<close>

definition scan_unicode :: "ustring \<Rightarrow> json_error + nat \<times> ustring" where
  "scan_unicode s =
     (if length s < 5 then Inl (JSONDecodeError (length s + 1))
      else case hex_quad s of
        None \<Rightarrow> Inl (JSONDecodeError (length s + 1))
      | Some c \<Rightarrow>
          (case drop 4 s of
             b # u # rest \<Rightarrow>
               if 55296 \<le> c \<and> c < 56320 \<and> 5 \<le> length rest \<and> b = 92 \<and> u = 117 then
                 (case hex_quad rest of
                    None \<Rightarrow> Inl (JSONDecodeError (length rest + 1))
                  | Some c2 \<Rightarrow>
                      if 56320 \<le> c2 \<and> c2 < 57344
                      then Inr (65536 + (c - 55296) * 1024 + (c2 - 56320), drop 4 rest)
                      else Inr (c, drop 4 s))
               else Inr (c, drop 4 s)
           | _ \<Rightarrow> Inr (c, drop 4 s)))"

lemma drop_4_length: "drop 4 s = b # u # rest \<Longrightarrow> length s = length rest + 6"
  using length_drop [of 4 s] by simp

lemma scan_unicode_shorter: "scan_unicode s = Inr (c, rest) \<Longrightarrow> length rest < length s"
  by (auto simp: scan_unicode_def dest: drop_4_length split: if_splits option.splits list.splits)

text \<open>\<open>start\<close> is the position of the opening quote.\<close>

function scan_string :: "nat \<Rightarrow> ustring \<Rightarrow> json_error + ustring \<times> ustring" where
  "scan_string start [] = Inl (JSONDecodeError start)"
| "scan_string start (c # s) =
     (if c = 34 then Inr ([], s)
      else if c = 92 then
        (case s of
           [] \<Rightarrow> Inl (JSONDecodeError start)
         | e # r \<Rightarrow>
             if e = 117 then
               bindR (scan_unicode r) (\<lambda>(x, rest).
               bindR (scan_string start rest) (\<lambda>(t, rest'). Inr (x # t, rest')))
             else
               (case simple_escape e of
                  None \<Rightarrow> Inl (JSONDecodeError (length (c # s)))
                | Some x \<Rightarrow> bindR (scan_string start r) (\<lambda>(t, rest'). Inr (x # t, rest'))))
      else if c \<le> 31 then Inl (JSONDecodeError (length (c # s)))
      else bindR (scan_string start s) (\<lambda>(t, rest'). Inr (c # t, rest')))"
  by pat_completeness auto
termination
  by (relation "measure (\<lambda>(start, s). length s)") (auto dest: scan_unicode_shorter)

subsection \<open>Numbers\<close>

definition is_digit :: "nat \<Rightarrow> bool" where
  "is_digit c \<longleftrightarrow> 48 \<le> c \<and> c \<le> 57"

definition scan_int :: "ustring \<Rightarrow> (ustring \<times> ustring) option" where
  "scan_int s =
     (case s of
        [] \<Rightarrow> None
      | c # r \<Rightarrow>
          if 49 \<le> c \<and> c \<le> 57 then Some (takeWhile is_digit s, dropWhile is_digit s)
          else if c = 48 then Some ([c], r) else None)"

definition scan_frac :: "ustring \<Rightarrow> ustring \<times> ustring" where
  "scan_frac s =
     (case s of
        p # d # r \<Rightarrow>
          if p = 46 \<and> is_digit d then (takeWhile is_digit (d # r), dropWhile is_digit (d # r))
          else ([], s)
      | _ \<Rightarrow> ([], s))"

definition scan_exp :: "ustring \<Rightarrow> bool \<times> ustring \<times> ustring" where
  "scan_exp s =
     (case s of
        x # r \<Rightarrow>
          if x = 101 \<or> x = 69 then
            (let signed = (case r of g # t # u \<Rightarrow> g = 43 \<or> g = 45 | _ \<Rightarrow> False);
                 digits = (if signed then tl r else r)
             in if takeWhile is_digit digits = [] then (False, [], s)
                else (signed \<and> hd r = 45, takeWhile is_digit digits, dropWhile is_digit digits))
          else (False, [], s)
      | _ \<Rightarrow> (False, [], s))"

definition scan_number :: "ustring \<Rightarrow> (numeral_text \<times> ustring) option" where
  "scan_number s =
     (let sign = (s \<noteq> [] \<and> hd s = 45) in
      case scan_int (if sign then tl s else s) of
        None \<Rightarrow> None
      | Some (ip, r1) \<Rightarrow>
          (case scan_frac r1 of (fp, r2) \<Rightarrow>
           (case scan_exp r2 of (eneg, ed, r3) \<Rightarrow>
              Some (\<lparr>negative = sign, int_digits = ip, frac_digits = fp, exp_negative = eneg,
                exp_digits = ed\<rparr>, r3))))"

subsection \<open>Values\<close>

definition scan_constant :: "interpreter \<Rightarrow> nat \<Rightarrow> ustring \<Rightarrow> json_error + pyval \<times> ustring" where
  "scan_constant I depth rest = bindR (call_hook I depth reject_constant) (\<lambda>v. Inr (v, rest))"

definition scan_atom :: "interpreter \<Rightarrow> nat \<Rightarrow> ustring \<Rightarrow> json_error + pyval \<times> ustring" where
  "scan_atom I depth s =
     (if starts_with (ascii ''null'') s then Inr (VNone, drop 4 s)
      else if starts_with (ascii ''true'') s then Inr (VBool True, drop 4 s)
      else if starts_with (ascii ''false'') s then Inr (VBool False, drop 5 s)
      else if starts_with (ascii ''NaN'') s then scan_constant I depth (drop 3 s)
      else if starts_with (ascii ''Infinity'') s then scan_constant I depth (drop 8 s)
      else if starts_with (ascii ''-Infinity'') s then scan_constant I depth (drop 9 s)
      else case scan_number s of
        None \<Rightarrow> Inl (JSONDecodeError (length s))
      | Some (n, rest) \<Rightarrow> bindR (call_hook I depth (exact_decimal n)) (\<lambda>v. Inr (v, rest)))"

text \<open>
  \<open>scan_pairs\<close> and \<open>scan_items\<close> are the loops of the object and array parsers after their opening
  bracket; \<open>depth\<close> counts the open containers.
\<close>

fun scan_value :: "interpreter \<Rightarrow> nat \<Rightarrow> nat \<Rightarrow> ustring \<Rightarrow> json_error + pyval \<times> ustring"
  and scan_pairs :: "interpreter \<Rightarrow> nat \<Rightarrow> nat \<Rightarrow> ustring \<Rightarrow> json_error + entries \<times> ustring"
  and scan_items :: "interpreter \<Rightarrow> nat \<Rightarrow> nat \<Rightarrow> ustring \<Rightarrow> json_error + pyval list \<times> ustring"
where
  "scan_value I 0 depth s = Inl OutOfFuel"
| "scan_value I (Suc fuel) depth text =
     (case text of
        [] \<Rightarrow> Inl (JSONDecodeError 0)
      | c # s \<Rightarrow>
      if c = 34 then bindR (scan_string (length text) s) (\<lambda>(t, rest). Inr (VStr t, rest))
      else if c = 123 then
        (if max_nesting I \<le> depth then Inl RecursionError
         else
           bindR (case skip_space s of
               [] \<Rightarrow> Inl (JSONDecodeError 0)
             | b # r \<Rightarrow> if b = 125 then Inr ([], r) else scan_pairs I fuel (depth + 1) (b # r))
             (\<lambda>(pairs, rest).
           bindR (call_hook I (depth + 1) (unique_object pairs)) (\<lambda>v. Inr (v, rest))))
      else if c = 91 then
        (if max_nesting I \<le> depth then Inl RecursionError
         else
           bindR (case skip_space s of
               [] \<Rightarrow> Inl (JSONDecodeError 0)
             | b # r \<Rightarrow> if b = 93 then Inr ([], r) else scan_items I fuel (depth + 1) (b # r))
             (\<lambda>(items, rest). Inr (VList items, rest)))
      else scan_atom I depth text)"
| "scan_pairs I 0 depth s = Inl OutOfFuel"
| "scan_pairs I (Suc fuel) depth s =
     (case s of
        [] \<Rightarrow> Inl (JSONDecodeError 0)
      | q # r \<Rightarrow>
          if q \<noteq> 34 then Inl (JSONDecodeError (length s))
          else
            bindR (scan_string (length s) r) (\<lambda>(key, r1).
            case skip_space r1 of
              [] \<Rightarrow> Inl (JSONDecodeError 0)
            | k # r2 \<Rightarrow>
                if k \<noteq> 58 then Inl (JSONDecodeError (length (k # r2)))
                else
                  bindR (scan_value I fuel depth (skip_space r2)) (\<lambda>(v, r3).
                  case skip_space r3 of
                    [] \<Rightarrow> Inl (JSONDecodeError 0)
                  | d # r4 \<Rightarrow>
                      if d = 125 then Inr ([(key, v)], r4)
                      else if d = 44 then
                        bindR (scan_pairs I fuel depth (skip_space r4)) (\<lambda>(pairs, rest).
                        Inr ((key, v) # pairs, rest))
                      else Inl (JSONDecodeError (length (d # r4))))))"
| "scan_items I 0 depth s = Inl OutOfFuel"
| "scan_items I (Suc fuel) depth s =
     bindR (scan_value I fuel depth s) (\<lambda>(v, r1).
     case skip_space r1 of
       [] \<Rightarrow> Inl (JSONDecodeError 0)
     | d # r2 \<Rightarrow>
         if d = 93 then Inr ([v], r2)
         else if d = 44 then
           bindR (scan_items I fuel depth (skip_space r2)) (\<lambda>(items, rest). Inr (v # items, rest))
         else Inl (JSONDecodeError (length (d # r2))))"

text \<open>The equations for a numeral as fuel, for evaluation.\<close>

lemmas scan_numerals =
  scan_value.simps(2) [of _ "pred_numeral k" for k, folded numeral_eq_Suc]
  scan_pairs.simps(2) [of _ "pred_numeral k" for k, folded numeral_eq_Suc]
  scan_items.simps(2) [of _ "pred_numeral k" for k, folded numeral_eq_Suc]

text \<open>\<open>json.loads\<close>: a leading byte order mark is an error at the start, text after the value an
  error where it begins.\<close>

definition json_loads :: "interpreter \<Rightarrow> ustring \<Rightarrow> json_error + pyval" where
  "json_loads I text =
     (if starts_with [65279] text then Inl (JSONDecodeError (length text))
      else
        bindR (scan_value I (2 * length text + 2) 0 (skip_space text)) (\<lambda>(v, rest).
        if skip_space rest = [] then Inr v
        else Inl (JSONDecodeError (length (skip_space rest)))))"

text \<open>The line and the column of a position.\<close>

definition line_number :: "ustring \<Rightarrow> nat \<Rightarrow> nat" where
  "line_number text left = length (filter (\<lambda>c. c = 10) (take (length text - left) text)) + 1"

definition column_number :: "ustring \<Rightarrow> nat \<Rightarrow> nat" where
  "column_number text left = length (takeWhile (\<lambda>c. c \<noteq> 10) (rev (take (length text - left) text))) + 1"

end
