(* ===== verification/JsonScannerFacts.thy ===== *)
theory JsonScannerFacts
  imports JsonScanner
begin

text \<open>
  The scanner consumes its input, never runs out of fuel, and builds well-formed values: no key
  twice, finite decimals, code points below \<open>0x110000\<close>.
\<close>

subsection \<open>Progress\<close>

lemma skip_space_le: "length (skip_space s) \<le> length s"
  by (simp add: skip_space_def length_dropWhile_le)

lemma skip_space_Cons: "skip_space s = c # r \<Longrightarrow> length r < length s"
  using skip_space_le [of s] by simp

lemma scan_string_shorter: "scan_string start s = Inr (t, rest) \<Longrightarrow> length rest < length s"
  by (induction start s arbitrary: t rest rule: scan_string.induct)
    (fastforce simp: bindR_eq_Inr split: if_splits option.splits list.splits dest: scan_unicode_shorter)+

lemma drop_digits_le: "length s \<le> n \<Longrightarrow> length (dropWhile is_digit s) \<le> n"
  using length_dropWhile_le [of is_digit s] by simp

lemma is_digit_nonzero: "49 \<le> c \<Longrightarrow> c \<le> 57 \<Longrightarrow> is_digit c"
  by (simp add: is_digit_def)

lemma scan_int_shorter: "scan_int s = Some (ds, rest) \<Longrightarrow> length rest < length s"
  by (cases s) (auto simp: scan_int_def is_digit_nonzero less_Suc_eq_le length_dropWhile_le split: if_splits)

lemma scan_frac_le: "scan_frac s = (ds, rest) \<Longrightarrow> length rest \<le> length s"
  by (auto simp: scan_frac_def intro: drop_digits_le le_SucI split: list.splits if_splits)

lemma scan_exp_le: "scan_exp s = (b, ds, rest) \<Longrightarrow> length rest \<le> length s"
  by (auto simp: scan_exp_def Let_def intro: drop_digits_le le_SucI split: list.splits if_splits)

lemma scan_numberE:
  assumes "scan_number s = Some (n, rest)"
  obtains r1 r2 eneg ed where "scan_int (if s \<noteq> [] \<and> hd s = 45 then tl s else s) = Some (int_digits n, r1)"
    and "scan_frac r1 = (frac_digits n, r2)" and "scan_exp r2 = (exp_negative n, exp_digits n, rest)"
  using assms unfolding scan_number_def Let_def by (auto split: option.splits prod.splits)

lemma scan_number_shorter: "scan_number s = Some (n, rest) \<Longrightarrow> length rest < length s"
  by (erule scan_numberE) (cases s; fastforce split: if_splits dest!: scan_int_shorter scan_frac_le scan_exp_le)

lemma starts_with_length: "starts_with p s \<Longrightarrow> length p \<le> length s"
  by (metis starts_with_def length_take min.cobounded1)

lemma scan_atom_shorter: "scan_atom I depth s = Inr (v, rest) \<Longrightarrow> length rest < length s"
  by (auto simp: scan_atom_def scan_constant_def bindR_eq_Inr split: if_splits option.splits
      dest!: starts_with_length scan_number_shorter)

subsection \<open>The cases of a successful scan\<close>

lemma scan_valueE:
  assumes "scan_value I fuel depth s = Inr (v, rest)"
  obtains
    (string) u t where "s = 34 # u" and "scan_string (length s) u = Inr (t, rest)" and "v = VStr t"
  | (no_pairs) u where "s = 123 # u" and "skip_space u = 125 # rest" and "depth < max_nesting I"
      and "unique_object [] = Inr v"
  | (pairs) f u r ps where "fuel = Suc f" and "s = 123 # u" and "skip_space u = r" and "depth < max_nesting I"
      and "scan_pairs I f (depth + 1) r = Inr (ps, rest)" and "unique_object ps = Inr v"
  | (no_items) u where "s = 91 # u" and "skip_space u = 93 # rest" and "depth < max_nesting I" and "v = VList []"
  | (items) f u r vs where "fuel = Suc f" and "s = 91 # u" and "skip_space u = r" and "depth < max_nesting I"
      and "scan_items I f (depth + 1) r = Inr (vs, rest)" and "v = VList vs"
  | (atom) "scan_atom I depth s = Inr (v, rest)"
proof -
  obtain f where f: "fuel = Suc f" using assms by (cases fuel) auto
  obtain c u where s: "s = c # u" using assms f by (cases s) auto
  have hook: "call_hook I d h = Inr w \<longleftrightarrow> d < max_hook_nesting I \<and> h = Inr w" for d h w
    by (auto simp: call_hook_def split: sum.splits)
  consider "c = 34" | "c = 123" | "c = 91" | "c \<notin> {34, 123, 91}" by blast
  then show ?thesis
  proof cases
    case 1
    then show ?thesis using assms f s by (auto simp: bindR_eq_Inr intro: string)
  next
    case 2
    then show ?thesis using assms f s no_pairs pairs
      by (cases "skip_space u") (auto simp: bindR_eq_Inr hook not_le split: if_splits)
  next
    case 3
    then show ?thesis using assms f s no_items items
      by (cases "skip_space u") (auto simp: bindR_eq_Inr not_le split: if_splits)
  next
    case 4
    then show ?thesis using assms f s by (auto intro: atom)
  qed
qed

lemma scan_pairsE:
  assumes "scan_pairs I fuel depth s = Inr (ps, rest)"
  obtains (last) f r key r1 r2 v r3 where "fuel = Suc f" and "s = 34 # r"
    and "scan_string (length s) r = Inr (key, r1)" and "skip_space r1 = 58 # r2"
    and "scan_value I f depth (skip_space r2) = Inr (v, r3)"
    and "skip_space r3 = 125 # rest" and "ps = [(key, v)]"
  | (more) f r key r1 r2 v r3 r4 qs where "fuel = Suc f" and "s = 34 # r"
    and "scan_string (length s) r = Inr (key, r1)" and "skip_space r1 = 58 # r2"
    and "scan_value I f depth (skip_space r2) = Inr (v, r3)"
    and "skip_space r3 = 44 # r4" and "scan_pairs I f depth (skip_space r4) = Inr (qs, rest)"
    and "ps = (key, v) # qs"
proof -
  obtain f where f: "fuel = Suc f" using assms by (cases fuel) auto
  obtain r where r: "s = 34 # r" using assms unfolding f by (cases s) (auto split: if_splits)
  obtain key r1 where key: "scan_string (length s) r = Inr (key, r1)"
    using assms unfolding f r by (auto simp: bindR_eq_Inr)
  obtain r2 where r2: "skip_space r1 = 58 # r2"
    using assms key unfolding f r by (cases "skip_space r1") (auto split: if_splits)
  obtain v r3 where v: "scan_value I f depth (skip_space r2) = Inr (v, r3)"
    using assms key r2 unfolding f r by (auto simp: bindR_eq_Inr)
  note facts = f r key r2 v
  obtain d r4 where d: "skip_space r3 = d # r4"
    using assms key r2 v unfolding f r by (cases "skip_space r3") auto
  consider "d = 125" | "d = 44" using assms key r2 v d unfolding f r by (auto split: if_splits)
  then show ?thesis
  proof cases
    case 1
    then show ?thesis using assms key r2 v d last [OF facts] unfolding f r by auto
  next
    case 2
    then show ?thesis using assms key r2 v d more [OF facts] unfolding f r by (auto simp: bindR_eq_Inr)
  qed
qed

lemma scan_itemsE:
  assumes "scan_items I fuel depth s = Inr (vs, rest)"
  obtains (last) f v r1 where "fuel = Suc f" and "scan_value I f depth s = Inr (v, r1)"
    and "skip_space r1 = 93 # rest" and "vs = [v]"
  | (more) f v r1 r2 ws where "fuel = Suc f" and "scan_value I f depth s = Inr (v, r1)"
    and "skip_space r1 = 44 # r2" and "scan_items I f depth (skip_space r2) = Inr (ws, rest)" and "vs = v # ws"
proof -
  obtain f where f: "fuel = Suc f" using assms by (cases fuel) auto
  obtain v r1 where v: "scan_value I f depth s = Inr (v, r1)" using assms unfolding f by (auto simp: bindR_eq_Inr)
  obtain d r2 where d: "skip_space r1 = d # r2"
    using assms v unfolding f by (cases "skip_space r1") auto
  consider "d = 93" | "d = 44" using assms v d unfolding f by (auto split: if_splits)
  then show ?thesis
  proof cases
    case 1
    then show ?thesis using assms v d last [OF f v] unfolding f by auto
  next
    case 2
    then show ?thesis using assms v d more [OF f v] unfolding f by (auto simp: bindR_eq_Inr)
  qed
qed

lemma scan_shorter:
  "scan_value I fuel depth s = Inr (v, rest) \<Longrightarrow> length rest < length s"
  "scan_pairs I fuel depth s = Inr (ps, rest) \<Longrightarrow> length rest < length s"
  "scan_items I fuel depth s = Inr (vs, rest) \<Longrightarrow> length rest < length s"
proof -
  have "(\<forall>depth s v rest. scan_value I fuel depth s = Inr (v, rest) \<longrightarrow> length rest < length s) \<and>
    (\<forall>depth s ps rest. scan_pairs I fuel depth s = Inr (ps, rest) \<longrightarrow> length rest < length s) \<and>
    (\<forall>depth s vs rest. scan_items I fuel depth s = Inr (vs, rest) \<longrightarrow> length rest < length s)"
  proof (induction fuel)
    case 0
    then show ?case by simp
  next
    case (Suc fuel)
    then have val: "scan_value I fuel d u = Inr (v, r) \<Longrightarrow> length r < length u"
      and pairs: "scan_pairs I fuel d u = Inr (ps, r) \<Longrightarrow> length r < length u"
      and items: "scan_items I fuel d u = Inr (vs, r) \<Longrightarrow> length r < length u" for d u v ps vs r
      by blast+
    note le = skip_space_le [THEN le_less_trans] skip_space_Cons less_trans
    have "length rest < length s" if "scan_value I (Suc fuel) depth s = Inr (v, rest)" for depth s v rest
      using that
    proof (cases rule: scan_valueE)
      case (pairs f u r ps)
      then show ?thesis using \<open>\<And>d u ps r. scan_pairs I fuel d u = Inr (ps, r) \<Longrightarrow> length r < length u\<close>
          skip_space_le [of u] by fastforce
    next
      case (items f u r vs)
      then show ?thesis using \<open>\<And>d u vs r. scan_items I fuel d u = Inr (vs, r) \<Longrightarrow> length r < length u\<close>
          skip_space_le [of u] by fastforce
    qed (auto dest: scan_string_shorter scan_atom_shorter skip_space_Cons)
    moreover have "length rest < length s" if "scan_pairs I (Suc fuel) depth s = Inr (ps, rest)" for depth s ps rest
      using that
    proof (cases rule: scan_pairsE)
      case (last f r key r1 r2 v r3)
      then show ?thesis
        using scan_string_shorter [OF last(3)] skip_space_Cons [OF last(4)] val [of depth "skip_space r2" v r3]
          skip_space_le [of r2] skip_space_Cons [OF last(6)] by simp
    next
      case (more f r key r1 r2 v r3 r4 qs)
      then show ?thesis
        using scan_string_shorter [OF more(3)] skip_space_Cons [OF more(4)] val [of depth "skip_space r2" v r3]
          skip_space_le [of r2] skip_space_Cons [OF more(6)] pairs [of depth "skip_space r4" qs rest]
          skip_space_le [of r4] by simp
    qed
    moreover have "length rest < length s" if "scan_items I (Suc fuel) depth s = Inr (vs, rest)" for depth s vs rest
      using that
    proof (cases rule: scan_itemsE)
      case (last f v r1)
      then show ?thesis using val [of depth s v r1] skip_space_Cons [OF last(3)] by simp
    next
      case (more f v r1 r2 ws)
      then show ?thesis
        using val [of depth s v r1] skip_space_Cons [OF more(3)] items [of depth "skip_space r2" ws rest]
          skip_space_le [of r2] by simp
    qed
    ultimately show ?case by blast
  qed
  then show "scan_value I fuel depth s = Inr (v, rest) \<Longrightarrow> length rest < length s"
    and "scan_pairs I fuel depth s = Inr (ps, rest) \<Longrightarrow> length rest < length s"
    and "scan_items I fuel depth s = Inr (vs, rest) \<Longrightarrow> length rest < length s" by blast+
qed


subsection \<open>Enough fuel\<close>

lemma no_fuel_errors:
  "scan_unicode s \<noteq> Inl OutOfFuel" "scan_string start s \<noteq> Inl OutOfFuel"
  "call_hook I depth h \<noteq> Inl OutOfFuel" "scan_atom I depth s \<noteq> Inl OutOfFuel"
proof -
  show uni: "scan_unicode s \<noteq> Inl OutOfFuel" for s
    by (simp add: scan_unicode_def split: option.split list.split)
  show "scan_string start s \<noteq> Inl OutOfFuel"
    by (induction start s rule: scan_string.induct)
      (use uni in \<open>auto simp: bindR_eq_Inl split: if_splits list.splits option.splits\<close>)
  show hook: "call_hook I depth h \<noteq> Inl OutOfFuel" for depth h
    by (simp add: call_hook_def split: sum.split)
  show "scan_atom I depth s \<noteq> Inl OutOfFuel"
    using hook by (auto simp: scan_atom_def scan_constant_def bindR_eq_Inl split: if_splits option.splits)
qed

lemma fuel_enough:
  "2 * length s < fuel \<Longrightarrow> scan_value I fuel depth s \<noteq> Inl OutOfFuel"
  "2 * length s < fuel \<Longrightarrow> scan_pairs I fuel depth s \<noteq> Inl OutOfFuel"
  "2 * length s + 1 < fuel \<Longrightarrow> scan_items I fuel depth s \<noteq> Inl OutOfFuel"
proof -
  have "(\<forall>depth s. 2 * length s < fuel \<longrightarrow> scan_value I fuel depth s \<noteq> Inl OutOfFuel) \<and>
    (\<forall>depth s. 2 * length s < fuel \<longrightarrow> scan_pairs I fuel depth s \<noteq> Inl OutOfFuel) \<and>
    (\<forall>depth s. 2 * length s + 1 < fuel \<longrightarrow> scan_items I fuel depth s \<noteq> Inl OutOfFuel)"
  proof (induction fuel)
    case 0
    then show ?case by simp
  next
    case (Suc f)
    then have val: "2 * length u < f \<Longrightarrow> scan_value I f d u \<noteq> Inl OutOfFuel"
      and pairs: "2 * length u < f \<Longrightarrow> scan_pairs I f d u \<noteq> Inl OutOfFuel"
      and items: "2 * length u + 1 < f \<Longrightarrow> scan_items I f d u \<noteq> Inl OutOfFuel" for d u
      by blast+
    have "scan_value I (Suc f) depth s \<noteq> Inl OutOfFuel" if "2 * length s < Suc f" for depth s
    proof (cases s)
      case (Cons c u)
      have "skip_space u = b # r \<Longrightarrow> 2 * length (b # r) + 1 < f" for b r
        using that skip_space_le [of u] by (simp add: Cons)
      then have "skip_space u = b # r \<Longrightarrow> scan_pairs I f d (b # r) \<noteq> Inl OutOfFuel"
        "skip_space u = b # r \<Longrightarrow> scan_items I f d (b # r) \<noteq> Inl OutOfFuel" for b r d
        using pairs [of "b # r"] items [of "b # r"] by force+
      then show ?thesis unfolding Cons
        by (auto simp: bindR_eq_Inl no_fuel_errors split: list.splits if_splits)
    qed simp
    moreover have "scan_pairs I (Suc f) depth s \<noteq> Inl OutOfFuel" if fuel: "2 * length s < Suc f" for depth s
    proof (cases s)
      case (Cons q r)
      show ?thesis
      proof
        assume "scan_pairs I (Suc f) depth s = Inl OutOfFuel"
        note stuck = this [unfolded Cons scan_pairs.simps list.case]
        obtain key r1 where key: "scan_string (length s) r = Inr (key, r1)"
          using stuck by (auto simp: bindR_eq_Inl no_fuel_errors Cons split: if_splits)
        obtain k r2 where r2: "skip_space r1 = k # r2"
          using stuck key by (cases "skip_space r1") (auto simp: Cons split: if_splits)
        note r1 = key r2
        have len: "length (skip_space r2) + 1 < length s"
          using scan_string_shorter [OF r1(1)] skip_space_Cons [OF r1(2)] skip_space_le [of r2] by (simp add: Cons)
        then have "scan_value I f depth (skip_space r2) \<noteq> Inl OutOfFuel" using fuel by (intro val) simp
        then obtain v r3 where v: "scan_value I f depth (skip_space r2) = Inr (v, r3)"
          using stuck key r2 by (auto simp: bindR_eq_Inl Cons split: if_splits)
        obtain d r4 where d: "skip_space r3 = d # r4"
          using stuck key r2 v by (cases "skip_space r3") (auto simp: Cons split: if_splits)
        have again: "scan_pairs I f depth (skip_space r4) = Inl OutOfFuel"
          using stuck key r2 v d by (auto simp: bindR_eq_Inl Cons split: if_splits)
        have "length (skip_space r4) < length s"
          using scan_shorter(1) [OF v] skip_space_Cons [OF d] skip_space_le [of r4] len by simp
        then show False using again fuel pairs [of "skip_space r4" depth] by simp
      qed
    qed simp
    moreover have "scan_items I (Suc f) depth s \<noteq> Inl OutOfFuel" if fuel: "2 * length s + 1 < Suc f" for depth s
    proof
      assume stuck: "scan_items I (Suc f) depth s = Inl OutOfFuel"
      have "scan_value I f depth s \<noteq> Inl OutOfFuel" using fuel by (intro val) simp
      then obtain v r1 where v: "scan_value I f depth s = Inr (v, r1)"
        using stuck by (auto simp: bindR_eq_Inl)
      obtain d r2 where d: "skip_space r1 = d # r2" using stuck v by (cases "skip_space r1") auto
      have again: "scan_items I f depth (skip_space r2) = Inl OutOfFuel"
        using stuck v d by (auto simp: bindR_eq_Inl split: if_splits)
      have "length (skip_space r2) + 1 < length s"
        using scan_shorter(1) [OF v] skip_space_Cons [OF d] skip_space_le [of r2] by simp
      then show False using again fuel items [of "skip_space r2" depth] by simp
    qed
    ultimately show ?case by blast
  qed
  then show "2 * length s < fuel \<Longrightarrow> scan_value I fuel depth s \<noteq> Inl OutOfFuel"
    and "2 * length s < fuel \<Longrightarrow> scan_pairs I fuel depth s \<noteq> Inl OutOfFuel"
    and "2 * length s + 1 < fuel \<Longrightarrow> scan_items I fuel depth s \<noteq> Inl OutOfFuel" by blast+
qed

lemma json_loads_fuel: "json_loads I text \<noteq> Inl OutOfFuel"
proof -
  have "scan_value I (2 * length text + 2) 0 (skip_space text) \<noteq> Inl OutOfFuel"
    using skip_space_le [of "text"] by (intro fuel_enough(1)) simp
  then show ?thesis by (auto simp: json_loads_def bindR_eq_Inl split: if_splits)
qed


subsection \<open>Loaded values\<close>

text \<open>Code points are below \<open>0x110000\<close>, decimals finite, no key twice, no \<open>int\<close> and no \<open>float\<close>.\<close>

definition code_points :: "ustring \<Rightarrow> bool" where
  "code_points s \<longleftrightarrow> list_all (\<lambda>c. c < 1114112) s"

lemma code_points_simps [simp]:
  "code_points []" "code_points (c # s) \<longleftrightarrow> c < 1114112 \<and> code_points s"
  by (simp_all add: code_points_def)

lemma code_points_drop: "code_points s \<Longrightarrow> code_points (drop n s)"
  unfolding code_points_def list_all_iff using set_drop_subset by fastforce

lemma code_points_skip: "code_points s \<Longrightarrow> code_points (skip_space s)"
  unfolding code_points_def list_all_iff skip_space_def by (blast dest: set_dropWhileD)

fun loaded :: "pyval \<Rightarrow> bool" where
  "loaded (VStr s) = code_points s"
| "loaded (VInt i) = False"
| "loaded (VFloat f) = False"
| "loaded (VDec d) = dec_is_finite d"
| "loaded (VList xs) = list_all loaded xs"
| "loaded (VDict kvs) = (distinct (dict_keys kvs) \<and> list_all code_points (dict_keys kvs) \<and>
     list_all (\<lambda>(k, v). loaded v) kvs)"
| "loaded v = True"

definition loaded_pairs :: "entries \<Rightarrow> bool" where
  "loaded_pairs ps \<longleftrightarrow> (\<forall>(k, v) \<in> set ps. code_points k \<and> loaded v)"

lemma hex_value_less: "hex_value c = Some x \<Longrightarrow> x < 16"
  by (auto simp: hex_value_def split: if_splits)

lemma hex_quad_less: "hex_quad s = Some x \<Longrightarrow> x < 65536"
proof -
  have "((a * 16 + b) * 16 + c) * 16 + d < 65536" if "a < 16" "b < 16" "c < 16" "d < 16" for a b c d :: nat
    using that by simp
  then show "hex_quad s = Some x \<Longrightarrow> x < 65536"
    by (cases s rule: hex_quad.cases) (auto dest!: hex_value_less split: option.splits)
qed

lemma scan_unicode_points:
  "scan_unicode s = Inr (c, rest) \<Longrightarrow> code_points s \<Longrightarrow> c < 1114112 \<and> code_points rest"
proof -
  have tail: "drop 4 s = b # u # t \<Longrightarrow> code_points s \<Longrightarrow> code_points t" for b u t
    using code_points_drop [of s 4] by simp
  show "scan_unicode s = Inr (c, rest) \<Longrightarrow> code_points s \<Longrightarrow> c < 1114112 \<and> code_points rest"
    by (auto simp: scan_unicode_def code_points_drop dest: hex_quad_less tail
        split: if_splits option.splits list.splits)
qed

lemma scan_string_points:
  "scan_string start s = Inr (t, rest) \<Longrightarrow> code_points s \<Longrightarrow> code_points t \<and> code_points rest"
proof (induction start s arbitrary: t rest rule: scan_string.induct)
  case (1 start)
  then show ?case by simp
next
  case (2 start c s)
  have esc: "simple_escape e = Some x \<Longrightarrow> x < 1114112" for e x
    by (auto simp: simple_escape_def split: if_splits)
  consider (quote) "c = 34" | (unicode) r where "c = 92" "s = 117 # r" | (escape) e r where "c = 92" "s = e # r" "e \<noteq> 117"
    | (plain) "c \<noteq> 34" "c \<noteq> 92" using "2.prems"(1) by (cases s; cases "c = 34"; cases "c = 92") auto
  then show ?case
  proof cases
    case quote
    then show ?thesis using "2.prems" by simp
  next
    case unicode
    then obtain x u v where x: "scan_unicode r = Inr (x, u)" "scan_string start u = Inr (v, rest)" "t = x # v"
      using "2.prems"(1) by (auto simp: bindR_eq_Inr)
    have "x < 1114112 \<and> code_points u" using scan_unicode_points [OF x(1)] "2.prems"(2) unicode by simp
    then show ?thesis using "2.IH"(1) [OF _ _ unicode(2) refl x(1) refl x(2)] unicode x(3) by simp
  next
    case escape
    then obtain x v where x: "simple_escape e = Some x" "scan_string start r = Inr (v, rest)" "t = x # v"
      using "2.prems"(1) by (auto simp: bindR_eq_Inr split: option.splits)
    then show ?thesis using "2.IH"(2) [OF _ _ escape(2,3) x(1,2)] escape "2.prems"(2) esc by simp
  next
    case plain
    then obtain v where "scan_string start s = Inr (v, rest)" "t = c # v" "\<not> c \<le> 31"
      using "2.prems"(1) by (auto simp: bindR_eq_Inr split: if_splits)
    then show ?thesis using "2.IH"(3) plain "2.prems"(2) by simp
  qed
qed


lemma scan_atom_loaded:
  "scan_atom I depth s = Inr (v, rest) \<Longrightarrow> code_points s \<Longrightarrow> loaded v \<and> code_points rest"
proof -
  have number: "scan_number s = Some (n, rest) \<Longrightarrow> code_points s \<Longrightarrow> code_points rest" for n
  proof -
    have points: "code_points (dropWhile is_digit u)" if "code_points u" for u
      using that unfolding code_points_def list_all_iff by (blast dest: set_dropWhileD)
    have "scan_int u = Some (ds, r) \<Longrightarrow> code_points u \<Longrightarrow> code_points r" for u ds r
      using points [of u] by (cases u) (auto simp: scan_int_def split: if_splits)
    moreover have "scan_frac u = (ds, r) \<Longrightarrow> code_points u \<Longrightarrow> code_points r" for u ds r
      using points by (auto simp: scan_frac_def split: list.splits if_splits)
    moreover have "scan_exp u = (b, ds, r) \<Longrightarrow> code_points u \<Longrightarrow> code_points r" for u b ds r
      using points by (auto simp: scan_exp_def Let_def split: list.splits if_splits)
    moreover have "code_points (if s \<noteq> [] \<and> hd s = 45 then tl s else s)" if "code_points s"
      using that by (cases s) auto
    ultimately show "scan_number s = Some (n, rest) \<Longrightarrow> code_points s \<Longrightarrow> code_points rest"
      by (elim scan_numberE) blast
  qed
  have hook: "call_hook I depth h = Inr w \<longleftrightarrow> depth < max_hook_nesting I \<and> h = Inr w" for h w
    by (auto simp: call_hook_def split: sum.splits)
  show "scan_atom I depth s = Inr (v, rest) \<Longrightarrow> code_points s \<Longrightarrow> loaded v \<and> code_points rest"
    by (auto simp: scan_atom_def scan_constant_def bindR_eq_Inr hook reject_constant_def exact_decimal_def Let_def
        intro: code_points_drop number split: if_splits option.splits)
qed

lemma unique_object_fold:
  assumes "foldR (\<lambda>(key, v) result.
      if dict_has result key then Inl e else Inr (dict_set key v result)) ps acc = Inr kvs"
  shows "kvs = acc @ ps \<and> (distinct (dict_keys acc) \<longrightarrow> distinct (dict_keys kvs))"
  using assms
proof (induction ps arbitrary: acc)
  case Nil
  then show ?case by simp
next
  case (Cons p ps)
  obtain k v where p: "p = (k, v)" by fastforce
  have new: "\<not> dict_has acc k" using Cons.prems by (auto simp: p split: if_splits)
  then have "dict_set k v acc = acc @ [(k, v)]" by (induction acc) (auto simp: dict_has_def)
  then have "kvs = (acc @ [(k, v)]) @ ps \<and>
      (distinct (dict_keys (acc @ [(k, v)])) \<longrightarrow> distinct (dict_keys kvs))"
    using Cons.prems new by (intro Cons.IH) (simp add: p)
  moreover have "distinct (dict_keys acc) \<longrightarrow> distinct (dict_keys (acc @ [(k, v)]))"
    using new by (simp add: dict_has_def)
  ultimately show ?case unfolding p append.assoc append_Cons append_Nil by blast
qed

lemma unique_object_result: "unique_object ps = Inr v \<Longrightarrow> v = VDict ps \<and> distinct (dict_keys ps)"
  unfolding unique_object_def by (auto simp: bindR_eq_Inr dest!: unique_object_fold)

lemma unique_object_loaded: "unique_object ps = Inr v \<Longrightarrow> loaded_pairs ps \<Longrightarrow> loaded v"
  by (fastforce simp: loaded_pairs_def list_all_iff dest!: unique_object_result)

lemma scan_loaded:
  "scan_value I fuel depth s = Inr (v, rest) \<Longrightarrow> code_points s \<Longrightarrow> loaded v \<and> code_points rest"
  "scan_pairs I fuel depth s = Inr (ps, rest) \<Longrightarrow> code_points s \<Longrightarrow> loaded_pairs ps \<and> code_points rest"
  "scan_items I fuel depth s = Inr (vs, rest) \<Longrightarrow> code_points s \<Longrightarrow> list_all loaded vs \<and> code_points rest"
proof -
  have after: "code_points s \<Longrightarrow> skip_space s = c # r \<Longrightarrow> code_points r" for s c r
    using code_points_skip [of s] by simp
  have "(\<forall>depth s v rest. scan_value I fuel depth s = Inr (v, rest) \<longrightarrow> code_points s \<longrightarrow>
      loaded v \<and> code_points rest) \<and>
    (\<forall>depth s ps rest. scan_pairs I fuel depth s = Inr (ps, rest) \<longrightarrow> code_points s \<longrightarrow>
      loaded_pairs ps \<and> code_points rest) \<and>
    (\<forall>depth s vs rest. scan_items I fuel depth s = Inr (vs, rest) \<longrightarrow> code_points s \<longrightarrow>
      list_all loaded vs \<and> code_points rest)"
  proof (induction fuel)
    case 0
    then show ?case by simp
  next
    case (Suc fuel)
    then have val: "scan_value I fuel d u = Inr (v, r) \<Longrightarrow> code_points u \<Longrightarrow> loaded v \<and> code_points r"
      and pairs: "scan_pairs I fuel d u = Inr (ps, r) \<Longrightarrow> code_points u \<Longrightarrow> loaded_pairs ps \<and> code_points r"
      and items: "scan_items I fuel d u = Inr (vs, r) \<Longrightarrow> code_points u \<Longrightarrow> list_all loaded vs \<and> code_points r"
      for d u v ps vs r by blast+
    have "loaded v \<and> code_points rest"
      if "scan_value I (Suc fuel) depth s = Inr (v, rest)" and s: "code_points s" for depth s v rest
      using that(1)
    proof (cases rule: scan_valueE)
      case (string u t)
      then show ?thesis using s scan_string_points by simp
    next
      case (no_pairs u)
      then show ?thesis using s after [of u] by (auto dest!: unique_object_result)
    next
      case (pairs f u r ps)
      then have "loaded_pairs ps \<and> code_points rest"
        using s \<open>\<And>d u ps r. scan_pairs I fuel d u = Inr (ps, r) \<Longrightarrow> code_points u \<Longrightarrow> loaded_pairs ps \<and> code_points r\<close>
          code_points_skip [of u] by auto
      then show ?thesis using unique_object_loaded pairs by blast
    next
      case (no_items u)
      then show ?thesis using s after [of u] by simp
    next
      case (items f u r vs)
      then have "list_all loaded vs \<and> code_points rest"
        using s \<open>\<And>d u vs r. scan_items I fuel d u = Inr (vs, r) \<Longrightarrow> code_points u \<Longrightarrow> list_all loaded vs \<and> code_points r\<close>
          code_points_skip [of u] by auto
      then show ?thesis using items by simp
    next
      case atom
      then show ?thesis using s scan_atom_loaded by blast
    qed
    moreover have "loaded_pairs ps \<and> code_points rest"
      if "scan_pairs I (Suc fuel) depth s = Inr (ps, rest)" and s: "code_points s" for depth s ps rest
      using that(1)
    proof (cases rule: scan_pairsE)
      case (last f r key r1 r2 v r3)
      have "code_points key \<and> code_points r1" using scan_string_points [OF last(3)] s last(2) by simp
      moreover from this have "loaded v \<and> code_points r3"
        using val [of depth "skip_space r2" v r3] last(1,5) after [OF _ last(4)] code_points_skip by blast
      ultimately show ?thesis using last after [OF _ last(6)] by (simp add: loaded_pairs_def)
    next
      case (more f r key r1 r2 v r3 r4 qs)
      have "code_points key \<and> code_points r1" using scan_string_points [OF more(3)] s more(2) by simp
      moreover from this have v: "loaded v \<and> code_points r3"
        using val [of depth "skip_space r2" v r3] more(1,5) after [OF _ more(4)] code_points_skip by blast
      moreover have "loaded_pairs qs \<and> code_points rest"
        using pairs [of depth "skip_space r4" qs rest] more(1,7) v after [OF _ more(6)] code_points_skip by blast
      ultimately show ?thesis using more(8) by (simp add: loaded_pairs_def)
    qed
    moreover have "list_all loaded vs \<and> code_points rest"
      if "scan_items I (Suc fuel) depth s = Inr (vs, rest)" and s: "code_points s" for depth s vs rest
      using that(1)
    proof (cases rule: scan_itemsE)
      case (last f v r1)
      then show ?thesis using val [of depth s v r1] s after [OF _ last(3)] by simp
    next
      case (more f v r1 r2 ws)
      have v: "loaded v \<and> code_points r1" using val [of depth s v r1] more(1,2) s by simp
      moreover have "list_all loaded ws \<and> code_points rest"
        using items [of depth "skip_space r2" ws rest] more(1,4) v after [OF _ more(3)] code_points_skip by blast
      ultimately show ?thesis using more(5) by simp
    qed
    ultimately show ?case by blast
  qed
  then show "scan_value I fuel depth s = Inr (v, rest) \<Longrightarrow> code_points s \<Longrightarrow> loaded v \<and> code_points rest"
    and "scan_pairs I fuel depth s = Inr (ps, rest) \<Longrightarrow> code_points s \<Longrightarrow> loaded_pairs ps \<and> code_points rest"
    and "scan_items I fuel depth s = Inr (vs, rest) \<Longrightarrow> code_points s \<Longrightarrow> list_all loaded vs \<and> code_points rest"
    by blast+
qed

lemma json_loads_loaded:
  assumes "json_loads I s = Inr v" and "code_points s"
  shows "loaded v"
proof -
  obtain rest where "scan_value I (2 * length s + 2) 0 (skip_space s) = Inr (v, rest)"
    using assms(1) unfolding json_loads_def
    by (auto simp: bindR_eq_Inr simp del: scan_value.simps split: if_splits)
  then show ?thesis using scan_loaded(1) code_points_skip [OF assms(2)] by blast
qed

end
