(* ===== verification/StrictJson.thy ===== *)
theory StrictJson
  imports JsonScannerFacts ContractTables FingerprintSpec
begin

text \<open>
  \<open>strict_json\<close> and \<open>require_unicode_scalars\<close> of \<open>scripts/check_contract.py\<close>: the bounded read,
  the UTF-8 decoding, the scanner with its hooks, the translation of errors, and the walk over the
  loaded document with an explicit stack.
\<close>

lemma digits10_length: "n < 10 ^ k \<Longrightarrow> length (digits10 n) \<le> max 1 k"
proof (induction n arbitrary: k rule: digits10.induct)
  case (1 n)
  show ?case
  proof (cases "n < 10")
    case True
    then show ?thesis by (simp add: digits10.simps [of n])
  next
    case False
    then obtain j where j: "k = Suc (Suc j)"
      using "1.prems" by (cases k; cases "k - 1") auto
    then have "n div 10 < 10 ^ Suc j" using "1.prems" by auto
    then show ?thesis using "1.IH" [OF False, of "Suc j"] False by (simp add: digits10.simps [of n] j)
  qed
qed

lemma length_py_str_nat: "n < 10 ^ 8 \<Longrightarrow> length (py_str_nat n) \<le> 8"
  using digits10_length [of n 8] by (simp add: py_str_nat_def)

subsection \<open>require_unicode_scalars\<close>

text \<open>The stack holds its top first: \<open>pending.extend\<close> puts the last item on top.\<close>

fun weight :: "pyval \<Rightarrow> nat" where
  "weight (VList xs) = Suc (sum_list (map weight xs))"
| "weight (VDict kvs) = Suc (sum_list (map (\<lambda>(k, v). Suc (weight v)) kvs))"
| "weight v = 1"

definition pending_weight :: "(pyval \<times> nat) list \<Rightarrow> nat" where
  "pending_weight pending = sum_list (map (\<lambda>(v, depth). weight v) pending)"

lemma pending_weight_simps:
  "pending_weight [] = 0"
  "pending_weight ((v, depth) # pending) = weight v + pending_weight pending"
  "pending_weight (xs @ ys) = pending_weight xs + pending_weight ys"
  "pending_weight (rev xs) = pending_weight xs"
  by (simp_all add: pending_weight_def rev_map [symmetric])

lemma pending_weight_pushed:
  "pending_weight (rev (map (\<lambda>item. (item, d)) xs) @ pending) < pending_weight ((VList xs, depth) # pending)"
  "pending_weight (rev (map (\<lambda>(k, item). (item, d)) kvs) @ rev (map (\<lambda>(k, item). (VStr k, e)) kvs) @ pending)
     < pending_weight ((VDict kvs, depth) # pending)"
proof -
  have "pending_weight (map (\<lambda>item. (item, d)) xs) = sum_list (map weight xs)"
    by (induction xs) (simp_all add: pending_weight_simps)
  then show "pending_weight (rev (map (\<lambda>item. (item, d)) xs) @ pending)
      < pending_weight ((VList xs, depth) # pending)"
    by (simp add: pending_weight_simps)
  have "pending_weight (map (\<lambda>(k, item). (item, d)) kvs) + pending_weight (map (\<lambda>(k, item). (VStr k, e)) kvs) =
      sum_list (map (\<lambda>(k, v). Suc (weight v)) kvs)"
    by (induction kvs) (auto simp: pending_weight_simps)
  then show "pending_weight (rev (map (\<lambda>(k, item). (item, d)) kvs) @ rev (map (\<lambda>(k, item). (VStr k, e)) kvs) @ pending)
     < pending_weight ((VDict kvs, depth) # pending)"
    by (simp add: pending_weight_simps)
qed

lemma pending_weight_popped: "pending_weight pending < pending_weight ((v, depth) # pending)"
  by (cases v) (simp_all add: pending_weight_simps)

function check_pending :: "(pyval \<times> nat) list \<Rightarrow> unit result" where
  "check_pending [] = Inr ()"
| "check_pending ((v, depth) # pending) =
     (if MAX_NESTING_DEPTH < depth
      then Inl (JSONArtifactError (ascii ''JSON document exceeds the checker nesting limit''))
      else case v of
        VStr s \<Rightarrow>
          if list_ex surrogate s
          then Inl (JSONDocumentError (ascii ''JSON document contains a lone Unicode surrogate''))
          else check_pending pending
      | VList xs \<Rightarrow> check_pending (rev (map (\<lambda>item. (item, depth + 1)) xs) @ pending)
      | VDict kvs \<Rightarrow>
          check_pending (rev (map (\<lambda>(k, item). (item, depth + 1)) kvs) @
            rev (map (\<lambda>(k, item). (VStr k, depth)) kvs) @ pending)
      | _ \<Rightarrow> check_pending pending)"
  by pat_completeness auto

termination
  by (relation "measure pending_weight") (simp_all only: wf_measure in_measure pending_weight_pushed pending_weight_popped)

definition require_unicode_scalars :: "pyval \<Rightarrow> unit result" where
  "require_unicode_scalars document = check_pending [(document, 0)]"

subsection \<open>strict_json\<close>

definition document_error :: "string \<Rightarrow> exc" where
  "document_error message = JSONDocumentError (ascii message)"

definition artifact_error :: "string \<Rightarrow> exc" where
  "artifact_error message = JSONArtifactError (ascii message)"

text \<open>
  The \<open>except\<close> clauses around \<open>json.loads\<close>. The scanner never reports \<open>OutOfFuel\<close>
  (\<open>json_loads_fuel\<close>).
\<close>

fun loads_error :: "ustring \<Rightarrow> json_error \<Rightarrow> exc" where
  "loads_error text (JSONDecodeError left) =
     JSONDocumentError (ascii ''invalid JSON syntax at line '' @ py_str_nat (line_number text left) @
       ascii '', column '' @ py_str_nat (column_number text left))"
| "loads_error text RecursionError = artifact_error ''JSON document exceeds the checker nesting limit''"
| "loads_error text (Raised (JSONDocumentError m)) = JSONDocumentError m"
| "loads_error text (Raised (JSONArtifactError m)) = JSONArtifactError m"
| "loads_error text (Raised ValueError) = artifact_error ''JSON document exceeds checker implementation limits''"
| "loads_error text (Raised e) = e"
| "loads_error text OutOfFuel = AssertionError"

text \<open>The file is \<open>None\<close> when opening or reading it raises \<open>OSError\<close>.\<close>

definition strict_json :: "interpreter \<Rightarrow> byte list option \<Rightarrow> pyval result" where
  "strict_json I file =
     (case file of
        None \<Rightarrow> Inl (artifact_error ''unable to read JSON document'')
      | Some contents \<Rightarrow>
          (let raw = take (MAX_JSON_BYTES + 1) contents in
           if MAX_JSON_BYTES < length raw
           then Inl (artifact_error ''JSON document exceeds the checker size limit'')
           else
             (case utf8_decode raw of
                None \<Rightarrow> Inl (document_error ''JSON document is not UTF-8'')
              | Some text \<Rightarrow>
                  (case json_loads I text of
                     Inl e \<Rightarrow> Inl (loads_error text e)
                   | Inr document \<Rightarrow>
                       bindR (require_unicode_scalars document) (\<lambda>_. Inr document)))))"

subsection \<open>What the walk over the document decides\<close>

fun tame :: "nat \<Rightarrow> pyval \<Rightarrow> bool" where
  "tame depth (VStr s) = (depth \<le> MAX_NESTING_DEPTH \<and> \<not> list_ex surrogate s)"
| "tame depth (VList xs) = (depth \<le> MAX_NESTING_DEPTH \<and> list_all (tame (depth + 1)) xs)"
| "tame depth (VDict kvs) = (depth \<le> MAX_NESTING_DEPTH \<and> list_all (\<lambda>(k, v). \<not> list_ex surrogate k) kvs \<and>
     list_all (\<lambda>(k, v). tame (depth + 1) v) kvs)"
| "tame depth v = (depth \<le> MAX_NESTING_DEPTH)"

lemma check_pending_iff: "check_pending pending = Inr () \<longleftrightarrow> list_all (\<lambda>(v, depth). tame depth v) pending"
proof (induction pending rule: check_pending.induct)
  case 1
  then show ?case by simp
next
  case (2 v depth pending)
  show ?case
  proof (cases v)
    case (VList xs)
    then show ?thesis using "2.IH" by (simp add: list_all_iff ball_Un)
  next
    case (VDict kvs)
    then show ?thesis using "2.IH" by (auto simp: list_all_iff ball_Un)
  qed (use "2.IH" in auto)
qed

lemma check_pending_error:
  "check_pending pending = Inl e \<Longrightarrow>
     e = artifact_error ''JSON document exceeds the checker nesting limit'' \<or>
     e = document_error ''JSON document contains a lone Unicode surrogate''"
  by (induction pending rule: check_pending.induct)
    (auto simp: artifact_error_def document_error_def split: if_splits pyval.splits)

lemma tame_scalar: "c < 1114112 \<Longrightarrow> \<not> surrogate c \<Longrightarrow> scalar c"
  by (auto simp: scalar_def surrogate_def)

lemma loaded_tame_exact: "loaded v \<Longrightarrow> tame depth v \<Longrightarrow> exact_val v"
proof (induction v arbitrary: depth rule: measure_induct_rule [where f = size])
  case (less v)
  have scalars: "list_all scalar s" if "code_points s" "\<not> list_ex surrogate s" for s
    using that tame_scalar by (auto simp: code_points_def list_all_iff list_ex_iff)
  show ?case
  proof (cases v)
    case (VList xs)
    then show ?thesis using less size_list_member by (auto simp: list_all_iff simp del: pyval.size)
  next
    case (VDict kvs)
    have "exact_val x" if x: "(k, x) \<in> set kvs" for k x
    proof (rule less.IH)
      show "size x < size v" using size_dict_member [OF x] by (simp only: VDict)
      show "loaded x" "tame (depth + 1) x" using less.prems x by (auto simp: VDict list_all_iff)
    qed
    moreover have "list_all scalar k" if "(k, x) \<in> set kvs" for k x
      using less.prems that by (intro scalars) (auto simp: VDict list_all_iff)
    ultimately show ?thesis using less.prems by (auto simp: VDict list_all_iff [of _ kvs] list_all_iff [of _ "dict_keys kvs"])
  qed (use less.prems scalars in auto)
qed

lemma utf8_decode_points: "utf8_decode bs = Some s \<Longrightarrow> code_points s"
  using utf8_encode_decode [of bs s] by (auto simp: code_points_def list_all_iff scalar_def)

lemma strict_json_exact:
  assumes "strict_json I file = Inr v"
  shows "exact_val v" and "tame 0 v"
proof -
  obtain raw s where "utf8_decode raw = Some s" "json_loads I s = Inr v" "require_unicode_scalars v = Inr ()"
    using assms by (auto simp: strict_json_def Let_def bindR_eq_Inr split: option.splits if_splits sum.splits)
  then have "loaded v" "list_all (\<lambda>(v, depth). tame depth v) [(v, 0)]"
    unfolding require_unicode_scalars_def check_pending_iff using utf8_decode_points json_loads_loaded by blast+
  then have "loaded v" "tame 0 v" by simp_all
  then show "exact_val v" "tame 0 v" using loaded_tame_exact by blast+
qed


subsection \<open>Errors\<close>

text \<open>
  Every exception of the loader is a \<open>JSONDocumentError\<close> or its subclass, with a short message free of
  control characters.
\<close>

definition json_exception :: "exc \<Rightarrow> bool" where
  "json_exception e \<longleftrightarrow>
     (\<exists>m. (e = JSONDocumentError m \<or> e = JSONArtifactError m) \<and> plain_text m \<and> length m \<le> 80)"

lemma json_exception_simps [simp]:
  "json_exception (JSONDocumentError m) \<longleftrightarrow> plain_text m \<and> length m \<le> 80"
  "json_exception (JSONArtifactError m) \<longleftrightarrow> plain_text m \<and> length m \<le> 80"
  "json_exception (document_error s) \<longleftrightarrow> plain_text (ascii s) \<and> length s \<le> 80"
  "json_exception (artifact_error s) \<longleftrightarrow> plain_text (ascii s) \<and> length s \<le> 80"
  by (auto simp: json_exception_def document_error_def artifact_error_def)

lemma loader_messages:
  "plain_text (ascii ''unable to read JSON document'')"
  "plain_text (ascii ''JSON document exceeds the checker size limit'')"
  "plain_text (ascii ''JSON document is not UTF-8'')"
  "plain_text (ascii ''JSON document exceeds the checker nesting limit'')"
  "plain_text (ascii ''JSON document contains a lone Unicode surrogate'')"
  "plain_text (ascii ''JSON document exceeds checker implementation limits'')"
  "plain_text (ascii ''JSON document contains a duplicate object key'')"
  "plain_text (ascii ''invalid JSON syntax at line '')"
  "plain_text (ascii '', column '')"
  by (code_simp)+

lemma check_pending_exception: "check_pending pending = Inl e \<Longrightarrow> json_exception e"
  using check_pending_error loader_messages by fastforce

lemma hook_errors:
  "exact_decimal n = Inl e \<Longrightarrow> json_exception e"
  "reject_constant = Inl e \<Longrightarrow> json_exception e"
  "unique_object ps = Inl e \<Longrightarrow> json_exception e"
proof -
  show "exact_decimal n = Inl e \<Longrightarrow> json_exception e"
    by (auto simp: exact_decimal_def Let_def split: if_splits) (code_simp)+
  show "reject_constant = Inl e \<Longrightarrow> json_exception e"
    by (auto simp: reject_constant_def) (code_simp)
  have "foldR (\<lambda>(key, v) result. if dict_has result key
         then Inl (JSONDocumentError (ascii ''JSON document contains a duplicate object key''))
         else Inr (dict_set key v result)) ps acc = Inl e \<Longrightarrow> json_exception e" for acc
    by (induction ps arbitrary: acc) (auto simp: loader_messages split: if_splits)
  then show "unique_object ps = Inl e \<Longrightarrow> json_exception e"
    by (auto simp: unique_object_def bindR_eq_Inl)
qed

lemma scan_string_raises: "scan_string start s \<noteq> Inl (Raised e)"
proof -
  have "scan_unicode s \<noteq> Inl (Raised e)" for s
    by (simp add: scan_unicode_def split: option.split list.split)
  then show ?thesis
    by (induction start s rule: scan_string.induct)
      (auto simp: bindR_eq_Inl split: if_splits list.splits option.splits)
qed

lemma list_case_eq:
  "(case xs of [] \<Rightarrow> a | y # ys \<Rightarrow> f y ys) = r \<longleftrightarrow> xs = [] \<and> a = r \<or> (\<exists>y ys. xs = y # ys \<and> f y ys = r)"
  by (cases xs) auto

lemma scan_raises:
  "scan_value I fuel depth s = Inl (Raised e) \<Longrightarrow> json_exception e"
  "scan_pairs I fuel depth s = Inl (Raised e) \<Longrightarrow> json_exception e"
  "scan_items I fuel depth s = Inl (Raised e) \<Longrightarrow> json_exception e"
proof -
  have hook: "call_hook I d h = Inl (Raised e) \<Longrightarrow> h = Inl e" for d h
    by (auto simp: call_hook_def split: if_splits sum.splits)
  have hooks: "call_hook I d (exact_decimal n) = Inl (Raised e) \<Longrightarrow> json_exception e"
    "call_hook I d reject_constant = Inl (Raised e) \<Longrightarrow> json_exception e"
    "call_hook I d (unique_object ps) = Inl (Raised e) \<Longrightarrow> json_exception e" for d n ps
    using hook hook_errors by blast+
  have atom: "scan_atom I d u = Inl (Raised e) \<Longrightarrow> json_exception e" for d u
    using hooks by (auto simp: scan_atom_def scan_constant_def bindR_eq_Inl split: if_splits option.splits)
  have "(\<forall>depth s. scan_value I fuel depth s = Inl (Raised e) \<longrightarrow> json_exception e) \<and>
    (\<forall>depth s. scan_pairs I fuel depth s = Inl (Raised e) \<longrightarrow> json_exception e) \<and>
    (\<forall>depth s. scan_items I fuel depth s = Inl (Raised e) \<longrightarrow> json_exception e)"
  proof (induction fuel)
    case 0
    then show ?case by simp
  next
    case (Suc fuel)
    then have val: "scan_value I fuel d u = Inl (Raised e) \<Longrightarrow> json_exception e"
      and pairs: "scan_pairs I fuel d u = Inl (Raised e) \<Longrightarrow> json_exception e"
      and items: "scan_items I fuel d u = Inl (Raised e) \<Longrightarrow> json_exception e" for d u
      by blast+
    have "json_exception e" if "scan_value I (Suc fuel) depth s = Inl (Raised e)" for depth s
      using that pairs items atom hooks scan_string_raises
      by (cases s) (auto simp: bindR_eq_Inl split: if_splits list.splits)
    moreover have "json_exception e" if "scan_pairs I (Suc fuel) depth s = Inl (Raised e)" for depth s
      using that pairs val scan_string_raises
      by (cases s) (auto simp: bindR_eq_Inl list_case_eq split: if_splits)
    moreover have "json_exception e" if "scan_items I (Suc fuel) depth s = Inl (Raised e)" for depth s
      using that items val by (auto simp: bindR_eq_Inl list_case_eq split: if_splits)
    ultimately show ?case by blast
  qed
  then show "scan_value I fuel depth s = Inl (Raised e) \<Longrightarrow> json_exception e"
    and "scan_pairs I fuel depth s = Inl (Raised e) \<Longrightarrow> json_exception e"
    and "scan_items I fuel depth s = Inl (Raised e) \<Longrightarrow> json_exception e" by blast+
qed

lemma loads_error_exception:
  assumes "json_loads I s = Inl e" and "length s < 10 ^ 7"
  shows "json_exception (loads_error s e)"
proof (cases e)
  case (JSONDecodeError left)
  have "line_number s left \<le> length s + 1" "column_number s left \<le> length s + 1"
    using length_filter_le [of "\<lambda>c. c = 10" "take (length s - left) s"]
      length_takeWhile_le [of "\<lambda>c. c \<noteq> 10" "rev (take (length s - left) s)"]
    by (simp_all add: line_number_def column_number_def)
  then have "length (py_str_nat (line_number s left)) \<le> 8" "length (py_str_nat (column_number s left)) \<le> 8"
    using assms(2) by (auto intro!: length_py_str_nat)
  then show ?thesis by (simp add: JSONDecodeError loader_messages plain_text_nat)
next
  case (Raised x)
  have "scan_value I (2 * length s + 2) 0 (skip_space s) = Inl (Raised x)"
    using assms(1) unfolding json_loads_def Raised
    by (auto simp: bindR_eq_Inl simp del: scan_value.simps split: if_splits)
  then have "json_exception x" by (rule scan_raises)
  then show ?thesis unfolding Raised by (cases x) (auto simp: json_exception_def)
qed (use assms(1) json_loads_fuel loader_messages in auto)

lemma utf8_decode_length: "utf8_decode bs = Some s \<Longrightarrow> length s \<le> length bs"
proof -
  have char: "1 \<le> length (utf8_char c)" for c by (simp add: utf8_char_def)
  have "length s \<le> length (utf8_encode s)"
  proof (induction s)
    case (Cons c s)
    then show ?case using char [of c] by (simp add: utf8_encode_def)
  qed simp
  then show "utf8_decode bs = Some s \<Longrightarrow> length s \<le> length bs" using utf8_encode_decode by auto
qed

lemma strict_json_error:
  assumes "strict_json I file = Inl e"
  shows "json_exception e"
proof (cases "file")
  case None
  then show ?thesis using assms loader_messages by (auto simp: strict_json_def)
next
  case (Some contents)
  let ?raw = "take (MAX_JSON_BYTES + 1) contents"
  show ?thesis
  proof (cases "MAX_JSON_BYTES < length ?raw")
    case True
    then show ?thesis using assms Some loader_messages by (auto simp: strict_json_def Let_def)
  next
    case False
    then have run: "(case utf8_decode ?raw of None \<Rightarrow> Inl (document_error ''JSON document is not UTF-8'')
        | Some text \<Rightarrow> (case json_loads I text of Inl e \<Rightarrow> Inl (loads_error text e)
          | Inr document \<Rightarrow> bindR (require_unicode_scalars document) (\<lambda>_. Inr document))) = Inl e"
      using assms by (simp add: strict_json_def Some Let_def del: length_take)
    have "length s < 10 ^ 7" if "utf8_decode ?raw = Some s" for s
      using utf8_decode_length [OF that] False by (simp add: MAX_JSON_BYTES_def)
    then show ?thesis
      using run loads_error_exception loader_messages
      by (auto simp: require_unicode_scalars_def bindR_eq_Inl simp del: check_pending.simps
          split: option.splits sum.splits dest: check_pending_exception)
  qed
qed

end
