(* ===== verification/ContractFiles.thy ===== *)
theory ContractFiles
  imports FileTree StrictJson Fingerprint SchemaProfile
begin

text \<open>
  \<open>safe_file\<close> and the schema inventory of \<open>scripts/check_contract.py\<close>: \<open>load_canonical_schemas\<close>,
  \<open>check_canonical_schema_invariants\<close> and \<open>check_schema_parity\<close>. The contract directory is a node
  of the file tree; a path below it is written relative to it, which is how the code reports it. The
  diagnostics are the list \<open>errors\<close>, threaded through.
\<close>

type_synonym messages = "ustring list"

definition report :: "ustring \<Rightarrow> messages \<Rightarrow> messages" where
  "report message errors = errors @ [message]"

definition report_if :: "bool \<Rightarrow> ustring \<Rightarrow> messages \<Rightarrow> messages" where
  "report_if b message errors = (if b then report message errors else errors)"

subsection \<open>Constants\<close>

definition CONTRACT_RELATIVE :: path where
  "CONTRACT_RELATIVE = relative_path [''gateway'', ''contracts'', ''model-turn'', ''v1'']"

definition REQUEST_SCHEMA :: path where
  "REQUEST_SCHEMA = relative_path [''schema'', ''request.schema.json'']"

definition SUCCESS_SCHEMA :: path where
  "SUCCESS_SCHEMA = relative_path [''schema'', ''success.schema.json'']"

definition FAILURE_SCHEMA :: path where
  "FAILURE_SCHEMA = relative_path [''schema'', ''failure.schema.json'']"

definition CANONICAL_SCHEMA_METADATA :: "(path \<times> ustring \<times> ustring) list" where
  "CANONICAL_SCHEMA_METADATA =
     [(REQUEST_SCHEMA, ascii ''urn:fastgate:model-turn:v1:request'', ascii ''model_turn.request''),
      (SUCCESS_SCHEMA, ascii ''urn:fastgate:model-turn:v1:success'', ascii ''model_turn.completed''),
      (FAILURE_SCHEMA, ascii ''urn:fastgate:model-turn:v1:failure'', ascii ''model_turn.failed'')]"

definition CANONICAL_REQUIRED_FIELDS :: "path \<Rightarrow> ustring list" where
  "CANONICAL_REQUIRED_FIELDS relative =
     map ascii
       (if relative = REQUEST_SCHEMA
        then [''version'', ''kind'', ''request_id'', ''model_alias'', ''conversation'', ''instructions'',
          ''required_capabilities'']
        else if relative = SUCCESS_SCHEMA then [''version'', ''kind'', ''request_id'', ''output_text'']
        else [''version'', ''kind'', ''request_id'', ''error''])"

definition CANONICAL_ROOT_FIELDS :: "path \<Rightarrow> ustring list" where
  "CANONICAL_ROOT_FIELDS relative =
     CANONICAL_REQUIRED_FIELDS relative @ (if relative = REQUEST_SCHEMA then [] else [ascii ''usage''])"

definition V1_SCHEMA_VALIDATION_FINGERPRINTS :: "(path \<times> ustring) list" where
  "V1_SCHEMA_VALIDATION_FINGERPRINTS =
     [(REQUEST_SCHEMA, ascii ''e08098dd1c8ef35c63b177720145caeb927304added8ec5b9e993c49bbcd0fb9''),
      (SUCCESS_SCHEMA, ascii ''31d2b6f7892a4b67c7122bace115d2614535f1e3745a4f3905d27f7c164d73f1''),
      (FAILURE_SCHEMA, ascii ''1be52b33e19688e818175dc8ae4e336be9fb6ba56e5f0d7885864d6913856686'')]"

definition CANONICAL_SCHEMAS :: "path list" where
  "CANONICAL_SCHEMAS = map fst CANONICAL_SCHEMA_METADATA"

subsection \<open>safe_file\<close>

text \<open>The loop over the parts: is any prefix of the path a link?\<close>

fun link_on_path :: "node \<Rightarrow> ustring list \<Rightarrow> ustring list \<Rightarrow> bool result" where
  "link_on_path contract current [] = Inr False"
| "link_on_path contract current (part # parts) =
     bindR (is_symlink contract (current @ [part])) (\<lambda>link.
     if link then Inr True else link_on_path contract (current @ [part]) parts)"

text \<open>The returned pair has a path or a message: \<open>Inl\<close> the message, \<open>Inr\<close> the path.\<close>

definition safe_file :: "node \<Rightarrow> pyval \<Rightarrow> path \<Rightarrow> (ustring + path) result" where
  "safe_file contract raw_path folder =
     (case raw_path of
        VStr raw \<Rightarrow>
          if raw = [] \<or> MAX_PATH_LENGTH < length raw
          then Inr (Inl (ascii ''path must be a bounded non-empty string''))
          else
            (let relative = parse_path raw in
             if is_absolute relative \<or> as_posix relative \<noteq> raw \<or> ascii ''..'' \<in> set (path_parts relative)
             then Inr (Inl (ascii ''path must be a normalized contract-relative path''))
             else if \<not> is_under folder relative
             then Inr (Inl (ascii ''path must be under '' @ as_posix folder))
             else
               bindR (link_on_path contract [] (path_parts relative)) (\<lambda>link.
               if link then Inr (Inl (ascii ''path must not contain a symlink''))
               else
                 bindR (is_file contract (path_parts relative)) (\<lambda>regular.
                 if \<not> regular then Inr (Inl (ascii ''path must name an existing regular file''))
                 else Inr (Inr relative))))
      | _ \<Rightarrow> Inr (Inl (ascii ''path must be a bounded non-empty string'')))"

subsection \<open>Inventory of a directory\<close>

text \<open>
  The walk below \<open>schema\<close> and below \<open>fixtures\<close>: links are reported, the other files collected
  (\<open>discovered\<close>, here with repetitions allowed).
\<close>

definition visit_step ::
  "ustring \<Rightarrow> walk_step \<Rightarrow> messages \<times> path list \<Rightarrow> messages \<times> path list" where
  "visit_step label step state =
     (case step of (base, directory_names, file_names) \<Rightarrow>
      fold (\<lambda>(name, m) (errors, discovered).
          if is_link m then (report (label @ ascii '': symlinked files are not allowed'') errors, discovered)
          else (errors, discovered @ [Path [] (base @ [name])]))
        file_names
        (fold (\<lambda>(name, m) (errors, discovered).
            (report_if (is_link m) (label @ ascii '': symlinked directories are not allowed'') errors, discovered))
          directory_names state))"

definition walk_inventory ::
  "ustring \<Rightarrow> node \<Rightarrow> ustring \<Rightarrow> messages \<Rightarrow> (messages \<times> path list) result" where
  "walk_inventory label contract directory errors =
     bindR (lstat contract [directory]) (\<lambda>n.
     Inr (case n of
        None \<Rightarrow> (errors, [])
      | Some m \<Rightarrow>
          if is_dir_node m then fold (visit_step label) (os_walk [directory] m) (errors, []) else (errors, [])))"

text \<open>\<open>sorted(discovered - expected)\<close>.\<close>

definition unexpected_files :: "path list \<Rightarrow> path list \<Rightarrow> path list" where
  "unexpected_files discovered expected =
     sort (remdups (filter (\<lambda>p. p \<notin> set expected) discovered))"

subsection \<open>check_canonical_schema_invariants\<close>

type_synonym schema_map = "(path \<times> pyval option) list"

text \<open>\<open>schemas.get(contract / relative)\<close>: a schema that was refused is stored as \<open>None\<close>.\<close>

definition schema_at :: "schema_map \<Rightarrow> path \<Rightarrow> pyval option" where
  "schema_at schemas relative = (case map_of schemas relative of Some v \<Rightarrow> v | None \<Rightarrow> None)"

definition schema_entries :: "schema_map \<Rightarrow> path \<Rightarrow> entries option" where
  "schema_entries schemas relative =
     (case schema_at schemas relative of Some (VDict kvs) \<Rightarrow> Some kvs | _ \<Rightarrow> None)"

text \<open>Elements of a \<open>set\<close>: lists and dictionaries are not hashable; numbers are equal by value.\<close>

definition hashable :: "pyval \<Rightarrow> bool" where
  "hashable v \<longleftrightarrow> \<not> is_list v \<and> \<not> is_dict v"

definition same_element :: "pyval \<Rightarrow> pyval \<Rightarrow> bool" where
  "same_element a b \<longleftrightarrow> a = b \<or> num_values_eq a b"

fun has_duplicate :: "pyval list \<Rightarrow> bool" where
  "has_duplicate [] = False"
| "has_duplicate (v # vs) = (list_ex (same_element v) vs \<or> has_duplicate vs)"

definition schema_label :: "path \<Rightarrow> ustring \<Rightarrow> ustring" where
  "schema_label relative message = ascii ''schema '' @ as_posix relative @ ascii '': '' @ message"

text \<open>The rules for \<open>version\<close> and \<open>kind\<close>.\<close>

definition check_field_rule ::
  "(nat \<Rightarrow> bool) \<Rightarrow> path \<Rightarrow> pyval list \<Rightarrow> entries \<Rightarrow> string \<times> ustring \<Rightarrow> messages \<Rightarrow> messages" where
  "check_field_rule pr relative required properties rule errors =
     (case rule of (field, expected_const) \<Rightarrow>
      report_if
        (case get_or_none properties field of
           VDict rule_entries \<Rightarrow>
             get_or_none rule_entries ''type'' \<noteq> VStr (ascii ''string'') \<or>
             get_or_none rule_entries ''const'' \<noteq> VStr expected_const
         | _ \<Rightarrow> True)
        (schema_label relative (ascii field @ ascii '' must have type '' @ [39] @ ascii ''string'' @ [39] @
           ascii '' and const '' @ py_repr pr expected_const))
        (report_if (VStr (ascii field) \<notin> set required)
          (schema_label relative (ascii field @ ascii '' must be required'')) errors))"

definition check_canonical_schema ::
  "(nat \<Rightarrow> bool) \<Rightarrow> path \<times> entries \<times> ustring \<times> ustring \<Rightarrow> messages \<Rightarrow> messages result" where
  "check_canonical_schema pr item errors =
     (case item of (relative, schema, expected_id, expected_kind) \<Rightarrow>
      case dict_get schema (ascii ''$id'') of
        None \<Rightarrow> Inl KeyError
      | Some actual_id \<Rightarrow>
      (let errors = report_if (actual_id \<noteq> VStr expected_id)
             (schema_label relative (ascii ''$id must be '' @ py_repr pr expected_id)) errors in
       bindR (schema_validation_fingerprint (VDict schema)) (\<lambda>fingerprint.
       let errors = report_if (Some fingerprint \<noteq> map_of V1_SCHEMA_VALIDATION_FINGERPRINTS relative)
             (schema_label relative (ascii ''validation rules must match the frozen v1 contract'')) errors;
           no_root = report (schema_label relative
             (ascii ''canonical root must be an object with properties and required'')) errors in
       case (get_or_none schema ''required'', get_or_none schema ''properties'') of
         (VList required, VDict properties) \<Rightarrow>
           if get_or_none schema ''type'' \<noteq> VStr (ascii ''object'') then Inr no_root
           else if \<not> list_all hashable required then Inl TypeError
           else
             Inr (perform
               [report_if (set (dict_keys properties) \<noteq> set (CANONICAL_ROOT_FIELDS relative))
                  (schema_label relative (ascii ''canonical root property names must remain exact'')),
                report_if (set required \<noteq> VStr ` set (CANONICAL_REQUIRED_FIELDS relative))
                  (schema_label relative (ascii ''canonical root required fields must remain exact'')),
                check_field_rule pr relative required properties (''version'', ascii ''v1''),
                check_field_rule pr relative required properties (''kind'', expected_kind)] errors)
       | _ \<Rightarrow> Inr no_root)))"

definition check_canonical_schema_invariants ::
  "(nat \<Rightarrow> bool) \<Rightarrow> schema_map \<Rightarrow> messages \<Rightarrow> messages result" where
  "check_canonical_schema_invariants pr schemas errors =
     (let errors = report_if
            (set (map fst V1_SCHEMA_VALIDATION_FINGERPRINTS) \<noteq> set (map fst CANONICAL_SCHEMA_METADATA))
            (ascii ''contract schemas: v1 validation fingerprint inventory must match canonical schemas'')
            errors in
      if \<not> list_all (\<lambda>(relative, _). schema_entries schemas relative \<noteq> None) CANONICAL_SCHEMA_METADATA
      then Inr errors
      else
        (let items = map (\<lambda>(relative, expected_id, expected_kind).
               (relative, the (schema_entries schemas relative), expected_id, expected_kind))
               CANONICAL_SCHEMA_METADATA in
         bindR (mapR (\<lambda>(relative, schema, _). case dict_get schema (ascii ''$id'') of
             None \<Rightarrow> Inl KeyError | Some v \<Rightarrow> Inr v) items) (\<lambda>actual_ids.
         if \<not> list_all hashable actual_ids then Inl TypeError
         else
           foldR (check_canonical_schema pr) items
             (report_if (has_duplicate actual_ids)
               (ascii ''contract schemas: canonical $id values must be unique'') errors))))"

subsection \<open>check_schema_parity\<close>

text \<open>\<open>None\<close> stands for a missing value and for a JSON null alike.\<close>

fun nested :: "pyval \<Rightarrow> string list \<Rightarrow> pyval" where
  "nested v [] = v"
| "nested (VDict kvs) (key # keys) = nested (get_or_none kvs key) keys"
| "nested _ (key # keys) = VNone"

definition require_equal :: "string \<Rightarrow> pyval list \<Rightarrow> messages \<Rightarrow> messages" where
  "require_equal label vs errors =
     (if list_all (\<lambda>v. v = VNone) vs then errors
      else report_if (list_ex (\<lambda>v. v = VNone) vs \<or> \<not> list_all (json_equal (hd vs)) (tl vs))
        (ascii ''contract schemas: '' @ ascii label @ ascii '' rules must remain identical'') errors)"

definition check_schema_parity :: "schema_map \<Rightarrow> messages \<Rightarrow> messages" where
  "check_schema_parity schemas errors =
     (case (schema_entries schemas REQUEST_SCHEMA, schema_entries schemas SUCCESS_SCHEMA,
            schema_entries schemas FAILURE_SCHEMA) of
        (Some req, Some suc, Some fai) \<Rightarrow>
          (let request = VDict req; success = VDict suc; failure = VDict fai in
           perform
             [require_equal ''request_id''
                (map (\<lambda>schema. nested schema [''properties'', ''request_id'']) [request, success, failure]),
              require_equal ''request_id and model_alias''
                [nested request [''properties'', ''request_id''],
                 nested request [''properties'', ''model_alias'']],
              require_equal ''usage''
                [nested success [''properties'', ''usage''], nested failure [''properties'', ''usage'']],
              require_equal ''control-safe pattern''
                [nested request [''properties'', ''instructions'', ''items'', ''properties'', ''source'',
                   ''pattern''],
                 nested failure [''properties'', ''error'', ''properties'', ''message'', ''pattern'']]]
             errors)
      | _ \<Rightarrow> errors)"

subsection \<open>load_canonical_schemas\<close>

text \<open>\<open>except JSONDocumentError as error\<close> with \<open>str(error)\<close>; other exceptions pass.\<close>

fun json_message :: "exc \<Rightarrow> ustring option" where
  "json_message (JSONDocumentError m) = Some m"
| "json_message (JSONArtifactError m) = Some m"
| "json_message e = None"

definition load_schema ::
  "interpreter \<Rightarrow> (nat \<Rightarrow> bool) \<Rightarrow> node \<Rightarrow> path \<Rightarrow> messages \<times> schema_map \<Rightarrow> (messages \<times> schema_map) result"
where
  "load_schema I pr contract relative state =
     (case state of (errors, schemas) \<Rightarrow>
      bindR (safe_file contract (VStr (as_posix relative)) (relative_path [''schema''])) (\<lambda>found.
      case found of
        Inl message \<Rightarrow> Inr (report (schema_label relative message) errors, schemas)
      | Inr file \<Rightarrow>
          (case strict_json I (file_contents contract (path_parts file)) of
             Inl e \<Rightarrow>
               (case json_message e of
                  None \<Rightarrow> Inl e
                | Some message \<Rightarrow>
                    Inr (report (schema_label relative message) errors, schemas @ [(file, None)]))
           | Inr document \<Rightarrow>
               (let issues = schema_issues pr document in
                Inr (errors @ map (\<lambda>issue. ascii ''schema '' @ as_posix relative @ ascii '' '' @ issue) issues,
                  schemas @ [(file, if issues = [] then Some document else None)])))))"

definition load_canonical_schemas ::
  "interpreter \<Rightarrow> (nat \<Rightarrow> bool) \<Rightarrow> node \<Rightarrow> messages \<Rightarrow> (messages \<times> schema_map) result" where
  "load_canonical_schemas I pr contract errors =
     bindR (foldR (load_schema I pr contract) CANONICAL_SCHEMAS (errors, [])) (\<lambda>(errors, schemas).
     bindR (walk_inventory (ascii ''contract schemas'') contract (ascii ''schema'') errors)
       (\<lambda>(errors, discovered).
     let errors = errors @ map (\<lambda>p. ascii ''contract schemas: unexpected file '' @ py_repr pr (as_posix p))
           (unexpected_files discovered CANONICAL_SCHEMAS) in
     bindR (check_canonical_schema_invariants pr schemas errors) (\<lambda>errors.
     Inr (check_schema_parity schemas errors, schemas))))"

end
