(* ===== verification/FileSafety.thy ===== *)
theory FileSafety
  imports ContractFiles
begin

text \<open>
  The contract of \<open>safe_file\<close>: it returns exactly the normalized paths below the given folder at
  which a regular file is stored in the contract directory itself, reached through directories only.
  Looking up such a path follows no link. It raises only when a part of the path is too long for
  a file name.
\<close>

subsection \<open>Lookup without links\<close>

fun plain_lookup :: "node \<Rightarrow> ustring list \<Rightarrow> node option" where
  "plain_lookup n [] = Some n"
| "plain_lookup (Directory es) (p # ps) =
     (case map_of es p of None \<Rightarrow> None | Some m \<Rightarrow> plain_lookup m ps)"
| "plain_lookup n (p # ps) = None"

definition stored_file :: "node \<Rightarrow> ustring list \<Rightarrow> byte list option \<Rightarrow> bool" where
  "stored_file contract ps c \<longleftrightarrow>
     (\<exists>d. follow contract = Some d \<and> plain_lookup d ps = Some (RegularFile c))"

definition file_name :: "ustring \<Rightarrow> bool" where
  "file_name p \<longleftrightarrow> \<not> name_too_long p \<and> 0 \<notin> set p"

text \<open>A relative path without empty parts, dots or slashes inside parts, written the one way there is.\<close>

definition normal_path :: "ustring \<Rightarrow> path \<Rightarrow> bool" where
  "normal_path s p \<longleftrightarrow> s = as_posix p \<and> path_root p = [] \<and>
     (\<forall>part \<in> set (path_parts p). part \<noteq> [] \<and> 47 \<notin> set part \<and> part \<noteq> ascii ''.'' \<and> part \<noteq> ascii ''..'')"

subsection \<open>Paths\<close>

lemma ascii_dots: "ascii ''.'' = [46]" "ascii ''..'' = [46, 46]"
  by (simp_all add: ascii_def)

lemma parse_path_parts: "part \<in> set (path_parts (parse_path s)) \<Longrightarrow> part \<noteq> [] \<and> 47 \<notin> set part \<and> part \<noteq> [46]"
  by (auto simp: parse_path_def dest: split_on_parts)

lemma slashes_Nil: "s \<noteq> [] \<Longrightarrow> hd s \<noteq> 47 \<Longrightarrow> slashes s = []"
  by (cases s) (simp_all add: slashes_def)

lemma hd_join_with: "p \<noteq> [] \<Longrightarrow> hd (join_with [c] (p # ps)) = hd p \<and> join_with [c] (p # ps) \<noteq> []"
  by (cases ps) simp_all

lemma normal_path_parse: "normal_path s p \<Longrightarrow> parse_path s = p"
proof (cases p)
  case (Path r ps)
  assume n: "normal_path s p"
  then have r: "r = []" by (simp add: normal_path_def Path)
  have parts: "part \<noteq> []" "47 \<notin> set part" "part \<noteq> [46]" if "part \<in> set ps" for part
    using that n by (auto simp: normal_path_def Path ascii_dots)
  show ?thesis
  proof (cases ps)
    case Nil
    then have "s = [46]" using n by (simp add: normal_path_def Path r as_posix_def)
    then show ?thesis by (simp add: parse_path_def slashes_def Path r Nil)
  next
    case (Cons q qs)
    then have s: "s = join_with [47] ps" using n by (simp add: normal_path_def Path r as_posix_def)
    have "q \<noteq> []" "hd q \<noteq> 47" using parts [of q] Cons by (cases q; simp)+
    then have "slashes s = []" using hd_join_with [of q 47 qs] by (intro slashes_Nil) (simp_all add: s Cons)
    moreover have "split_on 47 s = ps" unfolding s by (rule split_join) (use parts Cons in auto)
    ultimately show ?thesis using parts by (auto simp: parse_path_def Path r filter_id_conv)
  qed
qed

lemma normal_path_iff:
  "normal_path s p \<longleftrightarrow> p = parse_path s \<and> \<not> is_absolute p \<and> as_posix p = s \<and> ascii ''..'' \<notin> set (path_parts p)"
proof
  assume n: "normal_path s p"
  then have "p = parse_path s" using normal_path_parse by simp
  then show "p = parse_path s \<and> \<not> is_absolute p \<and> as_posix p = s \<and> ascii ''..'' \<notin> set (path_parts p)"
    using n by (auto simp: normal_path_def is_absolute_def)
next
  assume "p = parse_path s \<and> \<not> is_absolute p \<and> as_posix p = s \<and> ascii ''..'' \<notin> set (path_parts p)"
  then show "normal_path s p"
    using parse_path_parts [of _ s] by (auto simp: normal_path_def is_absolute_def ascii_dots)
qed

subsection \<open>Lookup\<close>

lemma resolve_append:
  "resolve n (ps @ qs) = bindR (resolve n ps) (\<lambda>m. case m of None \<Rightarrow> Inr None | Some t \<Rightarrow> resolve t qs)"
  by (induction n ps rule: resolve.induct) (simp_all split: option.split node.split)

lemma resolve_error: "resolve n ps = Inl e \<Longrightarrow> e = OSError \<and> list_ex name_too_long ps"
  by (induction n ps rule: resolve.induct) (auto split: option.splits node.splits if_splits)

lemma lstat_error: "lstat n ps = Inl e \<Longrightarrow> e = OSError \<and> list_ex name_too_long ps"
  by (auto simp: lstat_def split: if_splits dest: resolve_error)

lemma link_on_path_error:
  "link_on_path contract current parts = Inl e \<Longrightarrow> e = OSError \<and> list_ex name_too_long (current @ parts)"
proof (induction parts arbitrary: current)
  case (Cons part parts)
  then show ?case
    using Cons.IH [of "current @ [part]"] lstat_error [of contract "current @ [part]" e]
    by (auto simp: bindR_eq_Inl is_symlink_def split: if_splits)
qed simp

text \<open>A link-free walk over the parts arrives where the plain lookup does.\<close>

lemma follow_not_Link: "follow n = Some (Link t) \<Longrightarrow> False"
  by (induction n rule: follow.induct) auto

lemma follow_plain: "\<not> is_link n \<Longrightarrow> follow n = Some n"
  by (cases n) auto

lemma resolve_plain:
  assumes "follow n = Some d" and "plain_lookup d ps = Some t" and "list_all file_name ps"
  shows "resolve n ps = Inr (Some (if ps = [] then n else t))"
  using assms
proof (induction ps arbitrary: n d)
  case (Cons p ps)
  then obtain es m where es: "d = Directory es" "map_of es p = Some m" "plain_lookup m ps = Some t"
    by (cases d) (auto split: option.splits)
  show ?case
  proof (cases ps)
    case Nil
    then show ?thesis using Cons.prems es by (simp add: file_name_def)
  next
    case (Cons q qs)
    then have "follow m = Some m" using es(3) by (cases m) auto
    then have "resolve m ps = Inr (Some t)" using Cons.IH [of m m] Cons.prems(3) es(3) Cons by simp
    then show ?thesis using Cons.prems es by (simp add: file_name_def)
  qed
qed simp

lemma file_name_null: "list_all file_name ps \<Longrightarrow> \<not> list_ex (\<lambda>p. 0 \<in> set p) ps"
  by (auto simp: list_all_iff list_ex_iff file_name_def)

lemma plain_lookup_append:
  "plain_lookup n (ps @ qs) = (case plain_lookup n ps of None \<Rightarrow> None | Some m \<Rightarrow> plain_lookup m qs)"
  by (induction n ps rule: plain_lookup.induct) (auto split: option.splits)

lemma no_link_on_plain_path:
  assumes "follow n = Some d" and "plain_lookup d (current @ parts) = Some (RegularFile c)"
    and "list_all file_name (current @ parts)"
  shows "link_on_path n current parts = Inr False"
  using assms(2,3)
proof (induction parts arbitrary: current)
  case (Cons part parts)
  obtain m where m: "plain_lookup d (current @ [part]) = Some m" "plain_lookup m parts = Some (RegularFile c)"
    using Cons.prems(1) plain_lookup_append [of d "current @ [part]" parts] by (auto split: option.splits)
  then have "\<not> is_link m" by (cases parts; cases m) auto
  moreover have "lstat n (current @ [part]) = Inr (Some m)"
    using resolve_plain [OF assms(1) m(1)] Cons.prems(2) file_name_null [of "current @ [part]"]
    by (simp add: lstat_def)
  ultimately have "is_symlink n (current @ [part]) = Inr False" by (cases m) (simp_all add: is_symlink_def)
  then show ?case using Cons.IH [of "current @ [part]"] Cons.prems by simp
qed simp

lemma stored_file_contents:
  assumes "stored_file contract ps c" and "list_all file_name ps"
  shows "is_file contract ps = Inr True" and "file_contents contract ps = c"
proof -
  obtain d where d: "follow contract = Some d" "plain_lookup d ps = Some (RegularFile c)"
    using assms(1) by (auto simp: stored_file_def)
  have "lstat contract ps = Inr (Some (if ps = [] then contract else RegularFile c))"
    using resolve_plain [OF d assms(2)] file_name_null [OF assms(2)] by (simp add: lstat_def)
  then show "is_file contract ps = Inr True" "file_contents contract ps = c"
    using d by (auto simp: is_file_def file_contents_def)
qed

lemma link_free_lookup:
  assumes "follow n = Some d" and "link_on_path n current parts = Inr False"
    and "plain_lookup d current = Some t" "list_all file_name current" "current = [] \<or> \<not> is_link t"
    and "resolve n (current @ parts) = Inr (Some u)" "follow u = Some (RegularFile c)"
    and "list_all (\<lambda>p. 0 \<notin> set p) parts" "current = [] \<Longrightarrow> \<not> is_link t"
  shows "plain_lookup t parts = Some (RegularFile c) \<and> list_all file_name parts"
  using assms(2-)
proof (induction parts arbitrary: current t)
  case Nil
  have "resolve n current = Inr (Some (if current = [] then n else t))"
    using assms(1) Nil.prems by (intro resolve_plain)
  then have "u = (if current = [] then n else t)" using Nil.prems by simp
  then show ?case using Nil.prems assms(1) follow_plain by (auto split: if_splits)
next
  case (Cons p parts)
  have t: "follow t = Some t" using Cons.prems follow_plain by blast
  have cur: "resolve n current = Inr (Some (if current = [] then n else t))"
    using assms(1) Cons.prems by (intro resolve_plain)
  have "resolve n (current @ p # parts) = resolve t (p # parts)"
    using cur t assms(1) Cons.prems(2) by (auto simp: resolve_append split: node.splits option.splits)
  then have "resolve t (p # parts) = Inr (Some u)" using Cons.prems by simp
  then obtain es m where es: "t = Directory es" "\<not> name_too_long p" "map_of es p = Some m" "resolve m parts = Inr (Some u)"
    using t by (auto split: node.splits option.splits if_splits)
  have name: "file_name p" using es(2) Cons.prems by (simp add: file_name_def)
  have look: "plain_lookup d (current @ [p]) = Some m"
    using Cons.prems(2) es by (simp add: plain_lookup_append)
  have all: "list_all file_name (current @ [p])" using Cons.prems name by simp
  have res: "resolve n (current @ [p]) = Inr (Some m)" using resolve_plain [OF assms(1) look all] by simp
  then have "is_symlink n (current @ [p]) = Inr (is_link m)"
    using file_name_null [OF all] by (cases m) (simp_all add: is_symlink_def lstat_def)
  then have link: "\<not> is_link m" "link_on_path n (current @ [p]) parts = Inr False"
    using Cons.prems(1) by (auto split: if_splits)
  have "plain_lookup m parts = Some (RegularFile c) \<and> list_all file_name parts"
  proof (rule Cons.IH [OF link(2) look all])
    show "resolve n ((current @ [p]) @ parts) = Inr (Some u)" using Cons.prems by simp
  qed (use link Cons.prems in simp_all)
  then show ?case using es name by simp
qed

lemma safe_lookup_iff:
  "link_on_path contract [] ps = Inr False \<and> is_file contract ps = Inr True \<longleftrightarrow>
     list_all file_name ps \<and> (\<exists>c. stored_file contract ps c)"
proof (intro iffI conjI; (elim conjE exE)?)
  fix c
  assume *: "list_all file_name ps" "stored_file contract ps c"
  then show "link_on_path contract [] ps = Inr False" "is_file contract ps = Inr True"
    using no_link_on_plain_path [of contract _ "[]" ps c] stored_file_contents [of contract ps c]
    by (auto simp: stored_file_def)
next
  assume *: "link_on_path contract [] ps = Inr False" "is_file contract ps = Inr True"
  then obtain m where m: "lstat contract ps = Inr m"
      "case m of None \<Rightarrow> False | Some t \<Rightarrow> (case follow t of Some (RegularFile c) \<Rightarrow> True | _ \<Rightarrow> False)"
    by (auto simp: is_file_def bindR_eq_Inr)
  then obtain u c where u: "lstat contract ps = Inr (Some u)" "follow u = Some (RegularFile c)"
    by (cases m) (auto split: option.splits node.splits)
  then have res: "resolve contract ps = Inr (Some u)" and null: "list_all (\<lambda>p. 0 \<notin> set p) ps"
    by (auto simp: lstat_def list_all_iff list_ex_iff split: if_splits)
  obtain d where d: "follow contract = Some d"
    using res u(2) by (cases ps) (auto split: option.splits)
  have "\<not> is_link d" using d follow_not_Link by (cases d) auto
  then have "plain_lookup d ps = Some (RegularFile c) \<and> list_all file_name ps"
    using link_free_lookup [OF d *(1), of d u c] res null u(2) by simp
  then show "list_all file_name ps" "\<exists>c. stored_file contract ps c"
    using d by (auto simp: stored_file_def)
qed

subsection \<open>safe_file\<close>

definition admitted :: "node \<Rightarrow> path \<Rightarrow> pyval \<Rightarrow> path \<Rightarrow> bool" where
  "admitted contract folder raw_path p \<longleftrightarrow>
     (\<exists>s. raw_path = VStr s \<and> s \<noteq> [] \<and> length s \<le> MAX_PATH_LENGTH \<and> normal_path s p) \<and>
     is_under folder p \<and> list_all file_name (path_parts p) \<and> (\<exists>c. stored_file contract (path_parts p) c)"

lemma safe_file_admitted: "safe_file contract raw_path folder = Inr (Inr p) \<longleftrightarrow> admitted contract folder raw_path p"
proof (cases raw_path)
  case (VStr s)
  define q where "q = parse_path s"
  show ?thesis
  proof (cases "s = [] \<or> MAX_PATH_LENGTH < length s \<or> \<not> normal_path s q \<or> \<not> is_under folder q")
    case True
    have "admitted contract folder raw_path p \<Longrightarrow> q = p"
      using normal_path_parse by (auto simp: admitted_def VStr q_def)
    then have "\<not> admitted contract folder raw_path p"
      using True by (auto simp: admitted_def VStr)
    moreover have "safe_file contract raw_path folder \<noteq> Inr (Inr p)"
      using True by (auto simp: safe_file_def VStr normal_path_iff q_def Let_def)
    ultimately show ?thesis by simp
  next
    case False
    then have "safe_file contract raw_path folder = Inr (Inr p) \<longleftrightarrow>
        link_on_path contract [] (path_parts q) = Inr False \<and> is_file contract (path_parts q) = Inr True \<and> q = p"
      by (auto simp: safe_file_def VStr normal_path_iff q_def [symmetric] Let_def bindR_eq_Inr split: if_splits)
    also have "\<dots> \<longleftrightarrow> admitted contract folder raw_path p"
      using False normal_path_parse [of s p] safe_lookup_iff [of contract "path_parts q"]
      by (auto simp: admitted_def VStr q_def)
    finally show ?thesis .
  qed
qed (simp_all add: safe_file_def admitted_def)

lemma safe_file_raises:
  "safe_file contract raw_path folder = Inl e \<Longrightarrow>
     e = OSError \<and> (\<exists>s. raw_path = VStr s \<and> length s \<le> MAX_PATH_LENGTH \<and>
       list_ex name_too_long (path_parts (parse_path s)))"
  by (auto simp: safe_file_def Let_def bindR_eq_Inl bindR_eq_Inr is_file_def
      dest: link_on_path_error lstat_error split: pyval.splits if_splits)

end
