(* ===== verification/Inventory.thy ===== *)
theory Inventory
  imports FileSafety
begin

text \<open>
  What the walk over a directory of the contract finds: every entry below it, links and files. The
  relation \<open>entry_below\<close> enumerates the entries; the walk reports exactly the links and collects
  exactly the files.
\<close>

subsection \<open>Diagnostics\<close>

lemma report_Nil [simp]: "report m errors \<noteq> []"
  by (simp add: report_def)

lemma report_if_Nil [simp]: "report_if b m errors = [] \<longleftrightarrow> \<not> b \<and> errors = []"
  by (simp add: report_if_def)

subsection \<open>Entries\<close>

inductive entry_below :: "node \<Rightarrow> ustring list \<Rightarrow> node \<Rightarrow> bool" where
  entry: "(name, m) \<in> set es \<Longrightarrow> entry_below (Directory es) [name] m"
| deeper: "(name, m) \<in> set es \<Longrightarrow> entry_below m ps k \<Longrightarrow> entry_below (Directory es) (name # ps) k"

inductive_cases entry_below_DirectoryE: "entry_below (Directory es) ps k"
inductive_simps entry_below_Directory: "entry_below (Directory es) ps k"
inductive_simps entry_below_leaf:
  "entry_below (RegularFile c) ps k" "entry_below (Link t) ps k" "entry_below (OtherNode c) ps k"

lemmas entry_below_simps = entry_below_Directory entry_below_leaf

text \<open>Where the entries stand in the steps of \<open>os.walk\<close>.\<close>

definition step_entries :: "walk_step list \<Rightarrow> (ustring list \<times> node) set" where
  "step_entries steps =
     (\<Union>(base, ds, fs) \<in> set steps. (\<lambda>(name, m). (base @ [name], m)) ` (set ds \<union> set fs))"

lemma walk_entries_below:
  "step_entries (walk_entries base n) = {(base @ ps, k) | ps k. entry_below n ps k}"
proof (induction base n rule: walk_entries.induct)
  case (1 base es)
  have "set (filter (\<lambda>(n, m). is_dir_node m) es) \<union> set (filter (\<lambda>(n, m). \<not> is_dir_node m) es) = set es" by auto
  then have split: "step_entries ((base, filter (\<lambda>(n, m). is_dir_node m) es, filter (\<lambda>(n, m). \<not> is_dir_node m) es) # steps) =
      {(base @ [name], m) | name m. (name, m) \<in> set es} \<union> step_entries steps" for steps
    by (simp add: step_entries_def del: set_filter) auto
  have "step_entries (concat (map f xs)) = (\<Union>x \<in> set xs. step_entries (f x))" for f and xs :: "(ustring \<times> node) list"
    by (simp add: step_entries_def)
  then have "step_entries (walk_entries base (Directory es)) =
      {(base @ [name], m) | name m. (name, m) \<in> set es} \<union>
      (\<Union>x \<in> set es. step_entries (walk_entries (base @ [fst x]) (snd x)))"
    by (simp only: walk_entries.simps split case_prod_beta)
  also have "(\<Union>x \<in> set es. step_entries (walk_entries (base @ [fst x]) (snd x))) =
      (\<Union>(name, m) \<in> set es. {((base @ [name]) @ ps, k) | ps k. entry_below m ps k})"
    using "1.IH" by (intro SUP_cong) auto
  also have "{(base @ [name], m) | name m. (name, m) \<in> set es} \<union> \<dots> =
      {(base @ ps, k) | ps k. entry_below (Directory es) ps k}"
    by (auto simp: entry_below_Directory)
  finally show ?case .
qed (auto simp: step_entries_def entry_below_leaf)

text \<open>In a walk, the entries of the second component are the directories.\<close>

lemma walk_entries_sorted:
  "(base', ds, fs) \<in> set (walk_entries base n) \<Longrightarrow>
     (\<forall>(name, m) \<in> set ds. is_dir_node m) \<and> (\<forall>(name, m) \<in> set fs. \<not> is_dir_node m)"
  by (induction base n rule: walk_entries.induct) (auto, blast+)

subsection \<open>visit_step\<close>

lemma visit_directories:
  "fold (\<lambda>(name, m) (errors, discovered). (report_if (is_link m) msg errors, discovered)) ds (errors, discovered) =
     (errors', discovered') \<Longrightarrow>
   discovered' = discovered \<and> (errors' = [] \<longleftrightarrow> errors = [] \<and> (\<forall>(name, m) \<in> set ds. \<not> is_link m))"
  by (induction ds arbitrary: errors) (auto split: prod.splits)

lemma visit_files:
  "fold (\<lambda>(name, m) (errors, discovered). if is_link m then (report msg errors, discovered)
        else (errors, discovered @ [Path [] (base @ [name])])) fs (errors, discovered) =
     (errors', discovered') \<Longrightarrow>
   set discovered' = set discovered \<union> {Path [] (base @ [name]) | name m. (name, m) \<in> set fs \<and> \<not> is_link m} \<and>
   (errors' = [] \<longleftrightarrow> errors = [] \<and> (\<forall>(name, m) \<in> set fs. \<not> is_link m))"
proof (induction fs arbitrary: errors discovered)
  case (Cons f fs)
  show ?case
  proof (cases f)
    case (Pair name m)
    then show ?thesis
      using Cons.prems Cons.IH [of "report msg errors" discovered]
        Cons.IH [of errors "discovered @ [Path [] (base @ [name])]"]
      by (cases "is_link m") auto
  qed
qed simp

definition found_files :: "walk_step list \<Rightarrow> path set" where
  "found_files steps =
     (\<Union>(base, ds, fs) \<in> set steps. {Path [] (base @ [name]) | name m. (name, m) \<in> set fs \<and> \<not> is_link m})"

lemma visit_steps:
  "fold (visit_step label) steps (errors, discovered) = (errors', discovered') \<Longrightarrow>
   set discovered' = set discovered \<union> found_files steps \<and>
   (errors' = [] \<longleftrightarrow> errors = [] \<and> (\<forall>(p, m) \<in> step_entries steps. \<not> is_link m))"
proof (induction steps arbitrary: errors discovered)
  case Nil
  then show ?case by (simp add: found_files_def step_entries_def)
next
  case (Cons step steps)
  obtain base ds fs where step: "step = (base, ds, fs)" by (cases step)
  obtain e1 d1 where 1: "fold (\<lambda>(name, m) (errors, discovered).
      (report_if (is_link m) (label @ ascii '': symlinked directories are not allowed'') errors, discovered)) ds
      (errors, discovered) = (e1, d1)" by (rule prod.exhaust)
  obtain e2 d2 where 2: "fold (\<lambda>(name, m) (errors, discovered).
      if is_link m then (report (label @ ascii '': symlinked files are not allowed'') errors, discovered)
      else (errors, discovered @ [Path [] (base @ [name])])) fs (e1, d1) = (e2, d2)" by (rule prod.exhaust)
  have "visit_step label step (errors, discovered) = (e2, d2)"
    by (simp add: visit_step_def step 1 2)
  then have rest: "fold (visit_step label) steps (e2, d2) = (errors', discovered')" using Cons.prems by simp
  have files: "found_files (step # steps) =
      {Path [] (base @ [name]) | name m. (name, m) \<in> set fs \<and> \<not> is_link m} \<union> found_files steps"
    by (simp add: found_files_def step)
  have "step_entries (step # steps) =
      (\<lambda>(name, m). (base @ [name], m)) ` (set ds \<union> set fs) \<union> step_entries steps"
    by (simp add: step_entries_def step)
  then have links: "(\<forall>(p, m) \<in> step_entries (step # steps). \<not> is_link m) \<longleftrightarrow>
      (\<forall>(name, m) \<in> set ds. \<not> is_link m) \<and> (\<forall>(name, m) \<in> set fs. \<not> is_link m) \<and>
      (\<forall>(p, m) \<in> step_entries steps. \<not> is_link m)"
    by auto
  note steps = Cons.IH [OF rest] visit_files [OF 2] visit_directories [OF 1]
  have "set discovered' = set discovered \<union> found_files (step # steps)"
    using steps unfolding files by (simp only: Un_assoc)
  moreover have "errors' = [] \<longleftrightarrow> errors = [] \<and> (\<forall>(p, m) \<in> step_entries (step # steps). \<not> is_link m)"
    using steps unfolding links by (simp only: conj_assoc)
  ultimately show ?case by (rule conjI)
qed

subsection \<open>walk_inventory\<close>

definition directory_at :: "node \<Rightarrow> ustring \<Rightarrow> node \<Rightarrow> bool" where
  "directory_at contract name d \<longleftrightarrow> (\<exists>m es. lstat contract [name] = Inr (Some m) \<and> follow m = Some d \<and> d = Directory es)"

text \<open>Below the directory there is no link, and every file is expected.\<close>

definition tidy :: "node \<Rightarrow> ustring \<Rightarrow> path set \<Rightarrow> bool" where
  "tidy contract name expected \<longleftrightarrow>
     (\<forall>d ps k. directory_at contract name d \<longrightarrow> entry_below d ps k \<longrightarrow>
        \<not> is_link k \<and> (is_dir_node k \<or> Path [] (name # ps) \<in> expected))"

lemma unexpected_Nil: "unexpected_files discovered expected = [] \<longleftrightarrow> set discovered \<subseteq> set expected"
proof -
  have "unexpected_files discovered expected = [] \<longleftrightarrow> set (unexpected_files discovered expected) = {}" by simp
  then show ?thesis by (simp only: unexpected_files_def set_sort set_remdups set_filter) auto
qed

lemma walk_files_found:
  assumes "\<forall>(p, m) \<in> step_entries (walk_entries base n). \<not> is_link m"
  shows "found_files (walk_entries base n) = {Path [] (base @ ps) | ps k. entry_below n ps k \<and> \<not> is_dir_node k}"
proof -
  let ?files = "\<lambda>(base, ds, fs). {Path [] (base @ [name]) | name m. (name, m) \<in> set fs \<and> \<not> is_link m}"
  let ?plain = "\<lambda>(base, ds, fs). {Path [] (base @ [name]) | name m. (name, m) \<in> set ds \<union> set fs \<and> \<not> is_dir_node m}"
  have "?files step = ?plain step" if step: "step \<in> set (walk_entries base n)" for step
  proof -
    obtain b ds fs where s: "step = (b, ds, fs)" by (cases step)
    have "\<not> is_link m" if "(name, m) \<in> set ds \<union> set fs" for name m
      using assms step that unfolding s step_entries_def by fastforce
    moreover have "(\<forall>(name, m) \<in> set ds. is_dir_node m) \<and> (\<forall>(name, m) \<in> set fs. \<not> is_dir_node m)"
      using walk_entries_sorted step unfolding s by blast
    ultimately show ?thesis unfolding s by fastforce
  qed
  then have "found_files (walk_entries base n) = (\<Union>step \<in> set (walk_entries base n). ?plain step)"
    unfolding found_files_def by (rule SUP_cong [OF refl])
  also have "\<dots> = {Path [] p | p m. (p, m) \<in> step_entries (walk_entries base n) \<and> \<not> is_dir_node m}"
    unfolding step_entries_def by fastforce
  finally have "found_files (walk_entries base n) =
      {Path [] p | p m. (p, m) \<in> step_entries (walk_entries base n) \<and> \<not> is_dir_node m}" .
  then show ?thesis by (auto simp: walk_entries_below)
qed

lemma walk_inventory_tidy:
  assumes "walk_inventory label contract name errors = Inr (errors', discovered)"
  shows "errors' = [] \<and> set discovered \<subseteq> expected \<longleftrightarrow> errors = [] \<and> tidy contract name expected"
proof -
  obtain n where n: "lstat contract [name] = Inr n"
    using assms by (auto simp: walk_inventory_def bindR_eq_Inr)
  show ?thesis
  proof (cases "\<exists>d. directory_at contract name d")
    case False
    then have "case n of None \<Rightarrow> True | Some m \<Rightarrow> \<not> is_dir_node m"
      using n by (auto simp: directory_at_def is_dir_node_def split: option.splits node.splits)
    then have "errors' = errors \<and> discovered = []"
      using assms n by (auto simp: walk_inventory_def split: option.splits)
    then show ?thesis using False by (auto simp: tidy_def)
  next
    case True
    then obtain m es where m: "n = Some m" "follow m = Some (Directory es)"
      using n by (auto simp: directory_at_def)
    then have at: "directory_at contract name d \<longleftrightarrow> d = Directory es" for d
      using n by (auto simp: directory_at_def)
    have "fold (visit_step label) (walk_entries [name] (Directory es)) (errors, []) = (errors', discovered)"
      using assms n m by (simp add: walk_inventory_def os_walk_def is_dir_node_def)
    from visit_steps [OF this] have
      disc: "set discovered = found_files (walk_entries [name] (Directory es))" and
      quiet: "errors' = [] \<longleftrightarrow> errors = [] \<and> (\<forall>(p, m) \<in> step_entries (walk_entries [name] (Directory es)). \<not> is_link m)"
      by auto
    have links: "(\<forall>(p, m) \<in> step_entries (walk_entries [name] (Directory es)). \<not> is_link m) \<longleftrightarrow>
        (\<forall>ps k. entry_below (Directory es) ps k \<longrightarrow> \<not> is_link k)"
      unfolding walk_entries_below by auto
    show ?thesis
    proof (cases "\<forall>ps k. entry_below (Directory es) ps k \<longrightarrow> \<not> is_link k")
      case False
      then show ?thesis unfolding quiet links tidy_def at by blast
    next
      case True
      then have "set discovered = {Path [] ([name] @ ps) | ps k. entry_below (Directory es) ps k \<and> \<not> is_dir_node k}"
        unfolding disc by (intro walk_files_found) (use links True in blast)
      then show ?thesis unfolding quiet links tidy_def at using True by simp blast
    qed
  qed
qed

lemma walk_inventory_error:
  "walk_inventory label contract name errors = Inl e \<Longrightarrow> e = OSError \<and> name_too_long name"
  by (auto simp: walk_inventory_def bindR_eq_Inl dest: lstat_error)

end
