(* ===== verification/SchemaInventory.thy ===== *)
theory SchemaInventory
  imports Inventory FingerprintProperties
begin

text \<open>
  What \<open>load_canonical_schemas\<close> accepts: the three schema files stored in the contract, in the closed
  profile, with the frozen rules and the framing fields, alone in their directory, with the shared
  field rules identical. It raises nothing.
\<close>

subsection \<open>Accepted schemas\<close>

definition accepted :: "(nat \<Rightarrow> bool) \<Rightarrow> pyval \<Rightarrow> bool" where
  "accepted pr s \<longleftrightarrow> exact_val s \<and> schema_issues pr s = []"

lemma jmap_str: "jmap kvs k = Some (JStr s) \<longleftrightarrow> dict_get kvs k = Some (VStr s)"
  by (auto simp: jmap_def denote_shapes)

lemma accepted_root:
  assumes "accepted pr s"
  shows "\<exists>kvs i. s = VDict kvs \<and> dict_get kvs (ascii ''$id'') = Some (VStr i) \<and>
    (\<forall>required. get_or_none kvs ''required'' = VList required \<longrightarrow> list_all is_str required)"
proof -
  have p: "schema_profile True 0 (denote s)"
    using assms accepted_profile by (auto simp: accepted_def)
  obtain kvs where s: "s = VDict kvs" using schema_profile_object [OF p] by (auto simp: denote_shapes)
  have "schema_profile True 0 (JObj (jmap kvs))" using p by (simp only: s denote_VDict)
  then have "\<exists>t extra. node_head True t extra (jmap kvs) \<and>
      (''required'' \<in> set extra \<longrightarrow> (\<exists>names. jmap kvs (ascii ''required'') = Some (JArr (map JStr names))))"
    by (cases rule: schema_profile_JObjE) (fastforce intro!: exI)+
  then obtain t extra where
    head: "node_head True t extra (jmap kvs)" and
    req: "''required'' \<in> set extra \<Longrightarrow> \<exists>names. jmap kvs (ascii ''required'') = Some (JArr (map JStr names))"
    by blast
  obtain i where i: "dict_get kvs (ascii ''$id'') = Some (VStr i)"
    using head by (auto simp: node_head_def jmap_str)
  have "list_all is_str required" if "get_or_none kvs ''required'' = VList required" for required
  proof -
    have get: "dict_get kvs (ascii ''required'') = Some (VList required)"
      using that by (auto simp: get_or_none_def split: option.splits)
    then have member: "jmap kvs (ascii ''required'') = Some (JArr (map denote required))" by (simp add: jmap_def)
    then have "ascii ''required'' \<in> ascii ` set (base_keywords True @ extra)"
      using head unfolding node_head_def by blast
    then have "''required'' \<in> set extra" by (auto simp: base_keywords_def)
    then obtain names where "map denote required = map JStr names" using req member by auto
    then have "\<forall>v \<in> set required. \<exists>n. denote v = JStr n"
      by (metis (no_types, lifting) ex_map_conv image_eqI list.set_map)
    then show ?thesis by (auto simp: list_all_iff denote_shapes)
  qed
  with s i show ?thesis by blast
qed

lemma accepted_fingerprint: "accepted pr s \<Longrightarrow> \<exists>h. schema_validation_fingerprint s = Inr h"
  using canonical_text_code by (auto simp: accepted_def schema_validation_fingerprint_def)

subsection \<open>The rules of one canonical schema\<close>

definition fixed_field :: "entries \<Rightarrow> string \<Rightarrow> ustring \<Rightarrow> bool" where
  "fixed_field properties field c \<longleftrightarrow>
     (\<exists>rule. get_or_none properties field = VDict rule \<and> get_or_none rule ''type'' = VStr (ascii ''string'') \<and>
        get_or_none rule ''const'' = VStr c)"

definition frozen_schema :: "path \<times> ustring \<times> ustring \<Rightarrow> pyval \<Rightarrow> bool" where
  "frozen_schema meta s \<longleftrightarrow>
     (case meta of (relative, schema_id, kind) \<Rightarrow>
      \<exists>kvs properties required h. s = VDict kvs \<and> get_or_none kvs ''$id'' = VStr schema_id \<and>
        schema_validation_fingerprint s = Inr h \<and> map_of V1_SCHEMA_VALIDATION_FINGERPRINTS relative = Some h \<and>
        get_or_none kvs ''type'' = VStr (ascii ''object'') \<and>
        get_or_none kvs ''properties'' = VDict properties \<and>
        set (dict_keys properties) = set (CANONICAL_ROOT_FIELDS relative) \<and>
        get_or_none kvs ''required'' = VList required \<and>
        set required = VStr ` set (CANONICAL_REQUIRED_FIELDS relative) \<and>
        fixed_field properties ''version'' (ascii ''v1'') \<and> fixed_field properties ''kind'' kind)"

lemma framing_required: "ascii ''version'' \<in> set (CANONICAL_REQUIRED_FIELDS relative)"
  "ascii ''kind'' \<in> set (CANONICAL_REQUIRED_FIELDS relative)"
  by (simp_all add: CANONICAL_REQUIRED_FIELDS_def)

lemma check_field_rule_Nil:
  "check_field_rule pr relative required properties (field, c) errors = [] \<longleftrightarrow>
     errors = [] \<and> VStr (ascii field) \<in> set required \<and> fixed_field properties field c"
  by (auto simp: check_field_rule_def fixed_field_def split: pyval.splits)

lemma get_or_none_get: "get_or_none kvs k \<noteq> VNone \<Longrightarrow> dict_get kvs (ascii k) = Some (get_or_none kvs k)"
  by (auto simp: get_or_none_def split: option.splits)

lemma check_canonical_schema_frozen:
  assumes "accepted pr (VDict kvs)"
  shows "\<exists>errors'. check_canonical_schema pr (relative, kvs, schema_id, kind) errors = Inr errors' \<and>
    (errors' = [] \<longleftrightarrow> errors = [] \<and> frozen_schema (relative, schema_id, kind) (VDict kvs))"
proof -
  obtain i h where i: "dict_get kvs (ascii ''$id'') = Some (VStr i)"
    and str: "\<And>required. get_or_none kvs ''required'' = VList required \<Longrightarrow> list_all is_str required"
    and h: "schema_validation_fingerprint (VDict kvs) = Inr h"
    using accepted_root [OF assms] accepted_fingerprint [OF assms] by auto
  have id: "get_or_none kvs ''$id'' = VStr i" using i by (simp add: get_or_none_def)
  have hash: "list_all hashable required" if "get_or_none kvs ''required'' = VList required" for required
    using str [OF that] by (auto simp: list_all_iff hashable_def elim!: is_str.elims)
  show ?thesis
  proof (cases "\<exists>required properties. get_or_none kvs ''required'' = VList required \<and>
      get_or_none kvs ''properties'' = VDict properties \<and> get_or_none kvs ''type'' = VStr (ascii ''object'')")
    case False
    then have "\<not> frozen_schema (relative, schema_id, kind) (VDict kvs)" by (auto simp: frozen_schema_def)
    moreover have "\<exists>errors'. check_canonical_schema pr (relative, kvs, schema_id, kind) errors = Inr errors' \<and> errors' \<noteq> []"
      using False i h by (auto simp: check_canonical_schema_def Let_def split: pyval.splits)
    ultimately show ?thesis by blast
  next
    case True
    then obtain required properties where
      rp: "get_or_none kvs ''required'' = VList required" "get_or_none kvs ''properties'' = VDict properties"
        "get_or_none kvs ''type'' = VStr (ascii ''object'')" by blast
    show ?thesis
      using hash [OF rp(1)] framing_required [of relative]
      by (auto simp: check_canonical_schema_def i h id rp Let_def check_field_rule_Nil frozen_schema_def)
  qed
qed

text \<open>A loop of checks that never raise is silent when each of them is.\<close>

lemma foldR_silent:
  assumes "\<And>x errors. x \<in> set xs \<Longrightarrow> \<exists>errors'. f x errors = Inr errors' \<and> (errors' = [] \<longleftrightarrow> errors = [] \<and> P x)"
  shows "\<exists>errors'. foldR f xs errors = Inr errors' \<and> (errors' = [] \<longleftrightarrow> errors = [] \<and> (\<forall>x \<in> set xs. P x))"
  using assms
proof (induction xs arbitrary: errors)
  case (Cons x xs)
  obtain errors1 where e1: "f x errors = Inr errors1" "errors1 = [] \<longleftrightarrow> errors = [] \<and> P x"
    using Cons.prems [of x errors] by auto
  obtain errors2 where e2: "foldR f xs errors1 = Inr errors2" "errors2 = [] \<longleftrightarrow> errors1 = [] \<and> (\<forall>x \<in> set xs. P x)"
    using Cons.IH [of errors1] Cons.prems by auto
  show ?case using e1 e2 by auto
qed simp

subsection \<open>check_canonical_schema_invariants\<close>

definition holds_accepted :: "(nat \<Rightarrow> bool) \<Rightarrow> schema_map \<Rightarrow> bool" where
  "holds_accepted pr schemas \<longleftrightarrow> (\<forall>r s. (r, Some s) \<in> set schemas \<longrightarrow> accepted pr s)"

lemma schema_entries_accepted:
  "holds_accepted pr schemas \<Longrightarrow> schema_entries schemas r = Some kvs \<Longrightarrow> accepted pr (VDict kvs)"
  by (auto simp: holds_accepted_def schema_entries_def schema_at_def split: option.splits pyval.splits
      dest!: map_of_SomeD)

definition all_frozen :: "schema_map \<Rightarrow> bool" where
  "all_frozen schemas \<longleftrightarrow> (\<forall>meta \<in> set CANONICAL_SCHEMA_METADATA.
     \<exists>s. schema_at schemas (fst meta) = Some s \<and> frozen_schema meta s)"

lemma inventory_matches:
  "set (map fst V1_SCHEMA_VALIDATION_FINGERPRINTS) = set (map fst CANONICAL_SCHEMA_METADATA)"
  by (simp add: V1_SCHEMA_VALIDATION_FINGERPRINTS_def CANONICAL_SCHEMA_METADATA_def)

lemma canonical_ids_distinct: "distinct (map (\<lambda>(relative, schema_id, kind). schema_id) CANONICAL_SCHEMA_METADATA)"
  by (simp add: CANONICAL_SCHEMA_METADATA_def)

lemma no_duplicate_strings: "distinct ids \<Longrightarrow> \<not> has_duplicate (map VStr ids)"
  by (induction ids) (auto simp: list_ex_iff same_element_def num_values_eq_def)

text \<open>All three schemas are loaded; the \<open>$id\<close> of each.\<close>

definition all_loaded :: "schema_map \<Rightarrow> bool" where
  "all_loaded schemas \<longleftrightarrow> (\<forall>meta \<in> set CANONICAL_SCHEMA_METADATA. schema_entries schemas (fst meta) \<noteq> None)"

definition loaded_entries :: "schema_map \<Rightarrow> path \<times> ustring \<times> ustring \<Rightarrow> entries" where
  "loaded_entries schemas meta = the (schema_entries schemas (fst meta))"

definition loaded_id :: "schema_map \<Rightarrow> path \<times> ustring \<times> ustring \<Rightarrow> ustring" where
  "loaded_id schemas meta = str_of (get_or_none (loaded_entries schemas meta) ''$id'')"

lemma all_loaded_iff:
  assumes "holds_accepted pr schemas"
  shows "all_loaded schemas \<longleftrightarrow> (\<forall>r \<in> set CANONICAL_SCHEMAS. schema_at schemas r \<noteq> None)"
proof -
  have "schema_entries schemas r \<noteq> None" if "schema_at schemas r = Some s" for r s
  proof -
    have "accepted pr s"
      using assms that by (auto simp: holds_accepted_def schema_at_def split: option.splits dest!: map_of_SomeD)
    then obtain kvs where "s = VDict kvs" using accepted_root by blast
    then show ?thesis using that by (simp add: schema_entries_def)
  qed
  moreover have "schema_at schemas r = None \<Longrightarrow> schema_entries schemas r = None" for r
    by (simp add: schema_entries_def)
  ultimately have "schema_entries schemas r \<noteq> None \<longleftrightarrow> schema_at schemas r \<noteq> None" for r
    by (cases "schema_at schemas r") auto
  then show ?thesis unfolding all_loaded_def CANONICAL_SCHEMAS_def by (simp only: set_map ball_simps)
qed

lemma loaded_facts:
  assumes "holds_accepted pr schemas" and "all_loaded schemas" and "meta \<in> set CANONICAL_SCHEMA_METADATA"
  shows "accepted pr (VDict (loaded_entries schemas meta))"
    and "schema_at schemas (fst meta) = Some (VDict (loaded_entries schemas meta))"
    and "dict_get (loaded_entries schemas meta) (ascii ''$id'') = Some (VStr (loaded_id schemas meta))"
proof -
  obtain kvs where kvs: "schema_entries schemas (fst meta) = Some kvs"
    using assms(2,3) by (auto simp: all_loaded_def)
  then show acc: "accepted pr (VDict (loaded_entries schemas meta))"
    using schema_entries_accepted [OF assms(1) kvs] by (simp add: loaded_entries_def)
  show "schema_at schemas (fst meta) = Some (VDict (loaded_entries schemas meta))"
    using kvs by (auto simp: loaded_entries_def schema_entries_def split: option.splits pyval.splits)
  show "dict_get (loaded_entries schemas meta) (ascii ''$id'') = Some (VStr (loaded_id schemas meta))"
  proof -
    obtain i where "dict_get (loaded_entries schemas meta) (ascii ''$id'') = Some (VStr i)"
      using accepted_root [OF acc] by auto
    then show ?thesis by (simp add: loaded_id_def get_or_none_def)
  qed
qed

lemma frozen_ids_distinct:
  assumes "holds_accepted pr schemas" and "all_loaded schemas" and "all_frozen schemas"
  shows "\<not> has_duplicate (map VStr (map (loaded_id schemas) CANONICAL_SCHEMA_METADATA))"
proof -
  have "loaded_id schemas meta = fst (snd meta)" if "meta \<in> set CANONICAL_SCHEMA_METADATA" for meta
  proof -
    have "frozen_schema meta (VDict (loaded_entries schemas meta))"
      using assms(3) that loaded_facts(2) [OF assms(1,2) that] by (auto simp: all_frozen_def)
    then show ?thesis by (auto simp: loaded_id_def frozen_schema_def)
  qed
  then have "map (loaded_id schemas) CANONICAL_SCHEMA_METADATA =
      map (\<lambda>(relative, schema_id, kind). schema_id) CANONICAL_SCHEMA_METADATA"
    by (intro map_cong) (auto simp: case_prod_beta)
  then show ?thesis using no_duplicate_strings [OF canonical_ids_distinct] by (simp only: not_False_eq_True)
qed

lemma check_invariants_loaded:
  assumes "holds_accepted pr schemas" and "all_loaded schemas"
  shows "\<exists>errors'. check_canonical_schema_invariants pr schemas errors = Inr errors' \<and>
    (errors' = [] \<longleftrightarrow> errors = [] \<and> all_frozen schemas)"
proof -
  let ?item = "\<lambda>meta. (fst meta, loaded_entries schemas meta, snd meta)"
  let ?items = "map ?item CANONICAL_SCHEMA_METADATA"
  let ?ids = "map VStr (map (loaded_id schemas) CANONICAL_SCHEMA_METADATA)"
  let ?errors = "report_if (has_duplicate ?ids)
      (ascii ''contract schemas: canonical $id values must be unique'') errors"
  note facts = loaded_facts [OF assms]
  have items: "map (\<lambda>(relative, expected_id, expected_kind).
      (relative, the (schema_entries schemas relative), expected_id, expected_kind)) CANONICAL_SCHEMA_METADATA = ?items"
    by (simp add: case_prod_beta loaded_entries_def)
  have ids: "mapR (\<lambda>(relative, schema, _). case dict_get schema (ascii ''$id'') of
      None \<Rightarrow> Inl KeyError | Some v \<Rightarrow> Inr v) ?items = Inr ?ids"
    unfolding map_map mapR_eq_Inr list_all2_map1 list_all2_map2
    by (rule list.rel_refl_strong) (simp add: facts(3))
  have "\<exists>errors'. foldR (check_canonical_schema pr) ?items ?errors = Inr errors' \<and>
      (errors' = [] \<longleftrightarrow> ?errors = [] \<and>
        (\<forall>item \<in> set ?items. frozen_schema (fst item, snd (snd item)) (VDict (fst (snd item)))))"
    by (rule foldR_silent) (use facts(1) check_canonical_schema_frozen in fastforce)
  moreover have "(\<forall>item \<in> set ?items. frozen_schema (fst item, snd (snd item)) (VDict (fst (snd item)))) \<longleftrightarrow>
      all_frozen schemas"
    using facts(2) by (simp add: all_frozen_def)
  moreover have "check_canonical_schema_invariants pr schemas errors = foldR (check_canonical_schema pr) ?items ?errors"
    unfolding check_canonical_schema_invariants_def items ids Let_def
    using assms(2) inventory_matches by (simp add: all_loaded_def list_all_iff case_prod_beta hashable_def report_if_def)
  ultimately show ?thesis using frozen_ids_distinct [OF assms] by auto
qed

lemma check_invariants_missing:
  "\<not> all_loaded schemas \<Longrightarrow> check_canonical_schema_invariants pr schemas errors = Inr errors"
  using inventory_matches
  by (auto simp: check_canonical_schema_invariants_def report_if_def all_loaded_def list_all_iff)

subsection \<open>check_schema_parity\<close>

text \<open>Shared rules have one JSON value (a missing rule reads as null).\<close>

definition shared :: "pyval list \<Rightarrow> bool" where
  "shared rules \<longleftrightarrow> (\<exists>j. \<forall>v \<in> set rules. denote v = j)"

definition shared_rules :: "pyval \<Rightarrow> pyval \<Rightarrow> pyval \<Rightarrow> bool" where
  "shared_rules request success failure \<longleftrightarrow>
     shared (map (\<lambda>s. nested s [''properties'', ''request_id'']) [request, success, failure]) \<and>
     shared [nested request [''properties'', ''request_id''], nested request [''properties'', ''model_alias'']] \<and>
     shared [nested success [''properties'', ''usage''], nested failure [''properties'', ''usage'']] \<and>
     shared [nested request [''properties'', ''instructions'', ''items'', ''properties'', ''source'', ''pattern''],
       nested failure [''properties'', ''error'', ''properties'', ''message'', ''pattern'']]"

lemma exact_get_or_none: "exact_val (VDict kvs) \<Longrightarrow> exact_val (get_or_none kvs k)"
  using exact_get by (auto simp: get_or_none_def simp del: exact_val.simps(5) split: option.split)

lemma exact_nested: "exact_val v \<Longrightarrow> exact_val (nested v keys)"
  by (induction v keys rule: nested.induct) (auto simp: exact_get_or_none simp del: exact_val.simps(5))

lemma require_equal_Nil:
  assumes "list_all exact_val rules" and "rules \<noteq> []"
  shows "require_equal label rules errors = [] \<longleftrightarrow> errors = [] \<and> shared rules"
proof -
  have eq: "json_equal v w \<longleftrightarrow> denote v = denote w" if "v \<in> set rules" "w \<in> set rules" for v w
    using that assms(1) exact_proper json_equal_iff_denote by (auto simp: list_all_iff proper_def)
  have null: "v = VNone \<longleftrightarrow> denote v = JNull" for v using denote_shapes(1) by blast
  obtain v vs where vs: "rules = v # vs" using assms(2) by (cases rules) auto
  have "list_all (json_equal v) vs \<longleftrightarrow> (\<forall>w \<in> set vs. denote w = denote v)"
    using eq by (auto simp: vs list_all_iff)
  moreover have "shared rules \<longleftrightarrow> (\<forall>w \<in> set vs. denote w = denote v)"
    by (auto simp: shared_def vs)
  ultimately show ?thesis
    unfolding require_equal_def null by (auto simp: vs list_all_iff list_ex_iff)
qed

lemma check_schema_parity_shared:
  assumes "schema_at schemas REQUEST_SCHEMA = Some (VDict req)"
    and "schema_at schemas SUCCESS_SCHEMA = Some (VDict suc)"
    and "schema_at schemas FAILURE_SCHEMA = Some (VDict fai)"
    and "exact_val (VDict req)" "exact_val (VDict suc)" "exact_val (VDict fai)"
  shows "check_schema_parity schemas errors = [] \<longleftrightarrow>
    errors = [] \<and> shared_rules (VDict req) (VDict suc) (VDict fai)"
  using assms(4-6)
  unfolding check_schema_parity_def shared_rules_def schema_entries_def assms(1-3) Let_def
  by (simp add: require_equal_Nil exact_nested del: exact_val.simps(5) nested.simps)

lemma require_equal_keeps: "require_equal label rules errors = [] \<Longrightarrow> errors = []"
  by (simp add: require_equal_def split: if_splits)

lemma check_schema_parity_keeps: "check_schema_parity schemas errors = [] \<Longrightarrow> errors = []"
  unfolding check_schema_parity_def Let_def perform_simps
  by (auto simp del: nested.simps list.map dest!: require_equal_keeps split: option.splits)

subsection \<open>load_canonical_schemas\<close>

definition stored_schema :: "interpreter \<Rightarrow> (nat \<Rightarrow> bool) \<Rightarrow> node \<Rightarrow> path \<Rightarrow> pyval \<Rightarrow> bool" where
  "stored_schema I pr contract relative s \<longleftrightarrow>
     (\<exists>c. stored_file contract (path_parts relative) c \<and> strict_json I c = Inr s) \<and> schema_issues pr s = []"

definition schema_folder :: path where
  "schema_folder = relative_path [''schema'']"

lemma canonical_paths:
  "CANONICAL_SCHEMAS = map (\<lambda>f. relative_path [''schema'', f])
     [''request.schema.json'', ''success.schema.json'', ''failure.schema.json'']"
  "distinct CANONICAL_SCHEMAS"
  by (simp_all add: CANONICAL_SCHEMAS_def CANONICAL_SCHEMA_METADATA_def REQUEST_SCHEMA_def SUCCESS_SCHEMA_def
      FAILURE_SCHEMA_def relative_path_def)

lemma ascii_file_name:
  assumes "length f < 256" and "list_all (\<lambda>c. 0 < (of_char c :: nat) \<and> (of_char c :: nat) < 128) f"
  shows "file_name (ascii f)"
proof -
  have "length (utf8_encode (ascii f)) = length f"
    using assms(2) by (induction f) (simp_all add: ascii_def utf8_encode_def utf8_char_def)
  moreover have "0 \<notin> set (ascii f)" using assms(2) by (auto simp: ascii_def list_all_iff)
  ultimately show ?thesis using assms(1) by (simp add: file_name_def name_too_long_def)
qed

lemma canonical_path_facts:
  assumes "relative \<in> set CANONICAL_SCHEMAS"
  shows "normal_path (as_posix relative) relative" and "list_all file_name (path_parts relative)"
    and "is_under schema_folder relative" and "length (as_posix relative) \<le> MAX_PATH_LENGTH"
    and "as_posix relative \<noteq> []"
proof -
  have "\<exists>f \<in> {''request.schema.json'', ''success.schema.json'', ''failure.schema.json''}. relative = relative_path [''schema'', f]"
    using assms by (auto simp: canonical_paths(1))
  then obtain f where f: "f \<in> {''request.schema.json'', ''success.schema.json'', ''failure.schema.json''}"
    and r: "relative = relative_path [''schema'', f]" by (rule bexE)
  have "f \<noteq> [] \<and> 47 \<notin> set (ascii f) \<and> ascii f \<noteq> ascii ''.'' \<and> ascii f \<noteq> ascii ''..'' \<and> length f = 19"
    using f by (auto simp: ascii_def)
  then show "normal_path (as_posix relative) relative" "length (as_posix relative) \<le> MAX_PATH_LENGTH"
    "as_posix relative \<noteq> []"
    by (auto simp: normal_path_def as_posix_def r relative_path_def MAX_PATH_LENGTH_def)
      (simp_all add: ascii_def)
  have "list_all (\<lambda>c. 0 < (of_char c :: nat) \<and> (of_char c :: nat) < 128) f \<and> length f < 256"
    using f by auto
  then have "file_name (ascii f)" by (intro ascii_file_name) auto
  moreover have "file_name (ascii ''schema'')" by (rule ascii_file_name) simp_all
  ultimately show "list_all file_name (path_parts relative)" by (simp add: r relative_path_def)
  show "is_under schema_folder relative" by (simp add: schema_folder_def is_under_def r relative_path_def)
qed

lemma canonical_safe_file:
  assumes "relative \<in> set CANONICAL_SCHEMAS"
  shows "\<exists>found. safe_file contract (VStr (as_posix relative)) schema_folder = Inr found \<and>
    (\<forall>p. found = Inr p \<longleftrightarrow> p = relative \<and> (\<exists>c. stored_file contract (path_parts relative) c))"
proof -
  note facts = canonical_path_facts [OF assms]
  have "parse_path (as_posix relative) = relative" using normal_path_parse [OF facts(1)] .
  then have "safe_file contract (VStr (as_posix relative)) schema_folder \<noteq> Inl e" for e
    using safe_file_raises [of contract "VStr (as_posix relative)" schema_folder e] facts(2)
    by (auto simp: list_all_iff list_ex_iff file_name_def)
  then obtain found where "safe_file contract (VStr (as_posix relative)) schema_folder = Inr found"
    by (cases "safe_file contract (VStr (as_posix relative)) schema_folder") auto
  moreover have "safe_file contract (VStr (as_posix relative)) schema_folder = Inr (Inr p) \<longleftrightarrow>
      p = relative \<and> (\<exists>c. stored_file contract (path_parts relative) c)" for p
  proof -
    have "normal_path (as_posix relative) p \<longleftrightarrow> p = relative"
      using facts(1) normal_path_parse by metis
    then show ?thesis using facts by (auto simp: safe_file_admitted admitted_def)
  qed
  ultimately show ?thesis by simp
qed

lemma stored_file_unique: "stored_file contract ps c \<Longrightarrow> stored_file contract ps c' \<Longrightarrow> c' = c"
  by (auto simp: stored_file_def)

lemma json_message_error: "strict_json I file = Inl e \<Longrightarrow> \<exists>m. json_message e = Some m"
  using strict_json_error by (fastforce simp: json_exception_def)

text \<open>One step of the loop over the schemas.\<close>

lemma load_schema_step:
  assumes "relative \<in> set CANONICAL_SCHEMAS" and "holds_accepted pr schemas"
  shows "\<exists>errors' more. load_schema I pr contract relative (errors, schemas) = Inr (errors', schemas @ more) \<and>
    holds_accepted pr more \<and> (errors' = [] \<longleftrightarrow> errors = [] \<and> (\<exists>s. stored_schema I pr contract relative s)) \<and>
    (\<forall>s. stored_schema I pr contract relative s \<longrightarrow> more = [(relative, Some s)])"
proof -
  obtain found where found: "safe_file contract (VStr (as_posix relative)) schema_folder = Inr found"
    "\<And>p. found = Inr p \<longleftrightarrow> p = relative \<and> (\<exists>c. stored_file contract (path_parts relative) c)"
    using canonical_safe_file [OF assms(1)] by blast
  note run = load_schema_def found(1) [unfolded schema_folder_def]
  show ?thesis
  proof (cases "\<exists>c. stored_file contract (path_parts relative) c")
    case False
    then obtain m where "found = Inl m" using found(2) by (cases found) auto
    then show ?thesis using False by (simp add: run stored_schema_def holds_accepted_def)
  next
    case True
    then obtain c where c: "stored_file contract (path_parts relative) c" by blast
    have there: "found = Inr relative" using found(2) True by blast
    have iff: "stored_schema I pr contract relative s \<longleftrightarrow> strict_json I c = Inr s \<and> schema_issues pr s = []" for s
      unfolding stored_schema_def using c stored_file_unique [OF c] by blast
    have contents: "file_contents contract (path_parts relative) = c"
      using stored_file_contents(2) [OF c] canonical_path_facts(2) [OF assms(1)] .
    show ?thesis
    proof (cases "strict_json I c")
      case (Inl e)
      then show ?thesis using json_message_error [OF Inl]
        by (auto simp: run there contents iff holds_accepted_def)
    next
      case (Inr s)
      then have "stored_schema I pr contract relative s' \<longleftrightarrow> s' = s \<and> schema_issues pr s = []" for s'
        by (auto simp: iff)
      moreover have "load_schema I pr contract relative (errors, schemas) =
          Inr (errors @ map (\<lambda>issue. ascii ''schema '' @ as_posix relative @ ascii '' '' @ issue) (schema_issues pr s),
            schemas @ [(relative, if schema_issues pr s = [] then Some s else None)])"
        by (simp add: run there contents Inr Let_def)
      moreover have "holds_accepted pr [(relative, if schema_issues pr s = [] then Some s else None)]"
        using strict_json_exact(1) [OF Inr] by (auto simp: holds_accepted_def accepted_def)
      ultimately show ?thesis
        by (intro exI [of _ "errors @ map (\<lambda>issue. ascii ''schema '' @ as_posix relative @ ascii '' '' @ issue) (schema_issues pr s)"]
            exI [of _ "[(relative, if schema_issues pr s = [] then Some s else None)]"]) simp
    qed
  qed
qed


lemma load_schemas_run:
  assumes "set rs \<subseteq> set CANONICAL_SCHEMAS" and "holds_accepted pr schemas"
  shows "\<exists>errors' more. foldR (load_schema I pr contract) rs (errors, schemas) = Inr (errors', schemas @ more) \<and>
    holds_accepted pr more \<and> (errors' = [] \<longleftrightarrow> errors = [] \<and> (\<forall>r \<in> set rs. \<exists>s. stored_schema I pr contract r s)) \<and>
    (\<forall>f. (\<forall>r \<in> set rs. stored_schema I pr contract r (f r)) \<longrightarrow> more = map (\<lambda>r. (r, Some (f r))) rs)"
  using assms
proof (induction rs arbitrary: errors schemas)
  case Nil
  then show ?case by (simp add: holds_accepted_def)
next
  case (Cons r rs)
  have r: "r \<in> set CANONICAL_SCHEMAS" and rs: "set rs \<subseteq> set CANONICAL_SCHEMAS" using Cons.prems by simp_all
  obtain errors1 more1 where step: "load_schema I pr contract r (errors, schemas) = Inr (errors1, schemas @ more1)"
    "holds_accepted pr more1" "errors1 = [] \<longleftrightarrow> errors = [] \<and> (\<exists>s. stored_schema I pr contract r s)"
    "\<And>s. stored_schema I pr contract r s \<Longrightarrow> more1 = [(r, Some s)]"
    using load_schema_step [OF r Cons.prems(2), of I contract errors] by blast
  have acc: "holds_accepted pr (schemas @ more1)" using Cons.prems(2) step(2) by (auto simp: holds_accepted_def)
  obtain errors2 more2 where rest:
    "foldR (load_schema I pr contract) rs (errors1, schemas @ more1) = Inr (errors2, (schemas @ more1) @ more2)"
    "holds_accepted pr more2" "errors2 = [] \<longleftrightarrow> errors1 = [] \<and> (\<forall>r \<in> set rs. \<exists>s. stored_schema I pr contract r s)"
    "\<And>f. \<forall>r \<in> set rs. stored_schema I pr contract r (f r) \<Longrightarrow> more2 = map (\<lambda>r. (r, Some (f r))) rs"
    using Cons.IH [OF rs acc, of errors1] by blast
  show ?case
  proof (intro exI conjI allI impI)
    show "foldR (load_schema I pr contract) (r # rs) (errors, schemas) = Inr (errors2, schemas @ more1 @ more2)"
      using step(1) rest(1) by simp
    show "holds_accepted pr (more1 @ more2)" using step(2) rest(2) by (auto simp: holds_accepted_def)
    show "errors2 = [] \<longleftrightarrow> errors = [] \<and> (\<forall>r \<in> set (r # rs). \<exists>s. stored_schema I pr contract r s)"
      using step(3) rest(3) by simp
    show "more1 @ more2 = map (\<lambda>r. (r, Some (f r))) (r # rs)"
      if "\<forall>r \<in> set (r # rs). stored_schema I pr contract r (f r)" for f
      using that step(4) rest(4) [of f] by simp
  qed
qed

text \<open>The inventory that the checker accepts, with the three documents.\<close>

definition canonical_set ::
  "interpreter \<Rightarrow> (nat \<Rightarrow> bool) \<Rightarrow> node \<Rightarrow> (path \<Rightarrow> pyval) \<Rightarrow> bool" where
  "canonical_set I pr contract schema \<longleftrightarrow>
     (\<forall>relative \<in> set CANONICAL_SCHEMAS. stored_schema I pr contract relative (schema relative)) \<and>
     tidy contract (ascii ''schema'') (set CANONICAL_SCHEMAS) \<and>
     (\<forall>meta \<in> set CANONICAL_SCHEMA_METADATA. frozen_schema meta (schema (fst meta))) \<and>
     shared_rules (schema REQUEST_SCHEMA) (schema SUCCESS_SCHEMA) (schema FAILURE_SCHEMA)"

lemma folder_name: "\<not> name_too_long (ascii ''schema'')" "\<not> name_too_long (ascii ''fixtures'')"
  using ascii_file_name [of "''schema''"] ascii_file_name [of "''fixtures''"] by (simp_all add: file_name_def)

lemma walk_inventory_total:
  assumes "\<not> name_too_long name"
  shows "\<exists>errors' discovered. walk_inventory label contract name errors = Inr (errors', discovered)"
  using assms walk_inventory_error by (cases "walk_inventory label contract name errors") auto

lemma schema_at_map:
  "distinct rs \<Longrightarrow> schema_at (map (\<lambda>r. (r, Some (f r))) rs) r = (if r \<in> set rs then Some (f r) else None)"
  by (induction rs) (auto simp: schema_at_def)

lemma check_invariants_total:
  assumes "holds_accepted pr schemas"
  shows "\<exists>errors'. check_canonical_schema_invariants pr schemas errors = Inr errors' \<and>
    (errors' = [] \<longleftrightarrow> errors = [] \<and> (all_loaded schemas \<longrightarrow> all_frozen schemas))"
proof (cases "all_loaded schemas")
  case True
  then show ?thesis using check_invariants_loaded [OF assms True, of errors] by simp
next
  case False
  then show ?thesis using check_invariants_missing [OF False, of pr errors] by simp
qed


text \<open>With all three schemas stored, the later checks decide the rest.\<close>

lemma canonical_members: "REQUEST_SCHEMA \<in> set CANONICAL_SCHEMAS" "SUCCESS_SCHEMA \<in> set CANONICAL_SCHEMAS"
  "FAILURE_SCHEMA \<in> set CANONICAL_SCHEMAS"
  by (simp_all add: CANONICAL_SCHEMAS_def CANONICAL_SCHEMA_METADATA_def)

lemma stored_accepted: "stored_schema I pr contract r s \<Longrightarrow> accepted pr s"
  using strict_json_exact(1) by (auto simp: stored_schema_def accepted_def)

lemma loaded_set_checks:
  assumes "\<forall>r \<in> set CANONICAL_SCHEMAS. stored_schema I pr contract r (f r)"
    and "schemas = map (\<lambda>r. (r, Some (f r))) CANONICAL_SCHEMAS"
  shows "all_loaded schemas"
    and "all_frozen schemas \<longleftrightarrow> (\<forall>meta \<in> set CANONICAL_SCHEMA_METADATA. frozen_schema meta (f (fst meta)))"
    and "check_schema_parity schemas errors = [] \<longleftrightarrow>
      errors = [] \<and> shared_rules (f REQUEST_SCHEMA) (f SUCCESS_SCHEMA) (f FAILURE_SCHEMA)"
proof -
  have at: "schema_at schemas r = Some (f r)" if "r \<in> set CANONICAL_SCHEMAS" for r
    using that schema_at_map [OF canonical_paths(2)] by (simp add: assms(2))
  have "holds_accepted pr schemas"
    using assms(1) stored_accepted by (auto simp: holds_accepted_def assms(2))
  then show "all_loaded schemas" using at by (simp add: all_loaded_iff)
  have member: "fst meta \<in> set CANONICAL_SCHEMAS" if "meta \<in> set CANONICAL_SCHEMA_METADATA" for meta
    using that by (simp add: CANONICAL_SCHEMAS_def)
  show "all_frozen schemas \<longleftrightarrow> (\<forall>meta \<in> set CANONICAL_SCHEMA_METADATA. frozen_schema meta (f (fst meta)))"
    unfolding all_frozen_def using at member by simp
  have dict: "\<exists>kvs. f r = VDict kvs \<and> exact_val (VDict kvs)" if "r \<in> set CANONICAL_SCHEMAS" for r
  proof -
    have "accepted pr (f r)" using assms(1) stored_accepted that by blast
    then show ?thesis using accepted_root [of pr "f r"] by (auto simp: accepted_def simp del: exact_val.simps)
  qed
  obtain req suc fai where docs: "f REQUEST_SCHEMA = VDict req" "f SUCCESS_SCHEMA = VDict suc" "f FAILURE_SCHEMA = VDict fai"
    and exact: "exact_val (VDict req)" "exact_val (VDict suc)" "exact_val (VDict fai)"
    using dict [OF canonical_members(1)] dict [OF canonical_members(2)] dict [OF canonical_members(3)] by blast
  show "check_schema_parity schemas errors = [] \<longleftrightarrow>
      errors = [] \<and> shared_rules (f REQUEST_SCHEMA) (f SUCCESS_SCHEMA) (f FAILURE_SCHEMA)"
    unfolding docs by (rule check_schema_parity_shared) (use at canonical_members docs exact in simp_all)
qed

lemma canonical_set_unique:
  assumes "canonical_set I pr contract f" and "canonical_set I pr contract g" and "r \<in> set CANONICAL_SCHEMAS"
  shows "f r = g r"
  using assms stored_file_unique unfolding canonical_set_def stored_schema_def by (metis sum.inject(2))

lemma load_canonical_exact:
  "\<exists>errors' schemas. load_canonical_schemas I pr contract errors = Inr (errors', schemas) \<and>
     holds_accepted pr schemas \<and> (errors' = [] \<longleftrightarrow> errors = [] \<and> (\<exists>f. canonical_set I pr contract f)) \<and>
     (\<forall>f. canonical_set I pr contract f \<longrightarrow> schemas = map (\<lambda>r. (r, Some (f r))) CANONICAL_SCHEMAS)"
proof -
  obtain e1 schemas where load: "foldR (load_schema I pr contract) CANONICAL_SCHEMAS (errors, []) = Inr (e1, schemas)"
    and acc: "holds_accepted pr schemas"
    and stored: "e1 = [] \<longleftrightarrow> errors = [] \<and> (\<forall>r \<in> set CANONICAL_SCHEMAS. \<exists>s. stored_schema I pr contract r s)"
    and docs: "\<And>f. \<forall>r \<in> set CANONICAL_SCHEMAS. stored_schema I pr contract r (f r) \<Longrightarrow>
      schemas = map (\<lambda>r. (r, Some (f r))) CANONICAL_SCHEMAS"
  proof -
    have "holds_accepted pr []" by (simp add: holds_accepted_def)
    note load_schemas_run [OF subset_refl this, of I contract errors, unfolded append_Nil]
    then show thesis using that by blast
  qed
  obtain e2 discovered where walk:
    "walk_inventory (ascii ''contract schemas'') contract (ascii ''schema'') e1 = Inr (e2, discovered)"
    using walk_inventory_total [OF folder_name(1)] by blast
  define e3 where "e3 = e2 @ map (\<lambda>p. ascii ''contract schemas: unexpected file '' @ py_repr pr (as_posix p))
           (unexpected_files discovered CANONICAL_SCHEMAS)"
  have tidy: "e3 = [] \<longleftrightarrow> e1 = [] \<and> tidy contract (ascii ''schema'') (set CANONICAL_SCHEMAS)"
    using walk_inventory_tidy [OF walk, of "set CANONICAL_SCHEMAS"] by (simp add: e3_def unexpected_Nil)
  obtain e4 where inv: "check_canonical_schema_invariants pr schemas e3 = Inr e4"
    and frozen: "e4 = [] \<longleftrightarrow> e3 = [] \<and> (all_loaded schemas \<longrightarrow> all_frozen schemas)"
    using check_invariants_total [OF acc, of e3] by blast
  have run: "load_canonical_schemas I pr contract errors = Inr (check_schema_parity schemas e4, schemas)"
    by (simp add: load_canonical_schemas_def load walk e3_def [symmetric] inv)
  have "check_schema_parity schemas e4 = [] \<longleftrightarrow> errors = [] \<and> canonical_set I pr contract f"
    if f: "\<forall>r \<in> set CANONICAL_SCHEMAS. stored_schema I pr contract r (f r)" for f
    using loaded_set_checks [OF f docs [OF f]] stored tidy frozen f
    unfolding canonical_set_def by blast
  moreover have "\<not> (check_schema_parity schemas e4 = [])"
    if "\<not> (\<exists>f. \<forall>r \<in> set CANONICAL_SCHEMAS. stored_schema I pr contract r (f r))"
    using that check_schema_parity_keeps [of schemas e4] stored tidy frozen by (metis bchoice)
  ultimately have "check_schema_parity schemas e4 = [] \<longleftrightarrow> errors = [] \<and> (\<exists>f. canonical_set I pr contract f)"
    unfolding canonical_set_def by blast
  moreover have "schemas = map (\<lambda>r. (r, Some (f r))) CANONICAL_SCHEMAS" if "canonical_set I pr contract f" for f
    using that docs unfolding canonical_set_def by blast
  ultimately show ?thesis using run acc by blast
qed

end
