(* ===== verification/ContractCheck.thy ===== *)
theory ContractCheck
  imports ContractFiles InstanceValidation
begin

text \<open>
  \<open>check_contract\<close> and \<open>main\<close> of \<open>scripts/check_contract.py\<close>: the manifest of cases, each case with its
  schema and fixture, the inventory of the fixtures, the coverage of the schemas, the bounded output
  and the exit status.
\<close>

subsection \<open>One case\<close>

text \<open>The variables the loop over the cases changes. \<open>covered\<close> holds the outcomes seen per schema.\<close>

record case_state =
  case_errors :: messages
  case_names :: "ustring list"
  fixture_paths :: "path list"
  covered :: "(path \<times> bool) list"

definition say :: "ustring \<Rightarrow> string \<Rightarrow> case_state \<Rightarrow> case_state" where
  "say label message st = st\<lparr>case_errors := report (label @ ascii '': '' @ ascii message) (case_errors st)\<rparr>"

definition say_if :: "bool \<Rightarrow> ustring \<Rightarrow> string \<Rightarrow> case_state \<Rightarrow> case_state" where
  "say_if b label message st = (if b then say label message st else st)"

definition say_text :: "ustring \<Rightarrow> ustring \<Rightarrow> case_state \<Rightarrow> case_state" where
  "say_text label message st = st\<lparr>case_errors := report (label @ ascii '': '' @ message) (case_errors st)\<rparr>"

definition case_required :: "ustring list" where
  "case_required = map ascii [''name'', ''schema'', ''fixture'', ''valid'']"

definition case_allowed :: "ustring list" where
  "case_allowed = case_required @ map ascii [''meaning'', ''expected'']"

text \<open>The name gives the label of the later messages.\<close>

definition check_name :: "ustring \<Rightarrow> entries \<Rightarrow> case_state \<Rightarrow> ustring \<times> case_state" where
  "check_name label entries st =
     (case get_or_none entries ''name'' of
        VStr name \<Rightarrow>
          if re_fullmatch CASE_NAME name = None
          then (label, say label ''name must be a bounded lowercase slug'' st)
          else
            (name, (say_if (name \<in> set (case_names st)) name ''duplicate case name'' st)
               \<lparr>case_names := name # case_names st\<rparr>)
      | _ \<Rightarrow> (label, say label ''name must be a bounded lowercase slug'' st))"

definition bad_meaning :: "entries \<Rightarrow> bool" where
  "bad_meaning entries \<longleftrightarrow>
     has_key entries ''meaning'' \<and>
     (case get_or_none entries ''meaning'' of VStr s \<Rightarrow> s = [] | _ \<Rightarrow> True)"

definition check_expected ::
  "ustring \<Rightarrow> bool \<Rightarrow> entries \<Rightarrow> case_state \<Rightarrow> violation option \<times> case_state" where
  "check_expected label valid entries st =
     (if valid then
        (None, say_if (has_key entries ''expected'') label ''valid cases must omit expected'' st)
      else
        case get_or_none entries ''expected'' of
          VDict data \<Rightarrow>
            if set (dict_keys data) \<noteq> {ascii ''keyword'', ascii ''instance_path''}
            then (None, say label ''invalid cases require strict expected metadata'' st)
            else
              (case (get_or_none data ''keyword'', get_or_none data ''instance_path'') of
                 (VStr keyword, VStr pointer) \<Rightarrow>
                   if keyword \<notin> set (ascii ''json'' # SUPPORTED_KEYWORDS) \<or>
                      re_fullmatch JSON_POINTER pointer = None
                   then (None, say label ''expected keyword or instance_path is invalid'' st)
                   else (Some (keyword, pointer), st)
               | _ \<Rightarrow> (None, say label ''expected keyword or instance_path is invalid'' st))
        | _ \<Rightarrow> (None, say label ''invalid cases require strict expected metadata'' st))"

definition message_of :: "(ustring + path) \<Rightarrow> ustring option" where
  "message_of found = (case found of Inl m \<Rightarrow> Some m | Inr p \<Rightarrow> None)"

definition say_path_error :: "ustring \<Rightarrow> string \<Rightarrow> (ustring + path) \<Rightarrow> case_state \<Rightarrow> case_state" where
  "say_path_error label what found st =
     (case message_of found of None \<Rightarrow> st | Some m \<Rightarrow> say_text label (ascii what @ m) st)"

text \<open>The verdict on a fixture against what the case declares.\<close>

definition judge ::
  "(nat \<Rightarrow> bool) \<Rightarrow> ustring \<Rightarrow> bool \<Rightarrow> violation option \<Rightarrow> violation list \<Rightarrow> case_state \<Rightarrow> case_state" where
  "judge pr label valid expected violations st =
     (if valid \<and> violations \<noteq> [] then
        say_text label (ascii ''expected valid but failed '' @ fst (hd violations) @ ascii '' at '' @
          py_repr pr (snd (hd violations))) st
      else if \<not> valid \<and> violations = [] then say label ''expected invalid but was accepted'' st
      else if \<not> valid \<and> expected \<noteq> None \<and> the expected \<notin> set violations then
        say_text label (ascii ''intended rule mismatch; observed '' @ fst (hd violations) @
          ascii '' at '' @ py_repr pr (snd (hd violations))) st
      else st)"

definition check_fixture ::
  "interpreter \<Rightarrow> (nat \<Rightarrow> bool) \<Rightarrow> node \<Rightarrow> ustring \<Rightarrow> bool \<Rightarrow> violation option \<Rightarrow> pyval \<Rightarrow> path \<Rightarrow>
     case_state \<Rightarrow> case_state result" where
  "check_fixture I pr contract label valid expected schema fixture_path st =
     (case strict_json I (file_contents contract (path_parts fixture_path)) of
        Inr fixture \<Rightarrow>
          bindR (validate_instance fixture schema) (\<lambda>violations.
          Inr (judge pr label valid expected violations st))
      | Inl (JSONArtifactError m) \<Rightarrow> Inr (say_text label (ascii ''fixture '' @ m) st)
      | Inl (JSONDocumentError m) \<Rightarrow> Inr (judge pr label valid expected [(ascii ''json'', [])] st)
      | Inl e \<Rightarrow> Inl e)"

definition check_paths ::
  "interpreter \<Rightarrow> (nat \<Rightarrow> bool) \<Rightarrow> node \<Rightarrow> schema_map \<Rightarrow> ustring \<Rightarrow> bool \<Rightarrow> violation option \<Rightarrow> entries \<Rightarrow>
     case_state \<Rightarrow> case_state result" where
  "check_paths I pr contract schemas label valid expected entries st =
     bindR (safe_file contract (get_or_none entries ''schema'') (relative_path [''schema''])) (\<lambda>schema_found.
     bindR (safe_file contract (get_or_none entries ''fixture'')
         (relative_path [''fixtures'', if valid then ''valid'' else ''invalid''])) (\<lambda>fixture_found.
     let st = say_path_error label ''fixture '' fixture_found
                (say_path_error label ''schema '' schema_found st) in
     case (schema_found, fixture_found) of
       (Inr relative_schema, Inr relative_fixture) \<Rightarrow>
         if relative_schema \<notin> set CANONICAL_SCHEMAS
         then Inr (say label ''schema must be one of the three canonical schemas'' st)
         else
           (let st = st\<lparr>covered := (relative_schema, valid) # covered st\<rparr>;
                st = say_if (relative_fixture \<in> set (fixture_paths st)) label ''duplicate fixture path'' st;
                st = st\<lparr>fixture_paths := relative_fixture # fixture_paths st\<rparr>
            in case schema_at schemas relative_schema of
                 None \<Rightarrow> Inr st
               | Some schema \<Rightarrow> check_fixture I pr contract label valid expected schema relative_fixture st)
     | _ \<Rightarrow> Inr st))"

definition check_case ::
  "interpreter \<Rightarrow> (nat \<Rightarrow> bool) \<Rightarrow> node \<Rightarrow> schema_map \<Rightarrow> nat \<times> pyval \<Rightarrow> case_state \<Rightarrow> case_state result" where
  "check_case I pr contract schemas item st =
     (case item of (index, c) \<Rightarrow>
      let label = ascii ''case['' @ py_str_nat index @ ascii '']'';
          unsupported = say label ''case fields are missing or unsupported'' st in
      case c of
        VDict entries \<Rightarrow>
          if \<not> set case_required \<subseteq> set (dict_keys entries) \<or> \<not> set (dict_keys entries) \<subseteq> set case_allowed
          then Inr unsupported
          else
            (case check_name label entries st of (label, st) \<Rightarrow>
             case get_or_none entries ''valid'' of
               VBool valid \<Rightarrow>
                 (case check_expected label valid entries
                     (say_if (bad_meaning entries) label ''meaning must be a non-empty string when present'' st) of
                    (expected, st) \<Rightarrow> check_paths I pr contract schemas label valid expected entries st)
             | _ \<Rightarrow> Inr (say label ''valid must be boolean'' st))
      | _ \<Rightarrow> Inr unsupported)"

subsection \<open>check_contract\<close>

definition cases_file :: path where
  "cases_file = relative_path [''fixtures'', ''cases.json'']"

definition coverage_errors :: "(path \<times> bool) list \<Rightarrow> messages" where
  "coverage_errors outcomes =
     concat (map (\<lambda>relative.
         (if (relative, True) \<in> set outcomes then []
          else [ascii ''contract cases: '' @ as_posix relative @ ascii '' requires at least one valid fixture'']) @
         (if (relative, False) \<in> set outcomes then []
          else [ascii ''contract cases: '' @ as_posix relative @ ascii '' requires at least one invalid fixture'']))
       CANONICAL_SCHEMAS)"

definition bounded :: "messages \<Rightarrow> messages" where
  "bounded errors = map (take 500) (take MAX_ERRORS errors)"

definition check_cases ::
  "interpreter \<Rightarrow> (nat \<Rightarrow> bool) \<Rightarrow> node \<Rightarrow> pyval list \<Rightarrow> messages \<Rightarrow> messages result" where
  "check_cases I pr contract items errors =
     bindR (load_canonical_schemas I pr contract errors) (\<lambda>(errors, schemas).
     bindR (foldR (check_case I pr contract schemas) (enumerate 0 items)
         \<lparr>case_errors = errors, case_names = [], fixture_paths = [], covered = []\<rparr>) (\<lambda>st.
     bindR (walk_inventory (ascii ''contract fixtures'') contract (ascii ''fixtures'') (case_errors st))
       (\<lambda>(errors, discovered).
     Inr (bounded (errors @
       map (\<lambda>p. ascii ''contract fixtures: orphaned file '' @ py_repr pr (as_posix p))
         (unexpected_files discovered (cases_file # fixture_paths st)) @
       coverage_errors (covered st))))))"

text \<open>The contract directory below the repository root; a missing one behaves like a broken link.\<close>

definition contract_node :: "node \<Rightarrow> node" where
  "contract_node repository =
     (case lstat repository (path_parts CONTRACT_RELATIVE) of Inr (Some n) \<Rightarrow> n | _ \<Rightarrow> Link None)"

definition check_contract :: "interpreter \<Rightarrow> (nat \<Rightarrow> bool) \<Rightarrow> node \<Rightarrow> messages result" where
  "check_contract I pr repository =
     (let contract = contract_node repository in
      case strict_json I (file_contents contract (path_parts cases_file)) of
        Inl e \<Rightarrow>
          (case json_message e of
             None \<Rightarrow> Inl e | Some m \<Rightarrow> Inr [ascii ''contract cases: '' @ m])
      | Inr manifest \<Rightarrow>
          (case manifest of
             VDict entries \<Rightarrow>
               if set (dict_keys entries) \<noteq> {ascii ''version'', ascii ''cases''}
               then Inr [ascii ''contract cases: root must contain only version and cases'']
               else
                 (let errors = report_if (get_or_none entries ''version'' \<noteq> VStr (ascii ''v1''))
                        (ascii ''contract cases: version must be v1'') [];
                      no_cases = errors @ [ascii ''contract cases: cases must be a non-empty array''] in
                  case get_or_none entries ''cases'' of
                    VList items \<Rightarrow> if items = [] then Inr no_cases else check_cases I pr contract items errors
                  | _ \<Rightarrow> Inr no_cases)
           | _ \<Rightarrow> Inr [ascii ''contract cases: root must contain only version and cases'']))"

subsection \<open>main\<close>

record outcome =
  status :: int
  stdout :: messages
  stderr :: messages

definition main :: "interpreter \<Rightarrow> (nat \<Rightarrow> bool) \<Rightarrow> node \<Rightarrow> ustring list \<Rightarrow> outcome result" where
  "main I pr repository arguments =
     (if arguments \<noteq> [] then
        Inr \<lparr>status = 2, stdout = [], stderr = [ascii ''Usage: python3 scripts/check_contract.py'']\<rparr>
      else
        bindR (check_contract I pr repository) (\<lambda>errors.
        Inr (if errors \<noteq> [] then \<lparr>status = 1, stdout = [], stderr = errors\<rparr>
             else \<lparr>status = 0, stdout = [ascii ''FastGate model-turn v1 contract fixtures passed.''], stderr = []\<rparr>)))"

end
