(* ===== verification/CaseSpec.thy ===== *)
theory CaseSpec
  imports SchemaInventory ContractCheck
begin

text \<open>
  What one case of the manifest promises, and the proof that \<open>check_case\<close> stays silent exactly on the
  cases that keep their promise and repeat neither a name nor a fixture.
\<close>

subsection \<open>The promise of a case\<close>

record claim =
  claim_name :: ustring
  claim_schema :: path
  claim_valid :: bool
  claim_fixture :: path

definition slug :: "ustring \<Rightarrow> bool" where
  "slug name \<longleftrightarrow> name \<noteq> [] \<and> length name \<le> 80 \<and> slug_char (hd name) \<and> slug_char (last name) \<and>
     (\<forall>c \<in> set name. slug_char c \<or> c = 45)"

lemma slug_iff: "slug name \<longleftrightarrow> re_fullmatch CASE_NAME name \<noteq> None"
  unfolding slug_def CASE_NAME_fullmatch ..

text \<open>The expected violation of an invalid case; a valid case has none.\<close>

definition expectation :: "entries \<Rightarrow> bool \<Rightarrow> violation option \<Rightarrow> bool" where
  "expectation entries valid expected \<longleftrightarrow>
     (if valid then \<not> has_key entries ''expected'' \<and> expected = None
      else \<exists>data keyword pointer. get_or_none entries ''expected'' = VDict data \<and>
        set (dict_keys data) = {ascii ''keyword'', ascii ''instance_path''} \<and>
        get_or_none data ''keyword'' = VStr keyword \<and> get_or_none data ''instance_path'' = VStr pointer \<and>
        (keyword = ascii ''json'' \<or> keyword \<in> set SUPPORTED_KEYWORDS) \<and> re_fullmatch JSON_POINTER pointer \<noteq> None \<and>
        expected = Some (keyword, pointer))"

text \<open>
  A valid fixture is a document without a violation; an invalid one violates the expected keyword at
  the expected place, or is no strict JSON where the keyword is \<open>json\<close> and the place the root.
\<close>

definition fixture_keeps :: "interpreter \<Rightarrow> byte list option \<Rightarrow> pyval \<Rightarrow> violation option \<Rightarrow> bool" where
  "fixture_keeps I c schema expected \<longleftrightarrow>
     (case expected of
        None \<Rightarrow> \<exists>v. strict_json I c = Inr v \<and> (\<forall>x. \<not> violates (denote schema) (denote v) [] x)
      | Some x \<Rightarrow>
          (\<exists>v reported. strict_json I c = Inr v \<and> validate_instance v schema = Inr reported \<and> x \<in> set reported) \<or>
          (\<exists>m. strict_json I c = Inl (JSONDocumentError m)) \<and> x = (ascii ''json'', []))"

definition fixture_folder :: "bool \<Rightarrow> path" where
  "fixture_folder valid = relative_path [''fixtures'', if valid then ''valid'' else ''invalid'']"

definition kept :: "interpreter \<Rightarrow> node \<Rightarrow> (path \<Rightarrow> pyval) \<Rightarrow> pyval \<Rightarrow> claim \<Rightarrow> bool" where
  "kept I contract schema c p \<longleftrightarrow>
     (\<exists>entries expected content. c = VDict entries \<and>
        set case_required \<subseteq> set (dict_keys entries) \<and> set (dict_keys entries) \<subseteq> set case_allowed \<and>
        get_or_none entries ''name'' = VStr (claim_name p) \<and> slug (claim_name p) \<and>
        get_or_none entries ''valid'' = VBool (claim_valid p) \<and>
        (has_key entries ''meaning'' \<longrightarrow> (\<exists>s. s \<noteq> [] \<and> get_or_none entries ''meaning'' = VStr s)) \<and>
        expectation entries (claim_valid p) expected \<and>
        admitted contract schema_folder (get_or_none entries ''schema'') (claim_schema p) \<and>
        claim_schema p \<in> set CANONICAL_SCHEMAS \<and>
        admitted contract (fixture_folder (claim_valid p)) (get_or_none entries ''fixture'') (claim_fixture p) \<and>
        stored_file contract (path_parts (claim_fixture p)) content \<and>
        fixture_keeps I content (schema (claim_schema p)) expected)"

subsection \<open>Messages\<close>

lemma say_simps [simp]:
  "case_errors (say label m st) \<noteq> []" "case_errors (say_text label t st) \<noteq> []"
  "case_errors (say_if b label m st) = [] \<longleftrightarrow> \<not> b \<and> case_errors st = []"
  "case_names (say label m st) = case_names st" "fixture_paths (say label m st) = fixture_paths st"
  "covered (say label m st) = covered st"
  "case_names (say_text label t st) = case_names st" "fixture_paths (say_text label t st) = fixture_paths st"
  "covered (say_text label t st) = covered st"
  "case_names (say_if b label m st) = case_names st" "fixture_paths (say_if b label m st) = fixture_paths st"
  "covered (say_if b label m st) = covered st"
  by (simp_all add: say_def say_text_def say_if_def)

lemma say_path_error_simps [simp]:
  "case_errors (say_path_error label what found st) = [] \<longleftrightarrow> case_errors st = [] \<and> (\<exists>p. found = Inr p)"
  "case_names (say_path_error label what found st) = case_names st"
  "fixture_paths (say_path_error label what found st) = fixture_paths st"
  "covered (say_path_error label what found st) = covered st"
  by (auto simp: say_path_error_def message_of_def split: sum.split)

definition same_tables :: "case_state \<Rightarrow> case_state \<Rightarrow> bool" where
  "same_tables st st' \<longleftrightarrow> case_names st' = case_names st \<and> fixture_paths st' = fixture_paths st \<and> covered st' = covered st"

subsection \<open>The parts of a case\<close>

lemma check_name_silent:
  assumes "check_name label entries st = (label', st')"
  shows "fixture_paths st' = fixture_paths st \<and> covered st' = covered st"
    and "case_errors st' = [] \<longleftrightarrow> case_errors st = [] \<and>
      (\<exists>name. get_or_none entries ''name'' = VStr name \<and> slug name \<and> name \<notin> set (case_names st))"
    and "get_or_none entries ''name'' = VStr name \<Longrightarrow> slug name \<Longrightarrow> case_names st' = name # case_names st"
  using assms by (auto simp: check_name_def slug_iff split: pyval.splits if_splits)

lemma check_expected_silent:
  assumes "check_expected label valid entries st = (expected, st')"
  shows "same_tables st st'"
    and "case_errors st' = [] \<longleftrightarrow> case_errors st = [] \<and> expectation entries valid expected"
    and "expectation entries valid x \<Longrightarrow> expected = x"
  using assms
  by (auto simp: check_expected_def expectation_def same_tables_def split: pyval.splits if_splits)

lemma expectation_unique: "expectation entries valid x \<Longrightarrow> expectation entries valid y \<Longrightarrow> x = y"
  by (auto simp: expectation_def split: if_splits)

lemma bad_meaning_iff:
  "bad_meaning entries \<longleftrightarrow> has_key entries ''meaning'' \<and> \<not> (\<exists>s. s \<noteq> [] \<and> get_or_none entries ''meaning'' = VStr s)"
  by (auto simp: bad_meaning_def split: pyval.splits)

lemma judge_silent:
  assumes "valid \<longleftrightarrow> expected = None"
  shows "same_tables st (judge pr label valid expected violations st)"
    and "case_errors (judge pr label valid expected violations st) = [] \<longleftrightarrow>
      case_errors st = [] \<and> (case expected of None \<Rightarrow> violations = [] | Some x \<Rightarrow> x \<in> set violations)"
  using assms by (auto simp: judge_def same_tables_def split: option.splits)

lemma validate_accepted:
  assumes "accepted pr s" and "exact_val v"
  shows "\<exists>reported. validate_instance v s = Inr reported \<and>
    (reported = [] \<longleftrightarrow> (\<forall>x. \<not> violates (denote s) (denote v) [] x))"
proof -
  have facts: "proper v" "proper s" "schema_issues pr s = []"
    using assms exact_proper by (auto simp: accepted_def)
  show ?thesis using violation_set_reported [OF facts] accepts_iff_no_violation [OF facts]
    by (auto simp: violation_set_def)
qed

lemma check_fixture_silent:
  assumes "accepted pr schema" and "valid \<longleftrightarrow> expected = None"
    and "stored_file contract (path_parts fixture) c" and "list_all file_name (path_parts fixture)"
  shows "\<exists>st'. check_fixture I pr contract label valid expected schema fixture st = Inr st' \<and> same_tables st st' \<and>
    (case_errors st' = [] \<longleftrightarrow> case_errors st = [] \<and> fixture_keeps I c schema expected)"
proof (cases "strict_json I c")
  case (Inl e)
  then consider m where "e = JSONDocumentError m" | m where "e = JSONArtifactError m"
    using strict_json_error [OF Inl] by (auto simp: json_exception_def)
  then show ?thesis
  proof cases
    case 1
    then show ?thesis
      using Inl judge_silent [OF assms(2)] stored_file_contents(2) [OF assms(3,4)]
      by (auto simp: check_fixture_def fixture_keeps_def split: option.split)
  next
    case 2
    then show ?thesis
      using Inl stored_file_contents(2) [OF assms(3,4)]
      by (auto simp: check_fixture_def fixture_keeps_def same_tables_def split: option.split)
  qed
next
  case (Inr v)
  obtain reported where r: "validate_instance v schema = Inr reported"
    "reported = [] \<longleftrightarrow> (\<forall>x. \<not> violates (denote schema) (denote v) [] x)"
    using validate_accepted [OF assms(1) strict_json_exact(1) [OF Inr]] by blast
  have "case_errors (judge pr label valid expected reported st) = [] \<longleftrightarrow>
      case_errors st = [] \<and> fixture_keeps I c schema expected"
    using judge_silent(2) [OF assms(2)] Inr r by (auto simp: fixture_keeps_def split: option.splits)
  then show ?thesis
    using Inr r judge_silent(1) [OF assms(2)] stored_file_contents(2) [OF assms(3,4)]
    by (simp add: check_fixture_def)
qed

lemma stored_content: "admitted contract folder raw p \<Longrightarrow> list_all file_name (path_parts p) \<and> (\<exists>c. stored_file contract (path_parts p) c)"
  by (simp add: admitted_def)

lemma admitted_unique: "admitted contract folder raw p \<Longrightarrow> admitted contract folder raw q \<Longrightarrow> p = q"
  using normal_path_parse by (auto simp: admitted_def)

text \<open>The state after the two paths are registered.\<close>

definition registered :: "path \<Rightarrow> bool \<Rightarrow> path \<Rightarrow> case_state \<Rightarrow> case_state \<Rightarrow> bool" where
  "registered schema valid fixture st st' \<longleftrightarrow>
     case_names st' = case_names st \<and> fixture_paths st' = fixture # fixture_paths st \<and>
     covered st' = (schema, valid) # covered st"

definition paths_keep ::
  "interpreter \<Rightarrow> node \<Rightarrow> (path \<Rightarrow> pyval) \<Rightarrow> entries \<Rightarrow> bool \<Rightarrow> violation option \<Rightarrow> path \<Rightarrow> path \<Rightarrow> bool" where
  "paths_keep I contract schema entries valid expected schema_path fixture \<longleftrightarrow>
     admitted contract schema_folder (get_or_none entries ''schema'') schema_path \<and>
     schema_path \<in> set CANONICAL_SCHEMAS \<and>
     admitted contract (fixture_folder valid) (get_or_none entries ''fixture'') fixture \<and>
     (\<exists>content. stored_file contract (path_parts fixture) content \<and>
        fixture_keeps I content (schema schema_path) expected)"

lemma paths_keep_unique:
  "paths_keep I contract schema entries valid expected s f \<Longrightarrow>
   paths_keep I contract schema entries valid expected' s' f' \<Longrightarrow> s = s' \<and> f = f'"
  using admitted_unique by (auto simp: paths_keep_def)

lemma check_paths_silent:
  assumes docs: "schemas = map (\<lambda>r. (r, Some (schema r))) CANONICAL_SCHEMAS" and acc: "holds_accepted pr schemas"
    and tag: "valid \<longleftrightarrow> expected = None"
    and run: "check_paths I pr contract schemas label valid expected entries st = Inr st'"
  shows "(case_errors st' = [] \<longleftrightarrow> case_errors st = [] \<and>
      (\<exists>s f. paths_keep I contract schema entries valid expected s f \<and> f \<notin> set (fixture_paths st))) \<and>
    (\<forall>s f. paths_keep I contract schema entries valid expected s f \<longrightarrow> registered s valid f st st')"
proof -
  obtain sfound ffound where found:
    "safe_file contract (get_or_none entries ''schema'') schema_folder = Inr sfound"
    "safe_file contract (get_or_none entries ''fixture'') (fixture_folder valid) = Inr ffound"
    using run by (auto simp: check_paths_def bindR_eq_Inr schema_folder_def fixture_folder_def)
  have s: "admitted contract schema_folder (get_or_none entries ''schema'') p \<longleftrightarrow> sfound = Inr p" for p
    using found(1) by (simp add: safe_file_admitted [symmetric])
  have f: "admitted contract (fixture_folder valid) (get_or_none entries ''fixture'') p \<longleftrightarrow> ffound = Inr p" for p
    using found(2) by (simp add: safe_file_admitted [symmetric])
  note run = run [unfolded check_paths_def schema_folder_def [symmetric] fixture_folder_def [symmetric] found
      bindR_simps Let_def]
  show ?thesis
  proof (cases "\<exists>sp fp. sfound = Inr sp \<and> ffound = Inr fp \<and> sp \<in> set CANONICAL_SCHEMAS")
    case False
    have "case_errors st' \<noteq> []"
      using run False by (auto split: sum.splits if_splits)
    moreover have "\<not> paths_keep I contract schema entries valid expected sp fp" for sp fp
      using False by (auto simp: paths_keep_def s f)
    ultimately show ?thesis by blast
  next
    case True
    then obtain sp fp where p: "sfound = Inr sp" "ffound = Inr fp" "sp \<in> set CANONICAL_SCHEMAS" by blast
    have at: "schema_at schemas sp = Some (schema sp)"
      using p(3) schema_at_map [OF canonical_paths(2)] by (simp add: docs)
    then have a: "accepted pr (schema sp)"
      using acc p(3) by (auto simp: holds_accepted_def docs)
    obtain c where c: "stored_file contract (path_parts fp) c" "list_all file_name (path_parts fp)"
      using f [of fp] p(2) stored_content by blast
    define mid where "mid = (say_if (fp \<in> set (fixture_paths st)) label ''duplicate fixture path''
      (st\<lparr>covered := (sp, valid) # covered st\<rparr>))\<lparr>fixture_paths := fp # fixture_paths st\<rparr>"
    have "check_fixture I pr contract label valid expected (schema sp) fp mid = Inr st'"
      using run p by (simp add: at mid_def say_path_error_def message_of_def)
    then have st': "same_tables mid st'"
      "case_errors st' = [] \<longleftrightarrow> case_errors mid = [] \<and> fixture_keeps I c (schema sp) expected"
      using check_fixture_silent [OF a tag c, of I label mid] by auto
    have "registered sp valid fp st st'"
      using st'(1) by (simp add: registered_def same_tables_def mid_def)
    moreover have "case_errors mid = [] \<longleftrightarrow> case_errors st = [] \<and> fp \<notin> set (fixture_paths st)"
      by (auto simp: mid_def say_if_def say_def)
    moreover have "paths_keep I contract schema entries valid expected s' f' \<longleftrightarrow>
        s' = sp \<and> f' = fp \<and> fixture_keeps I c (schema sp) expected" for s' f'
    proof -
      have "stored_file contract (path_parts fp) c' \<longleftrightarrow> c' = c" for c'
        using c(1) stored_file_unique [OF c(1)] by blast
      then show ?thesis using p unfolding paths_keep_def s f by auto
    qed
    ultimately show ?thesis using st'(2) by auto
  qed
qed

subsection \<open>check_case\<close>

definition claimed :: "claim \<Rightarrow> case_state \<Rightarrow> case_state \<Rightarrow> bool" where
  "claimed p st st' \<longleftrightarrow> case_names st' = claim_name p # case_names st \<and>
     fixture_paths st' = claim_fixture p # fixture_paths st \<and>
     covered st' = (claim_schema p, claim_valid p) # covered st"

lemma kept_paths:
  "kept I contract schema c p \<longleftrightarrow>
     (\<exists>entries expected. c = VDict entries \<and>
        set case_required \<subseteq> set (dict_keys entries) \<and> set (dict_keys entries) \<subseteq> set case_allowed \<and>
        get_or_none entries ''name'' = VStr (claim_name p) \<and> slug (claim_name p) \<and>
        get_or_none entries ''valid'' = VBool (claim_valid p) \<and> \<not> bad_meaning entries \<and>
        expectation entries (claim_valid p) expected \<and>
        paths_keep I contract schema entries (claim_valid p) expected (claim_schema p) (claim_fixture p))"
  unfolding kept_def paths_keep_def bad_meaning_iff by blast

lemma judge_keeps: "case_errors (judge pr label valid expected violations st) = [] \<Longrightarrow> case_errors st = []"
  by (simp add: judge_def split: if_splits)

lemma check_paths_keeps:
  assumes "check_paths I pr contract schemas label valid expected entries st = Inr st'" and "case_errors st' = []"
  shows "case_errors st = []"
proof -
  have fixture: "case_errors st = []"
    if "check_fixture I pr contract label valid expected schema fixture st = Inr st'" for schema fixture st
    using that assms(2)
    by (auto simp: check_fixture_def bindR_eq_Inr split: sum.splits exc.splits dest: judge_keeps)
  obtain sfound ffound where found:
    "safe_file contract (get_or_none entries ''schema'') (relative_path [''schema'']) = Inr sfound"
    "safe_file contract (get_or_none entries ''fixture'')
       (relative_path [''fixtures'', if valid then ''valid'' else ''invalid'']) = Inr ffound"
    using assms(1) by (auto simp: check_paths_def bindR_eq_Inr)
  note run = assms(1) [unfolded check_paths_def found bindR_simps Let_def]
  show ?thesis
  proof (cases "\<exists>sp fp. sfound = Inr sp \<and> ffound = Inr fp")
    case True
    then obtain sp fp where p: "sfound = Inr sp" "ffound = Inr fp" by blast
    show ?thesis
    proof (cases "schema_at schemas sp")
      case None
      then show ?thesis using run assms(2) by (auto simp: p say_if_def split: if_splits)
    next
      case (Some schema)
      then show ?thesis using run assms(2) fixture by (fastforce simp: p say_if_def split: if_splits)
    qed
  next
    case False
    then show ?thesis using run assms(2) by (auto split: sum.splits)
  qed
qed

lemma kept_header:
  assumes "c = VDict entries" "set case_required \<subseteq> set (dict_keys entries)"
    "set (dict_keys entries) \<subseteq> set case_allowed" "get_or_none entries ''valid'' = VBool valid"
  shows "kept I contract schema c p \<longleftrightarrow> get_or_none entries ''name'' = VStr (claim_name p) \<and>
      slug (claim_name p) \<and> claim_valid p = valid \<and> \<not> bad_meaning entries \<and>
      (\<exists>x. expectation entries valid x \<and>
        paths_keep I contract schema entries valid x (claim_schema p) (claim_fixture p))" (is "_ \<longleftrightarrow> ?rhs")
proof
  assume "kept I contract schema c p"
  then obtain entries' x where *: "c = VDict entries'" "get_or_none entries' ''name'' = VStr (claim_name p)"
    "slug (claim_name p)" "get_or_none entries' ''valid'' = VBool (claim_valid p)" "\<not> bad_meaning entries'"
    "expectation entries' (claim_valid p) x"
    "paths_keep I contract schema entries' (claim_valid p) x (claim_schema p) (claim_fixture p)"
    unfolding kept_paths by blast
  then have "entries' = entries" "claim_valid p = valid" using assms by auto
  with * show ?rhs by blast
next
  assume rhs: ?rhs
  then have "claim_valid p = valid" by blast
  with rhs show "kept I contract schema c p" unfolding kept_paths using assms by blast
qed

lemma check_case_silent:
  assumes docs: "schemas = map (\<lambda>r. (r, Some (schema r))) CANONICAL_SCHEMAS" and acc: "holds_accepted pr schemas"
    and run: "check_case I pr contract schemas (i, c) st = Inr st'"
  shows "(case_errors st' = [] \<longleftrightarrow> case_errors st = [] \<and>
      (\<exists>p. kept I contract schema c p \<and> claim_name p \<notin> set (case_names st) \<and>
        claim_fixture p \<notin> set (fixture_paths st))) \<and>
    (\<forall>p. kept I contract schema c p \<longrightarrow> claimed p st st')"
proof (cases "\<exists>entries valid. c = VDict entries \<and> set case_required \<subseteq> set (dict_keys entries) \<and>
    set (dict_keys entries) \<subseteq> set case_allowed \<and> get_or_none entries ''valid'' = VBool valid")
  case False
  have "case_errors st' \<noteq> []"
    using run False by (auto simp: check_case_def Let_def split: pyval.splits if_splits prod.splits)
  moreover have "\<not> kept I contract schema c p" for p using False by (auto simp: kept_paths)
  ultimately show ?thesis by blast
next
  case True
  then obtain entries valid where c: "c = VDict entries" "set case_required \<subseteq> set (dict_keys entries)"
    "set (dict_keys entries) \<subseteq> set case_allowed" "get_or_none entries ''valid'' = VBool valid" by blast
  obtain label st1 where 1: "check_name (ascii ''case['' @ py_str_nat i @ ascii '']'') entries st = (label, st1)"
    by (rule prod.exhaust)
  define st2 where "st2 = say_if (bad_meaning entries) label ''meaning must be a non-empty string when present'' st1"
  obtain expected st3 where 3: "check_expected label valid entries st2 = (expected, st3)" by (rule prod.exhaust)
  have 4: "check_paths I pr contract schemas label valid expected entries st3 = Inr st'"
    using run c 1 3 by (simp add: check_case_def Let_def st2_def)
  note name = check_name_silent [OF 1]
  have mid: "case_errors st2 = [] \<longleftrightarrow> case_errors st1 = [] \<and> \<not> bad_meaning entries" "same_tables st1 st2"
    by (auto simp: st2_def same_tables_def)
  note expectation = check_expected_silent [OF 3]
  note kept = kept_header [OF c]
  show ?thesis
  proof (cases "expectation entries valid expected")
    case False
    then have "\<not> kept I contract schema c p" for p using expectation(3) by (auto simp: kept)
    moreover have "case_errors st' \<noteq> []" using check_paths_keeps [OF 4] expectation(2) False by blast
    ultimately show ?thesis by blast
  next
    case True
    then have tag: "valid \<longleftrightarrow> expected = None" by (auto simp: expectation_def split: if_splits)
    have only: "expectation entries valid x \<longleftrightarrow> x = expected" for x using True expectation(3) by blast
    have tables: "case_names st3 = case_names st1" "fixture_paths st3 = fixture_paths st" "covered st3 = covered st"
      using expectation(1) mid(2) name(1) by (simp_all add: same_tables_def)
    note paths = check_paths_silent [OF docs acc tag 4, unfolded tables]
    have "claimed p st st'" if "kept I contract schema c p" for p
    proof -
      note p = that [unfolded kept only]
      then have "registered (claim_schema p) valid (claim_fixture p) st3 st'" using paths by blast
      then show ?thesis using p name(3) by (simp add: claimed_def registered_def tables)
    qed
    moreover have "case_errors st' = [] \<longleftrightarrow> case_errors st = [] \<and>
      (\<exists>p. kept I contract schema c p \<and> claim_name p \<notin> set (case_names st) \<and>
        claim_fixture p \<notin> set (fixture_paths st))"
    proof
      assume "case_errors st' = []"
      then obtain n s f where "case_errors st = []" "get_or_none entries ''name'' = VStr n" "slug n"
        "n \<notin> set (case_names st)" "\<not> bad_meaning entries"
        "paths_keep I contract schema entries valid expected s f" "f \<notin> set (fixture_paths st)"
        using paths expectation(2) mid(1) name(2) by blast
      then show "case_errors st = [] \<and> (\<exists>p. kept I contract schema c p \<and> claim_name p \<notin> set (case_names st) \<and>
          claim_fixture p \<notin> set (fixture_paths st))"
        unfolding kept only
        by (intro conjI exI [of _ "\<lparr>claim_name = n, claim_schema = s, claim_valid = valid, claim_fixture = f\<rparr>"]) auto
    next
      assume "case_errors st = [] \<and> (\<exists>p. kept I contract schema c p \<and> claim_name p \<notin> set (case_names st) \<and>
          claim_fixture p \<notin> set (fixture_paths st))"
      then show "case_errors st' = []"
        unfolding kept only using paths expectation(2) mid(1) name(2) True by blast
    qed
    ultimately show ?thesis by blast
  qed
qed

lemma kept_unique:
  assumes "kept I contract schema c p" and "kept I contract schema c q"
  shows "p = q"
proof -
  obtain entries where c: "c = VDict entries" "get_or_none entries ''name'' = VStr (claim_name p)"
    "get_or_none entries ''valid'' = VBool (claim_valid p)"
    "admitted contract schema_folder (get_or_none entries ''schema'') (claim_schema p)"
    "admitted contract (fixture_folder (claim_valid p)) (get_or_none entries ''fixture'') (claim_fixture p)"
    using assms(1) unfolding kept_def by blast
  obtain entries' where "c = VDict entries'" "get_or_none entries' ''name'' = VStr (claim_name q)"
    "get_or_none entries' ''valid'' = VBool (claim_valid q)"
    "admitted contract schema_folder (get_or_none entries' ''schema'') (claim_schema q)"
    "admitted contract (fixture_folder (claim_valid q)) (get_or_none entries' ''fixture'') (claim_fixture q)"
    using assms(2) unfolding kept_def by blast
  with c have "claim_name p = claim_name q" "claim_valid p = claim_valid q" "claim_schema p = claim_schema q"
    "claim_fixture p = claim_fixture q" using admitted_unique by auto
  then show ?thesis by simp
qed

text \<open>Diagnostics are never taken back.\<close>

lemma check_case_keeps:
  assumes "check_case I pr contract schemas (i, c) st = Inr st'" and "case_errors st' = []"
  shows "case_errors st = []"
proof (cases "\<exists>entries valid. c = VDict entries \<and> set case_required \<subseteq> set (dict_keys entries) \<and>
    set (dict_keys entries) \<subseteq> set case_allowed \<and> get_or_none entries ''valid'' = VBool valid")
  case False
  then show ?thesis using assms by (auto simp: check_case_def Let_def split: pyval.splits if_splits prod.splits)
next
  case True
  then obtain entries valid where c: "c = VDict entries" "set case_required \<subseteq> set (dict_keys entries)"
    "set (dict_keys entries) \<subseteq> set case_allowed" "get_or_none entries ''valid'' = VBool valid" by blast
  obtain label st1 where 1: "check_name (ascii ''case['' @ py_str_nat i @ ascii '']'') entries st = (label, st1)"
    by (rule prod.exhaust)
  obtain expected st3 where 3: "check_expected label valid entries
      (say_if (bad_meaning entries) label ''meaning must be a non-empty string when present'' st1) = (expected, st3)"
    by (rule prod.exhaust)
  have "check_paths I pr contract schemas label valid expected entries st3 = Inr st'"
    using assms(1) c 1 3 by (simp add: check_case_def Let_def)
  then have "case_errors st3 = []" using assms(2) by (rule check_paths_keeps)
  then show ?thesis using check_expected_silent(2) [OF 3] check_name_silent(2) [OF 1] by simp
qed

subsection \<open>All cases\<close>

definition all_kept ::
  "interpreter \<Rightarrow> node \<Rightarrow> (path \<Rightarrow> pyval) \<Rightarrow> pyval list \<Rightarrow> claim list \<Rightarrow> bool" where
  "all_kept I contract schema items ps \<longleftrightarrow>
     list_all2 (kept I contract schema) items ps \<and> distinct (map claim_name ps) \<and> distinct (map claim_fixture ps)"

definition all_claimed :: "claim list \<Rightarrow> case_state \<Rightarrow> case_state \<Rightarrow> bool" where
  "all_claimed ps st st' \<longleftrightarrow> case_names st' = rev (map claim_name ps) @ case_names st \<and>
     fixture_paths st' = rev (map claim_fixture ps) @ fixture_paths st \<and>
     covered st' = rev (map (\<lambda>p. (claim_schema p, claim_valid p)) ps) @ covered st"

lemma check_cases_keep:
  "foldR (check_case I pr contract schemas) items st = Inr st' \<Longrightarrow> case_errors st' = [] \<Longrightarrow> case_errors st = []"
proof (induction items arbitrary: st)
  case (Cons item items)
  then obtain mid where "check_case I pr contract schemas item st = Inr mid" "case_errors mid = []"
    by (auto simp: bindR_eq_Inr)
  then show ?case using check_case_keeps [of I pr contract schemas "fst item" "snd item"] by simp
qed simp

lemma check_cases_silent:
  assumes docs: "schemas = map (\<lambda>r. (r, Some (schema r))) CANONICAL_SCHEMAS" and acc: "holds_accepted pr schemas"
  shows "foldR (check_case I pr contract schemas) (enumerate n items) st = Inr st' \<Longrightarrow>
    (case_errors st' = [] \<longleftrightarrow> case_errors st = [] \<and>
      (\<exists>ps. all_kept I contract schema items ps \<and> set (map claim_name ps) \<inter> set (case_names st) = {} \<and>
        set (map claim_fixture ps) \<inter> set (fixture_paths st) = {})) \<and>
    (\<forall>ps. all_kept I contract schema items ps \<longrightarrow> all_claimed ps st st')"
proof (induction items arbitrary: n st)
  case Nil
  then show ?case by (auto simp: all_kept_def all_claimed_def)
next
  case (Cons c items)
  obtain mid where mid: "check_case I pr contract schemas (n, c) st = Inr mid"
    "foldR (check_case I pr contract schemas) (enumerate (Suc n) items) mid = Inr st'"
    using Cons.prems by (auto simp: bindR_eq_Inr)
  note step = check_case_silent [OF docs acc mid(1)] and rest = Cons.IH [OF mid(2)]
  have "all_claimed ps' st st'" if "all_kept I contract schema (c # items) ps'" for ps'
  proof -
    obtain p ps where ps: "ps' = p # ps" "kept I contract schema c p" "all_kept I contract schema items ps"
      using \<open>all_kept I contract schema (c # items) ps'\<close> by (auto simp: all_kept_def list_all2_Cons1)
    then have "claimed p st mid" "all_claimed ps mid st'" using step rest by blast+
    then show ?thesis by (simp add: ps(1) claimed_def all_claimed_def)
  qed
  moreover have "case_errors st' = [] \<longleftrightarrow> case_errors st = [] \<and>
      (\<exists>ps. all_kept I contract schema (c # items) ps \<and> set (map claim_name ps) \<inter> set (case_names st) = {} \<and>
        set (map claim_fixture ps) \<inter> set (fixture_paths st) = {})" (is "_ \<longleftrightarrow> ?rhs")
  proof
    assume "case_errors st' = []"
    then obtain p ps where *: "case_errors st = []" "kept I contract schema c p"
      "claim_name p \<notin> set (case_names st)" "claim_fixture p \<notin> set (fixture_paths st)" "claimed p st mid"
      "all_kept I contract schema items ps" "set (map claim_name ps) \<inter> set (case_names mid) = {}"
      "set (map claim_fixture ps) \<inter> set (fixture_paths mid) = {}"
      using step rest by blast
    then show ?rhs by (intro conjI exI [of _ "p # ps"]) (auto simp: all_kept_def claimed_def)
  next
    assume ?rhs
    then obtain p ps where errors: "case_errors st = []" and kept: "all_kept I contract schema (c # items) (p # ps)"
      and fresh: "set (map claim_name (p # ps)) \<inter> set (case_names st) = {}"
        "set (map claim_fixture (p # ps)) \<inter> set (fixture_paths st) = {}"
      unfolding all_kept_def by (auto simp: list_all2_Cons1)
    have "kept I contract schema c p" using kept by (simp add: all_kept_def)
    then have "case_errors mid = []" "claimed p st mid" using step errors fresh by auto
    moreover have "all_kept I contract schema items ps" using kept by (simp add: all_kept_def)
    moreover have "set (map claim_name ps) \<inter> set (claim_name p # case_names st) = {}"
      "set (map claim_fixture ps) \<inter> set (claim_fixture p # fixture_paths st) = {}"
      using kept fresh by (auto simp: all_kept_def)
    ultimately show "case_errors st' = []" using rest unfolding claimed_def by metis
  qed
  ultimately show ?case by blast
qed

end
