(* ===== verification/Acceptance.thy ===== *)
theory Acceptance
  imports CaseSpec
begin

text \<open>
  What \<open>check_contract\<close> accepts, as a specification of the contract directory without diagnostics,
  tables or order of checks; and what it can raise.
\<close>

subsection \<open>The specification\<close>

definition sound_corpus :: "interpreter \<Rightarrow> (nat \<Rightarrow> bool) \<Rightarrow> node \<Rightarrow> bool" where
  "sound_corpus I pr contract \<longleftrightarrow>
     (\<exists>entries items schema claims.
        strict_json I (file_contents contract (path_parts cases_file)) = Inr (VDict entries) \<and>
        set (dict_keys entries) = {ascii ''version'', ascii ''cases''} \<and>
        get_or_none entries ''version'' = VStr (ascii ''v1'') \<and>
        get_or_none entries ''cases'' = VList items \<and> items \<noteq> [] \<and>
        canonical_set I pr contract schema \<and> all_kept I contract schema items claims \<and>
        tidy contract (ascii ''fixtures'') (insert cases_file (claim_fixture ` set claims)) \<and>
        (\<forall>relative \<in> set CANONICAL_SCHEMAS. \<forall>valid.
           \<exists>p \<in> set claims. claim_schema p = relative \<and> claim_valid p = valid))"

subsection \<open>Exceptions\<close>

definition overlong :: "pyval \<Rightarrow> bool" where
  "overlong c \<longleftrightarrow>
     (\<exists>entries key s. c = VDict entries \<and> key \<in> {''schema'', ''fixture''} \<and> get_or_none entries key = VStr s \<and>
        length s \<le> MAX_PATH_LENGTH \<and> list_ex name_too_long (path_parts (parse_path s)))"

lemma check_fixture_total:
  assumes "accepted pr schema"
  shows "\<exists>st'. check_fixture I pr contract label valid expected schema fixture st = Inr st'"
proof (cases "strict_json I (file_contents contract (path_parts fixture))")
  case (Inl e)
  then show ?thesis using strict_json_error [OF Inl] by (auto simp: check_fixture_def json_exception_def)
next
  case (Inr v)
  then show ?thesis using validate_accepted [OF assms strict_json_exact(1) [OF Inr]]
    by (auto simp: check_fixture_def)
qed

lemma check_paths_raises:
  assumes "holds_accepted pr schemas"
    and "check_paths I pr contract schemas label valid expected entries st = Inl e"
  shows "e = OSError \<and> overlong (VDict entries)"
proof -
  have "accepted pr s" if "schema_at schemas r = Some s" for r s
    using assms(1) that by (auto simp: holds_accepted_def schema_at_def split: option.splits dest!: map_of_SomeD)
  then have "check_fixture I pr contract label valid expected s fixture st \<noteq> Inl e"
    if "schema_at schemas r = Some s" for r s fixture st
    using that check_fixture_total [of pr s I contract label valid expected fixture st] by fastforce
  then have fixture: "check_fixture I pr contract label valid expected s fixture st = Inl e \<Longrightarrow> schema_at schemas r = Some s \<Longrightarrow> False"
    for r s fixture st by blast
  have "\<exists>key folder. key \<in> {''schema'', ''fixture''} \<and> safe_file contract (get_or_none entries key) folder = Inl e"
  proof (rule ccontr)
    assume no: "\<not> ?thesis"
    obtain sfound where s: "safe_file contract (get_or_none entries ''schema'') (relative_path [''schema'']) = Inr sfound"
      using assms(2) no
      by (cases "safe_file contract (get_or_none entries ''schema'') (relative_path [''schema''])")
        (auto simp: check_paths_def)
    obtain ffound where f: "safe_file contract (get_or_none entries ''fixture'')
        (relative_path [''fixtures'', if valid then ''valid'' else ''invalid'']) = Inr ffound"
      using assms(2) no s
      by (cases "safe_file contract (get_or_none entries ''fixture'')
          (relative_path [''fixtures'', if valid then ''valid'' else ''invalid''])")
        (auto simp: check_paths_def)
    note run = assms(2) [unfolded check_paths_def s f bindR_simps Let_def]
    show False
    proof (cases "\<exists>sp fp. sfound = Inr sp \<and> ffound = Inr fp")
      case False
      then show False using run by (auto split: sum.splits)
    next
      case True
      then obtain sp fp where "sfound = Inr sp" "ffound = Inr fp" by blast
      then show False using run
        by (cases "schema_at schemas sp") (auto dest: fixture [rotated] split: if_splits)
    qed
  qed
  then obtain key folder where key: "key \<in> {''schema'', ''fixture''}"
    and raised: "safe_file contract (get_or_none entries key) folder = Inl e" by blast
  show ?thesis unfolding overlong_def using key safe_file_raises [OF raised] by fast
qed

lemma check_case_raises:
  assumes "holds_accepted pr schemas" and "check_case I pr contract schemas (i, c) st = Inl e"
  shows "e = OSError \<and> overlong c"
  using assms check_paths_raises
  by (fastforce simp: check_case_def Let_def split: pyval.splits if_splits prod.splits)

lemma foldR_raises: "foldR f xs s = Inl e \<Longrightarrow> \<exists>x \<in> set xs. \<exists>u. f x u = Inl e"
  by (induction xs arbitrary: s) (auto simp: bindR_eq_Inl)

lemma check_cases_raises:
  assumes "check_cases I pr contract items errors = Inl e"
  shows "e = OSError \<and> (\<exists>c \<in> set items. overlong c)"
proof -
  obtain errors' schemas where load: "load_canonical_schemas I pr contract errors = Inr (errors', schemas)"
    "holds_accepted pr schemas"
    using load_canonical_exact [of I pr contract errors] by (elim exE conjE) (rule that; blast)
  let ?st = "\<lparr>case_errors = errors', case_names = [], fixture_paths = [], covered = []\<rparr>"
  have "foldR (check_case I pr contract schemas) (enumerate 0 items) ?st = Inl e"
    using assms load(1) folder_name(2)
    by (auto simp: check_cases_def bindR_eq_Inl dest: walk_inventory_error)
  then obtain i c u where "(i, c) \<in> set (enumerate 0 items)" "check_case I pr contract schemas (i, c) u = Inl e"
    by (auto dest: foldR_raises)
  then have "c \<in> set items" "e = OSError \<and> overlong c"
    using check_case_raises [OF load(2)] by (auto simp: in_set_enumerate_eq)
  then show ?thesis by blast
qed

subsection \<open>check_cases\<close>

lemma bounded_Nil: "bounded errors = [] \<longleftrightarrow> errors = []"
  by (simp add: bounded_def MAX_ERRORS_def)

lemma coverage_Nil:
  "coverage_errors outcomes = [] \<longleftrightarrow> (\<forall>relative \<in> set CANONICAL_SCHEMAS. \<forall>valid. (relative, valid) \<in> set outcomes)"
  by (auto simp: coverage_errors_def all_bool_eq)

lemma kept_not_overlong:
  assumes "kept I contract schema c p"
  shows "\<not> overlong c"
proof
  assume "overlong c"
  then obtain entries key s where c: "c = VDict entries" "key \<in> {''schema'', ''fixture''}" "get_or_none entries key = VStr s"
    and long: "list_ex name_too_long (path_parts (parse_path s))" by (auto simp: overlong_def)
  obtain folder q where "admitted contract folder (get_or_none entries key) q"
    using assms c(1,2) unfolding kept_def by blast
  then have "normal_path s q" "list_all file_name (path_parts q)" using c(3) by (auto simp: admitted_def)
  then show False using long normal_path_parse [of s q] by (auto simp: list_all_iff list_ex_iff file_name_def)
qed

lemma check_cases_accepts:
  "check_cases I pr contract items errors = Inr [] \<longleftrightarrow> errors = [] \<and>
     (\<exists>schema claims. canonical_set I pr contract schema \<and> all_kept I contract schema items claims \<and>
        tidy contract (ascii ''fixtures'') (insert cases_file (claim_fixture ` set claims)) \<and>
        (\<forall>relative \<in> set CANONICAL_SCHEMAS. \<forall>valid.
           \<exists>p \<in> set claims. claim_schema p = relative \<and> claim_valid p = valid))"
    (is "_ \<longleftrightarrow> errors = [] \<and> (\<exists>schema claims. ?ok schema claims)")
proof (cases "check_cases I pr contract items errors")
  case (Inl e)
  then obtain c where "c \<in> set items" "overlong c" using check_cases_raises by blast
  then have "\<not> all_kept I contract schema items claims" for schema claims
    using kept_not_overlong unfolding all_kept_def by (metis in_set_conv_nth list_all2_conv_all_nth)
  then show ?thesis using Inl by simp
next
  case (Inr result)
  obtain errors1 schemas where load: "load_canonical_schemas I pr contract errors = Inr (errors1, schemas)"
    and acc: "holds_accepted pr schemas"
    and ok: "errors1 = [] \<longleftrightarrow> errors = [] \<and> (\<exists>f. canonical_set I pr contract f)"
    and docs: "\<And>f. canonical_set I pr contract f \<Longrightarrow> schemas = map (\<lambda>r. (r, Some (f r))) CANONICAL_SCHEMAS"
    using load_canonical_exact [of I pr contract errors] by (elim exE conjE) (rule that; blast)
  let ?st = "\<lparr>case_errors = errors1, case_names = [], fixture_paths = [], covered = []\<rparr>"
  obtain st errors2 discovered where
    run: "foldR (check_case I pr contract schemas) (enumerate 0 items) ?st = Inr st" and
    walk: "walk_inventory (ascii ''contract fixtures'') contract (ascii ''fixtures'') (case_errors st) = Inr (errors2, discovered)" and
    result: "result = bounded (errors2 @ map (\<lambda>p. ascii ''contract fixtures: orphaned file '' @ py_repr pr (as_posix p))
         (unexpected_files discovered (cases_file # fixture_paths st)) @ coverage_errors (covered st))"
    using Inr load by (auto simp: check_cases_def bindR_eq_Inr)
  have final: "result = [] \<longleftrightarrow> case_errors st = [] \<and>
      tidy contract (ascii ''fixtures'') (insert cases_file (set (fixture_paths st))) \<and>
      (\<forall>relative \<in> set CANONICAL_SCHEMAS. \<forall>valid. (relative, valid) \<in> set (covered st))"
    using walk_inventory_tidy [OF walk, of "insert cases_file (set (fixture_paths st))"]
    by (simp add: result bounded_Nil unexpected_Nil coverage_Nil) blast
  show ?thesis
  proof (cases "\<exists>f. canonical_set I pr contract f")
    case False
    then have "case_errors st \<noteq> []" using ok check_cases_keep [OF run] by auto
    then show ?thesis using False Inr final by auto
  next
    case True
    have cases: "(case_errors st = [] \<longleftrightarrow> errors1 = [] \<and> (\<exists>ps. all_kept I contract f items ps)) \<and>
        (\<forall>ps. all_kept I contract f items ps \<longrightarrow> all_claimed ps ?st st)"
      if "canonical_set I pr contract f" for f
      using check_cases_silent [OF docs [OF that] acc run] by simp
    have tables: "set (fixture_paths st) = claim_fixture ` set ps"
      "(relative, valid) \<in> set (covered st) \<longleftrightarrow> (\<exists>p \<in> set ps. claim_schema p = relative \<and> claim_valid p = valid)"
      if "canonical_set I pr contract f" "all_kept I contract f items ps" for f ps relative valid
      using cases [OF that(1)] that(2) by (auto simp: all_claimed_def)
    have "result = [] \<longleftrightarrow> errors = [] \<and> (\<exists>claims. ?ok f claims)" if f: "canonical_set I pr contract f" for f
    proof -
      have "case_errors st = [] \<longleftrightarrow> errors = [] \<and> (\<exists>ps. all_kept I contract f items ps)"
        using cases [OF f] ok f by blast
      moreover have "tidy contract (ascii ''fixtures'') (insert cases_file (set (fixture_paths st))) \<and>
          (\<forall>relative \<in> set CANONICAL_SCHEMAS. \<forall>valid. (relative, valid) \<in> set (covered st)) \<longleftrightarrow> ?ok f ps"
        if "all_kept I contract f items ps" for ps
        using that f by (simp add: tables [OF f that])
      ultimately show ?thesis using final by blast
    qed
    then show ?thesis using Inr True by auto
  qed
qed

end
