(* ===== verification/ContractOutput.thy ===== *)
theory ContractOutput
  imports Acceptance
begin

text \<open>
  What \<open>check_contract\<close> prints: bounded diagnostics without control characters, whatever the
  manifest, the schemas, the fixtures and the file names hold.
\<close>

subsection \<open>Plain diagnostics\<close>

definition plain_lines :: "messages \<Rightarrow> bool" where
  "plain_lines errors \<longleftrightarrow> list_all plain_text errors"

lemma plain_lines_simps [simp]:
  "plain_lines []" "plain_lines (m # errors) \<longleftrightarrow> plain_text m \<and> plain_lines errors"
  "plain_lines (errors @ ms) \<longleftrightarrow> plain_lines errors \<and> plain_lines ms"
  "plain_lines (report m errors) \<longleftrightarrow> plain_lines errors \<and> plain_text m"
  by (auto simp: plain_lines_def report_def)

lemma plain_lines_map: "(\<And>x. x \<in> set xs \<Longrightarrow> plain_text (f x)) \<Longrightarrow> plain_lines (map f xs)"
  by (auto simp: plain_lines_def list_all_iff)

lemma plain_report_if [simp]: "plain_lines (report_if b m errors) \<longleftrightarrow> plain_lines errors \<and> (b \<longrightarrow> plain_text m)"
  by (simp add: report_if_def)

text \<open>An ASCII literal is plain when its characters are.\<close>

lemma plain_ascii: "list_all (\<lambda>c. 32 \<le> (of_char c :: nat) \<and> (of_char c :: nat) < 127) s \<Longrightarrow> plain_text (ascii s)"
  by (auto simp: plain_text_def ascii_def list_all_iff is_control_def)

lemma plain_text_Cons [simp]: "plain_text []" "plain_text (c # s) \<longleftrightarrow> \<not> is_control c \<and> plain_text s"
  by (simp_all add: plain_text_def)

lemma plain_message: "json_exception e \<Longrightarrow> json_message e = Some m \<Longrightarrow> plain_text m"
  by (auto simp: json_exception_def)

lemma issues_plain:
  assumes "printable_table pr" and "issue \<in> set (schema_issues pr schema)"
  shows "plain_text issue"
  using schema_issues_lines [OF assms(1), of schema] assms(2)
  by (auto simp: issue_lines_def issue_line_def list_all_iff)

text \<open>The keyword of a reported violation is one of the profile's keywords.\<close>

lemma violates_keyword: "violates s v p x \<Longrightarrow> fst x \<in> set SUPPORTED_KEYWORDS"
  by (induction rule: violates.induct) (simp_all add: SUPPORTED_KEYWORDS_def)

lemma keywords_plain: "\<forall>k \<in> set SUPPORTED_KEYWORDS. plain_text k"
  by (simp add: SUPPORTED_KEYWORDS_def plain_ascii)

subsection \<open>The schema checks\<close>

lemma canonical_plain: "relative \<in> set CANONICAL_SCHEMAS \<Longrightarrow> plain_text (as_posix relative)"
  by (auto simp: canonical_paths(1) relative_path_def as_posix_def plain_ascii is_control_def)

lemma schema_label_plain:
  "relative \<in> set CANONICAL_SCHEMAS \<Longrightarrow> plain_text m \<Longrightarrow> plain_text (schema_label relative m)"
  by (simp add: schema_label_def canonical_plain plain_ascii)

lemma safe_file_plain:
  assumes "safe_file contract raw folder = Inr (Inl m)" and "plain_text (as_posix folder)"
  shows "plain_text m"
  using assms by (auto simp: safe_file_def Let_def bindR_eq_Inr plain_ascii split: pyval.splits if_splits)


lemma load_schema_plain:
  assumes "printable_table pr" and "relative \<in> set CANONICAL_SCHEMAS" and "plain_lines errors"
    and "load_schema I pr contract relative (errors, schemas) = Inr (errors', schemas')"
  shows "plain_lines errors'"
proof -
  obtain found where found: "safe_file contract (VStr (as_posix relative)) (relative_path [''schema'']) = Inr found"
    using assms(4) by (auto simp: load_schema_def bindR_eq_Inr)
  note run = assms(4) [unfolded load_schema_def found prod.case bindR_simps]
  have folder: "plain_text (as_posix (relative_path [''schema'']))"
    by (simp add: relative_path_def as_posix_def plain_ascii)
  show ?thesis
  proof (cases found)
    case (Inl m)
    then have "plain_text m" using found folder by (auto intro: safe_file_plain)
    then show ?thesis using run Inl assms(2,3) schema_label_plain by auto
  next
    case (Inr p)
    show ?thesis
    proof (cases "strict_json I (file_contents contract (path_parts p))")
      case (Inl e)
      then obtain m where "json_message e = Some m" "plain_text m"
        using json_message_error strict_json_error plain_message by blast
      then show ?thesis using run Inl Inr assms(2,3) schema_label_plain by auto
    next
      case document: (Inr s)
      show ?thesis using run Inr document assms(3)
        by (auto simp: Let_def canonical_plain [OF assms(2)] plain_ascii issues_plain [OF assms(1)] intro!: plain_lines_map)
    qed
  qed
qed

lemma visit_step_plain:
  assumes "plain_text label" and "plain_lines errors" and "visit_step label step (errors, discovered) = (errors', discovered')"
  shows "plain_lines errors'"
proof -
  obtain base ds fs where step: "step = (base, ds, fs)" by (cases step)
  have m: "plain_text (label @ ascii '': symlinked directories are not allowed'')"
    "plain_text (label @ ascii '': symlinked files are not allowed'')"
    using assms(1) by (simp_all add: plain_ascii)
  have 1: "plain_lines (fst (fold (\<lambda>(name, n) (errors, discovered). (report_if (is_link n) msg errors, discovered)) ds state))"
    if "plain_lines (fst state)" "plain_text msg" for state :: "messages \<times> path list" and msg
    using that by (induction ds arbitrary: state) (auto split: prod.splits)
  have 2: "plain_lines (fst (fold (\<lambda>(name, n) (errors, discovered). if is_link n then (report msg errors, discovered)
      else (errors, discovered @ [Path [] (base @ [name])])) fs state))"
    if "plain_lines (fst state)" "plain_text msg" for state :: "messages \<times> path list" and msg
    using that by (induction fs arbitrary: state) (auto split: prod.splits)
  have "plain_lines (fst (visit_step label step (errors, discovered)))"
    unfolding visit_step_def step prod.case using m assms(2) by (intro 1 2) simp_all
  then show ?thesis by (simp add: assms(3))
qed

lemma walk_inventory_plain:
  assumes "plain_text label" and "plain_lines errors"
    and "walk_inventory label contract name errors = Inr (errors', discovered)"
  shows "plain_lines errors'"
proof -
  have "plain_lines (fst (fold (visit_step label) steps state))" if "plain_lines (fst state)" for steps state
    using that
  proof (induction steps arbitrary: state)
    case (Cons step steps)
    have "plain_lines (fst (visit_step label step state))"
      using visit_step_plain [OF assms(1) Cons.prems, of step "snd state"] by (cases "visit_step label step state") simp
    then show ?case by (simp add: Cons.IH)
  qed simp
  then have "plain_lines (fst (fold (visit_step label) steps (errors, [])))" for steps using assms(2) by simp
  then show ?thesis using assms(2,3)
    by (auto simp: walk_inventory_def bindR_eq_Inr split: option.splits if_splits) (metis fst_conv)
qed

lemma check_canonical_schema_plain:
  assumes "printable_table pr" and "relative \<in> set CANONICAL_SCHEMAS" and "plain_lines errors"
    and "check_canonical_schema pr (relative, kvs, schema_id, kind) errors = Inr errors'"
  shows "plain_lines errors'"
proof -
  have rule: "plain_lines (check_field_rule pr relative required properties (field, c) errors)"
    if "plain_lines errors" "field \<in> {''version'', ''kind''}" for required properties field c errors
    using that schema_label_plain [OF assms(2)] plain_text_repr [OF assms(1)]
    by (auto simp: check_field_rule_def plain_ascii is_control_def)
  note label = schema_label_plain [OF assms(2)] plain_text_repr [OF assms(1)] plain_ascii
  obtain i h where ih: "dict_get kvs (ascii ''$id'') = Some i" "schema_validation_fingerprint (VDict kvs) = Inr h"
    using assms(4) by (auto simp: check_canonical_schema_def bindR_eq_Inr Let_def split: option.splits)
  define start where "start = report_if (Some h \<noteq> map_of V1_SCHEMA_VALIDATION_FINGERPRINTS relative)
      (schema_label relative (ascii ''validation rules must match the frozen v1 contract''))
      (report_if (i \<noteq> VStr schema_id) (schema_label relative (ascii ''$id must be '' @ py_repr pr schema_id)) errors)"
  have start: "plain_lines start" using assms(3) by (simp add: start_def label)
  note run = assms(4) [unfolded check_canonical_schema_def prod.case ih option.case bindR_simps Let_def, folded start_def]
  show ?thesis
  proof (cases "\<exists>required properties. get_or_none kvs ''required'' = VList required \<and> get_or_none kvs ''properties'' = VDict properties")
    case True
    then obtain required properties where "get_or_none kvs ''required'' = VList required"
      "get_or_none kvs ''properties'' = VDict properties" by blast
    then show ?thesis using run start by (auto simp: label rule split: if_splits)
  next
    case False
    then have "errors' = report (schema_label relative
        (ascii ''canonical root must be an object with properties and required'')) start"
      using run by (cases "get_or_none kvs ''required''"; cases "get_or_none kvs ''properties''") simp_all
    then show ?thesis using start by (simp add: label)
  qed
qed

lemma check_invariants_plain:
  assumes "printable_table pr" and "plain_lines errors"
    and "check_canonical_schema_invariants pr schemas errors = Inr errors'"
  shows "plain_lines errors'"
proof -
  have "plain_lines v" if "foldR (check_canonical_schema pr) (map (\<lambda>(relative, i, k).
      (relative, the (schema_entries schemas relative), i, k)) CANONICAL_SCHEMA_METADATA) u = Inr v" "plain_lines u" for u v
    using that(1) that(2)
  proof (rule foldR_invariant)
    fix x u v
    assume *: "x \<in> set (map (\<lambda>(relative, i, k). (relative, the (schema_entries schemas relative), i, k)) CANONICAL_SCHEMA_METADATA)"
      "plain_lines u" "check_canonical_schema pr x u = Inr v"
    then obtain relative kvs i k where x: "x = (relative, kvs, i, k)" "relative \<in> set CANONICAL_SCHEMAS"
      by (force simp: CANONICAL_SCHEMAS_def)
    show "plain_lines v" using check_canonical_schema_plain [OF assms(1) x(2) *(2)] *(3) x(1) by blast
  qed
  then show ?thesis using assms(2,3)
    by (auto simp: check_canonical_schema_invariants_def Let_def bindR_eq_Inr plain_ascii split: if_splits)
qed

lemma check_schema_parity_plain: "plain_lines errors \<Longrightarrow> plain_lines (check_schema_parity schemas errors)"
  by (simp add: check_schema_parity_def require_equal_def Let_def plain_ascii split: option.split)

lemma load_canonical_plain:
  assumes "printable_table pr" and "plain_lines errors" and "load_canonical_schemas I pr contract errors = Inr (errors', schemas)"
  shows "plain_lines errors'"
proof -
  obtain e1 e2 discovered e4 where
    1: "foldR (load_schema I pr contract) CANONICAL_SCHEMAS (errors, []) = Inr (e1, schemas)" and
    2: "walk_inventory (ascii ''contract schemas'') contract (ascii ''schema'') e1 = Inr (e2, discovered)" and
    3: "check_canonical_schema_invariants pr schemas (e2 @ map (\<lambda>p. ascii ''contract schemas: unexpected file '' @
      py_repr pr (as_posix p)) (unexpected_files discovered CANONICAL_SCHEMAS)) = Inr e4" and
    4: "errors' = check_schema_parity schemas e4"
    using assms(3) by (auto simp: load_canonical_schemas_def bindR_eq_Inr Let_def)
  have "plain_lines (fst (e1, schemas))"
    using 1
  proof (rule foldR_invariant)
    show "plain_lines (fst (errors, [] :: schema_map))" using assms(2) by simp
    fix x u v
    assume *: "x \<in> set CANONICAL_SCHEMAS" "plain_lines (fst u)" "load_schema I pr contract x u = Inr v"
    show "plain_lines (fst v)"
      using load_schema_plain [OF assms(1) *(1,2), of I contract "snd u" "fst v" "snd v"] *(3) by simp
  qed
  then have "plain_lines e2" using walk_inventory_plain [OF _ _ 2] by (simp add: plain_ascii)
  then have "plain_lines e4"
    by (intro check_invariants_plain [OF assms(1) _ 3])
      (auto simp: plain_ascii plain_text_repr [OF assms(1)] intro!: plain_lines_map)
  then show ?thesis unfolding 4 by (rule check_schema_parity_plain)
qed

subsection \<open>The cases\<close>

definition plain_state :: "case_state \<Rightarrow> bool" where
  "plain_state st \<longleftrightarrow> plain_lines (case_errors st)"

lemma plain_state_simps [simp]:
  "plain_state (say label m st) \<longleftrightarrow> plain_state st \<and> plain_text label \<and> plain_text (ascii m)"
  "plain_state (say_if b label m st) \<longleftrightarrow> plain_state st \<and> (b \<longrightarrow> plain_text label \<and> plain_text (ascii m))"
  "plain_state (say_text label t st) \<longleftrightarrow> plain_state st \<and> plain_text label \<and> plain_text t"
  "plain_state (st\<lparr>case_names := ns\<rparr>) \<longleftrightarrow> plain_state st"
  "plain_state (st\<lparr>fixture_paths := fs\<rparr>) \<longleftrightarrow> plain_state st"
  "plain_state (st\<lparr>covered := cs\<rparr>) \<longleftrightarrow> plain_state st"
  by (auto simp: plain_state_def say_def say_if_def say_text_def plain_ascii is_control_def)

lemma slug_plain: "slug name \<Longrightarrow> plain_text name"
  by (auto simp: slug_def plain_text_def list_all_iff slug_char_def is_control_def)

lemma check_name_plain:
  assumes "check_name label entries st = (label', st')" and "plain_text label" and "plain_state st"
  shows "plain_text label' \<and> plain_state st'"
  using assms slug_plain by (auto simp: check_name_def slug_iff plain_ascii split: pyval.splits if_splits)

lemma check_expected_plain:
  assumes "check_expected label valid entries st = (expected, st')" and "plain_text label" and "plain_state st"
  shows "plain_state st'"
  using assms by (auto simp: check_expected_def plain_ascii split: pyval.splits if_splits)

lemma judge_plain:
  assumes "printable_table pr" and "plain_text label" and "plain_state st"
    and "\<forall>x \<in> set violations. plain_text (fst x)"
  shows "plain_state (judge pr label valid expected violations st)"
  using assms by (cases violations) (auto simp: judge_def plain_ascii plain_text_repr)


lemma check_fixture_plain:
  assumes "printable_table pr" and "accepted pr schema" and "plain_text label" and "plain_state st"
    and "check_fixture I pr contract label valid expected schema fixture st = Inr st'"
  shows "plain_state st'"
proof (cases "strict_json I (file_contents contract (path_parts fixture))")
  case (Inl e)
  then consider m where "e = JSONDocumentError m" | m where "e = JSONArtifactError m" "plain_text m"
    using strict_json_error [OF Inl] by (auto simp: json_exception_def)
  then show ?thesis
  proof cases
    case 1
    then have "st' = judge pr label valid expected [(ascii ''json'', [])] st"
      using assms(5) Inl by (simp add: check_fixture_def)
    then show ?thesis using judge_plain [OF assms(1,3,4)] by (simp add: plain_ascii)
  next
    case 2
    then show ?thesis using assms(3-5) Inl by (auto simp: check_fixture_def plain_ascii)
  qed
next
  case (Inr v)
  have facts: "proper v" "proper schema" "schema_issues pr schema = []"
    using assms(2) exact_proper strict_json_exact(1) [OF Inr] by (auto simp: accepted_def)
  obtain ms where ms: "set ms = violation_set (denote schema) (denote v) []"
    "validate_instance v schema = Inr (take MAX_VIOLATIONS ms)" using violation_set_reported [OF facts] by blast
  have "plain_text (fst x)" if "x \<in> set (take MAX_VIOLATIONS ms)" for x
    using in_set_takeD [OF that] ms(1) violates_keyword keywords_plain unfolding violation_set_def by blast
  moreover have "st' = judge pr label valid expected (take MAX_VIOLATIONS ms) st"
    using assms(5) Inr ms(2) by (simp add: check_fixture_def)
  ultimately show ?thesis using judge_plain [OF assms(1,3,4)] by blast
qed

lemma say_path_error_plain:
  assumes "plain_text label" and "plain_text (ascii what)" and "\<And>m. found = Inl m \<Longrightarrow> plain_text m" and "plain_state st"
  shows "plain_state (say_path_error label what found st)"
  using assms by (cases found) (simp_all add: say_path_error_def message_of_def)

lemma check_paths_plain:
  assumes "printable_table pr" and "holds_accepted pr schemas" and "plain_text label" and "plain_state st"
    and "check_paths I pr contract schemas label valid expected entries st = Inr st'"
  shows "plain_state st'"
proof -
  let ?folder = "relative_path [''fixtures'', if valid then ''valid'' else ''invalid'']"
  obtain sfound ffound where found:
    "safe_file contract (get_or_none entries ''schema'') (relative_path [''schema'']) = Inr sfound"
    "safe_file contract (get_or_none entries ''fixture'') ?folder = Inr ffound"
    using assms(5) by (auto simp: check_paths_def bindR_eq_Inr)
  define mid where "mid = say_path_error label ''fixture '' ffound (say_path_error label ''schema '' sfound st)"
  have "plain_text (as_posix (relative_path [''schema'']))" "plain_text (as_posix ?folder)"
    by (simp_all add: relative_path_def as_posix_def plain_ascii is_control_def)
  then have mid: "plain_state mid"
    unfolding mid_def using found safe_file_plain assms(3,4)
    by (intro say_path_error_plain) (auto simp: plain_ascii)
  have acc: "accepted pr s" if "schema_at schemas r = Some s" for r s
    using assms(2) that by (auto simp: holds_accepted_def schema_at_def split: option.splits dest!: map_of_SomeD)
  note run = assms(5) [unfolded check_paths_def found bindR_simps Let_def, folded mid_def]
  show ?thesis
  proof (cases "\<exists>sp fp. sfound = Inr sp \<and> ffound = Inr fp")
    case False
    then show ?thesis using run mid by (auto split: sum.splits)
  next
    case True
    then obtain sp fp where p: "sfound = Inr sp" "ffound = Inr fp" by blast
    define start where "start = mid\<lparr>covered := (sp, valid) # covered mid\<rparr>"
    define flagged where "flagged = say_if (fp \<in> set (fixture_paths start)) label ''duplicate fixture path'' start"
    define ready where "ready = flagged\<lparr>fixture_paths := fp # fixture_paths flagged\<rparr>"
    have ready: "plain_state ready" using mid assms(3) by (simp add: start_def flagged_def ready_def plain_ascii)
    show ?thesis
    proof (cases "sp \<in> set CANONICAL_SCHEMAS")
      case False
      then show ?thesis using run mid assms(3) by (auto simp: p plain_ascii)
    next
      case True
      have "(case schema_at schemas sp of None \<Rightarrow> Inr ready
          | Some schema \<Rightarrow> check_fixture I pr contract label valid expected schema fp ready) = Inr st'"
        unfolding ready_def flagged_def start_def using run True by (simp add: p)
      then show ?thesis
        using ready by (auto split: option.splits dest!: acc intro: check_fixture_plain [OF assms(1) _ assms(3) ready])
    qed
  qed
qed

lemma check_case_plain:
  assumes "printable_table pr" and "holds_accepted pr schemas" and "plain_state st"
    and "check_case I pr contract schemas (i, c) st = Inr st'"
  shows "plain_state st'"
proof -
  let ?label = "ascii ''case['' @ py_str_nat i @ ascii '']''"
  have label: "plain_text ?label" by (simp add: plain_ascii plain_text_nat)
  show ?thesis
  proof (cases "\<exists>entries. c = VDict entries \<and> set case_required \<subseteq> set (dict_keys entries) \<and> set (dict_keys entries) \<subseteq> set case_allowed")
    case False
    then show ?thesis using assms(3,4) label by (auto simp: check_case_def Let_def plain_ascii split: pyval.splits if_splits)
  next
    case True
    then obtain entries where c: "c = VDict entries" "set case_required \<subseteq> set (dict_keys entries)"
      "set (dict_keys entries) \<subseteq> set case_allowed" by blast
    obtain label' st1 where 1: "check_name ?label entries st = (label', st1)" by (rule prod.exhaust)
    have p1: "plain_text label'" "plain_state st1" using check_name_plain [OF 1 label assms(3)] by auto
    show ?thesis
    proof (cases "\<exists>valid. get_or_none entries ''valid'' = VBool valid")
      case False
      then show ?thesis using assms(4) c 1 p1 by (auto simp: check_case_def Let_def plain_ascii split: pyval.splits)
    next
      case True
      then obtain valid where valid: "get_or_none entries ''valid'' = VBool valid" by blast
      obtain expected st3 where 3: "check_expected label' valid entries
          (say_if (bad_meaning entries) label' ''meaning must be a non-empty string when present'' st1) = (expected, st3)"
        by (rule prod.exhaust)
      have "plain_state st3" using check_expected_plain [OF 3 p1(1)] p1 by (simp add: plain_ascii)
      moreover have "check_paths I pr contract schemas label' valid expected entries st3 = Inr st'"
        using assms(4) c 1 3 valid by (simp add: check_case_def Let_def)
      ultimately show ?thesis using check_paths_plain [OF assms(1,2) p1(1)] by blast
    qed
  qed
qed

subsection \<open>check_contract\<close>

definition bounded_output :: "messages \<Rightarrow> bool" where
  "bounded_output errors \<longleftrightarrow> length errors \<le> MAX_ERRORS \<and> list_all (\<lambda>m. length m \<le> 500 \<and> plain_text m) errors"

lemma bounded_output_bounded: "plain_lines errors \<Longrightarrow> bounded_output (bounded errors)"
  by (auto simp: bounded_output_def bounded_def plain_lines_def list_all_iff plain_text_take dest: in_set_takeD)

lemma coverage_plain: "plain_lines (coverage_errors outcomes)"
  using canonical_plain by (auto simp: coverage_errors_def plain_lines_def list_all_iff plain_ascii)

lemma check_cases_output:
  assumes "printable_table pr" and "plain_lines errors" and "check_cases I pr contract items errors = Inr result"
  shows "bounded_output result"
proof -
  obtain errors1 schemas st errors2 discovered where
    load: "load_canonical_schemas I pr contract errors = Inr (errors1, schemas)" and
    run: "foldR (check_case I pr contract schemas) (enumerate 0 items)
      \<lparr>case_errors = errors1, case_names = [], fixture_paths = [], covered = []\<rparr> = Inr st" and
    walk: "walk_inventory (ascii ''contract fixtures'') contract (ascii ''fixtures'') (case_errors st) = Inr (errors2, discovered)" and
    result: "result = bounded (errors2 @ map (\<lambda>p. ascii ''contract fixtures: orphaned file '' @ py_repr pr (as_posix p))
         (unexpected_files discovered (cases_file # fixture_paths st)) @ coverage_errors (covered st))"
    using assms(3) by (auto simp: check_cases_def bindR_eq_Inr)
  have acc: "holds_accepted pr schemas" using load_canonical_exact [of I pr contract errors] load by auto
  have "plain_state st"
    using run
  proof (rule foldR_invariant)
    show "plain_state \<lparr>case_errors = errors1, case_names = [], fixture_paths = [], covered = []\<rparr>"
      using load_canonical_plain [OF assms(1,2) load] by (simp add: plain_state_def)
    show "plain_state v" if "plain_state u" "check_case I pr contract schemas x u = Inr v" for x u v
      using check_case_plain [OF assms(1) acc that(1), of I contract "fst x" "snd x"] that(2) by simp
  qed
  then have "plain_lines errors2"
    by (intro walk_inventory_plain [OF _ _ walk]) (simp_all add: plain_ascii plain_state_def)
  then show ?thesis unfolding result
    by (intro bounded_output_bounded)
      (auto simp: coverage_plain plain_ascii plain_text_repr [OF assms(1)] intro!: plain_lines_map)
qed

lemma check_contract_output:
  assumes "printable_table pr" and "check_contract I pr repository = Inr errors"
  shows "bounded_output errors"
proof (cases "strict_json I (file_contents (contract_node repository) (path_parts cases_file))")
  case (Inl e)
  then obtain m where "json_message e = Some m" "plain_text m" "length m \<le> 80"
    using strict_json_error [OF Inl] by (auto simp: json_exception_def)
  then show ?thesis using assms(2) Inl
    by (auto simp: check_contract_def bounded_output_def plain_ascii MAX_ERRORS_def)
next
  case (Inr manifest)
  have two: "bounded_output errors" if "errors \<in> {[a], [b, a]}" "plain_text a \<and> plain_text b \<and> length a \<le> 500 \<and> length b \<le> 500" for a b
    using that by (auto simp: bounded_output_def MAX_ERRORS_def)
  show ?thesis
  proof (cases "\<exists>entries items errors0. plain_lines errors0 \<and> check_cases I pr (contract_node repository) items errors0 = Inr errors")
    case True
    then show ?thesis using check_cases_output [OF assms(1)] by blast
  next
    case False
    then show ?thesis using assms(2) Inr
      by (fastforce simp: check_contract_def Let_def report_if_def report_def bounded_output_def MAX_ERRORS_def plain_ascii
          split: pyval.splits if_splits)
  qed
qed

end
