(* ===== verification/LoaderProperties.thy ===== *)
theory LoaderProperties
  imports StrictJson
begin

text \<open>The properties of the strict JSON loader.\<close>

subsection \<open>Sample files\<close>

definition ample :: interpreter where
  "ample = \<lparr>max_nesting = 900, max_hook_nesting = 900\<rparr>"

text \<open>The bytes of \<open>{"a":[-0.5,"\<dots>"]}\<close> with one character beyond ASCII, and a text that ends early.\<close>

definition sample_file :: "byte list option" where
  "sample_file = Some [123, 34, 97, 34, 58, 91, 45, 48, 46, 53, 44, 34, 195, 169, 34, 93, 125]"

definition broken_file :: "byte list option" where
  "broken_file = Some [91, 10, 49, 44]"

definition sample_document :: pyval where
  "sample_document = VDict [([97], VList [VDec (DFin True 5 (- 1)), VStr [233]])]"

lemmas loader_simps =
  strict_json_def MAX_JSON_BYTES_def utf8_decode.simps cont_def payload_def json_loads_def
  starts_with_def skip_space_def json_space_def ascii_def scan_numerals unique_object_def call_hook_def
  scan_atom_def scan_number_def scan_int_def scan_frac_def scan_exp_def is_digit_def exact_decimal_def
  digit_values_def numeral_exponent_def decimal_in_range_def decimal_min_exponent_def
  decimal_max_exponent_def dict_has_def require_unicode_scalars_def surrogate_def MAX_NESTING_DEPTH_def
  digits10.simps ample_def

lemma sample_file_loads: "strict_json ample sample_file = Inr sample_document"
  by (simp add: sample_file_def sample_document_def loader_simps Let_def)

lemma broken_file_fails:
  "strict_json ample broken_file = Inl (document_error ''invalid JSON syntax at line 2, column 3'')"
  by (simp add: broken_file_def loader_simps document_error_def line_number_def column_number_def
      py_str_nat_def Let_def)

text \<open>C12: whatever \<open>strict_json\<close> returns has no key twice in an object, only finite exact decimals as
  numbers, only Unicode scalar values in its strings and keys, and at most 128 levels of nesting.\<close>

theorem strict_json_loads_exact:
  assumes "strict_json I file = Inr v"
  shows "exact_val v \<and> tame 0 v"
  using strict_json_exact [OF assms] by blast

theorem strict_json_loads_exact_witness: "exact_val sample_document \<and> tame 0 sample_document"
  using strict_json_loads_exact [OF sample_file_loads] .

text \<open>C23: \<open>strict_json\<close> raises nothing but \<open>JSONDocumentError\<close> and its subclass
  \<open>JSONArtifactError\<close>, on every file and under every interpreter limit.\<close>

theorem strict_json_error_kinds:
  assumes "strict_json I file = Inl e"
  shows "\<exists>m. e = JSONDocumentError m \<or> e = JSONArtifactError m"
  using strict_json_error [OF assms] by (auto simp: json_exception_def)

theorem strict_json_error_kinds_witness:
  "\<exists>m. document_error ''invalid JSON syntax at line 2, column 3'' = JSONDocumentError m \<or>
     document_error ''invalid JSON syntax at line 2, column 3'' = JSONArtifactError m"
  using strict_json_error_kinds [OF broken_file_fails] .

text \<open>C24: a file beyond the size limit is refused as an artifact, whatever it holds; a document that is
  returned was read from the whole file, which is within the limit and is the UTF-8 encoding of the
  text that was scanned.\<close>

theorem strict_json_reads_whole_file:
  assumes "strict_json I (Some contents) = r"
  shows "(MAX_JSON_BYTES < length contents \<longrightarrow>
      r = Inl (artifact_error ''JSON document exceeds the checker size limit'')) \<and>
    (r = Inr v \<longrightarrow> length contents \<le> MAX_JSON_BYTES \<and>
      (\<exists>s. utf8_encode s = contents \<and> json_loads I s = Inr v))"
proof (intro conjI impI)
  assume "MAX_JSON_BYTES < length contents"
  then show "r = Inl (artifact_error ''JSON document exceeds the checker size limit'')"
    using assms by (simp add: strict_json_def Let_def)
next
  assume "r = Inr v"
  then have loaded: "strict_json I (Some contents) = Inr v" using assms by simp
  then have len: "\<not> MAX_JSON_BYTES < length (take (MAX_JSON_BYTES + 1) contents)"
    by (auto simp: strict_json_def Let_def simp del: length_take split: if_splits)
  then show size: "length contents \<le> MAX_JSON_BYTES" by simp
  then have "take (MAX_JSON_BYTES + 1) contents = contents" by simp
  then obtain s where s: "utf8_decode contents = Some s" "json_loads I s = Inr v"
    using loaded len by (auto simp: strict_json_def Let_def bindR_eq_Inr split: option.splits sum.splits if_splits)
  then show "\<exists>s. utf8_encode s = contents \<and> json_loads I s = Inr v" using utf8_encode_decode by blast
qed

theorem strict_json_reads_whole_file_witness:
  "\<exists>s. utf8_encode s = [49] \<and> json_loads ample s = Inr (VDec (DFin False 1 0))"
  using strict_json_reads_whole_file [of ample "[49]" "Inr (VDec (DFin False 1 0))" "VDec (DFin False 1 0)"]
  by (simp add: loader_simps Let_def)

end
