(* ===== verification/CheckerProperties.thy ===== *)
theory CheckerProperties
  imports ContractOutput LoaderProperties
begin

text \<open>
  The properties of the contract check as a whole: what \<open>safe_file\<close> admits, what \<open>check_contract\<close>
  accepts, prints and raises, and the exit status of \<open>main\<close>.
\<close>

subsection \<open>A path with a part too long for a file name\<close>

lemma no_link_before:
  assumes "follow n = Some d" and "plain_lookup d (current @ parts) = Some t" and "\<not> is_link t"
    and "list_all file_name (current @ parts)"
  shows "link_on_path n current parts = Inr False"
  using assms(2-)
proof (induction parts arbitrary: current)
  case (Cons part parts)
  obtain m where m: "plain_lookup d (current @ [part]) = Some m" "plain_lookup m parts = Some t"
    using Cons.prems(1) plain_lookup_append [of d "current @ [part]" parts] by (auto split: option.splits)
  then have "\<not> is_link m" using Cons.prems(2) by (cases parts; cases m) auto
  moreover have "lstat n (current @ [part]) = Inr (Some m)"
    using resolve_plain [OF assms(1) m(1)] Cons.prems(3) file_name_null [of "current @ [part]"]
    by (simp add: lstat_def)
  ultimately have "is_symlink n (current @ [part]) = Inr False" by (cases m) (simp_all add: is_symlink_def)
  then show ?case using Cons.IH [of "current @ [part]"] Cons.prems by simp
qed simp

lemma link_on_path_append:
  "link_on_path n current (ps @ qs) =
     bindR (link_on_path n current ps) (\<lambda>link. if link then Inr True else link_on_path n (current @ ps) qs)"
proof (induction ps arbitrary: current)
  case (Cons p ps)
  show ?case
    using Cons.IH [of "current @ [p]", unfolded append_assoc append.simps]
    by (cases "is_symlink n (current @ [p])") simp_all
qed simp

text \<open>A folder of the contract: a directory reached through directories.\<close>

definition stored_folder :: "node \<Rightarrow> path \<Rightarrow> bool" where
  "stored_folder contract folder \<longleftrightarrow>
     (\<exists>d es. follow contract = Some d \<and> plain_lookup d (path_parts folder) = Some (Directory es))"

definition long_name :: "ustring \<Rightarrow> bool" where
  "long_name name \<longleftrightarrow> 47 \<notin> set name \<and> 0 \<notin> set name \<and> name_too_long name"

lemma long_name_shape: "long_name name \<Longrightarrow> name \<noteq> [] \<and> name \<noteq> ascii ''.'' \<and> name \<noteq> ascii ''..''"
  using ascii_file_name [of "''.''"] ascii_file_name [of "''..''"]
  by (auto simp: long_name_def name_too_long_def file_name_def utf8_encode_def)

lemma join_with_snoc: "ps \<noteq> [] \<Longrightarrow> join_with sep (ps @ [p]) = join_with sep ps @ sep @ p"
  by (induction sep ps rule: join_with.induct) (auto simp: neq_Nil_conv)

lemma safe_file_long:
  assumes "stored_folder contract folder" and "normal_path (as_posix folder) folder" and "path_parts folder \<noteq> []"
    and "list_all file_name (path_parts folder)" and "long_name name"
    and "length (as_posix folder) + length name < MAX_PATH_LENGTH"
  shows "safe_file contract (VStr (as_posix folder @ [47] @ name)) folder = Inl OSError"
proof -
  let ?p = "Path [] (path_parts folder @ [name])"
  obtain d es where d: "follow contract = Some d" "plain_lookup d (path_parts folder) = Some (Directory es)"
    using assms(1) by (auto simp: stored_folder_def)
  have "as_posix ?p = as_posix folder @ [47] @ name"
    using assms(2,3) by (simp add: as_posix_def normal_path_def join_with_snoc)
  then have normal: "normal_path (as_posix folder @ [47] @ name) ?p"
    using assms(2) long_name_shape [OF assms(5)] assms(5) by (auto simp: normal_path_def long_name_def)
  then have p: "parse_path (as_posix folder @ [47] @ name) = ?p" by (rule normal_path_parse)
  have under: "is_under folder ?p" using assms(2) by (simp add: is_under_def normal_path_def)
  have "resolve contract (path_parts folder) = Inr (Some (Directory es))"
    using resolve_plain [OF d assms(4)] assms(3) by simp
  then have "resolve contract (path_parts folder @ [name]) = Inl OSError"
    using assms(5) by (simp add: resolve_append long_name_def)
  then have "is_symlink contract (path_parts folder @ [name]) = Inl OSError"
    using file_name_null [OF assms(4)] assms(5) by (simp add: is_symlink_def lstat_def long_name_def)
  then have "link_on_path contract [] (path_parts folder @ [name]) = Inl OSError"
    using no_link_before [OF d(1), of "[]" "path_parts folder" "Directory es"] d(2) assms(4)
    by (simp add: link_on_path_append)
  moreover have "\<not> is_absolute ?p \<and> as_posix ?p = as_posix folder @ [47] @ name \<and> ascii ''..'' \<notin> set (path_parts ?p)"
    using normal normal_path_iff by blast
  ultimately show ?thesis using assms(6) under p
    by (simp add: safe_file_def Let_def del: append_assoc append.simps)
qed


text \<open>One such fixture path in the manifest makes the whole check raise.\<close>

lemma fixture_folder_facts:
  "normal_path (as_posix (fixture_folder v)) (fixture_folder v)" "path_parts (fixture_folder v) \<noteq> []"
  "list_all file_name (path_parts (fixture_folder v))"
proof -
  have parts: "path_parts (fixture_folder v) = [ascii ''fixtures'', ascii (if v then ''valid'' else ''invalid'')]"
    by (simp add: fixture_folder_def relative_path_def)
  have "file_name (ascii ''fixtures'')" "file_name (ascii (if v then ''valid'' else ''invalid''))"
    by (rule ascii_file_name; simp)+
  then show "list_all file_name (path_parts (fixture_folder v))" by (simp add: parts)
  show "path_parts (fixture_folder v) \<noteq> []" by (simp add: parts)
  have "ascii (if v then ''valid'' else ''invalid'') \<notin> {[], ascii ''.'', ascii ''..''} \<and>
      47 \<notin> set (ascii (if v then ''valid'' else ''invalid''))" by (simp add: ascii_def)
  then show "normal_path (as_posix (fixture_folder v)) (fixture_folder v)"
    by (simp add: normal_path_def parts) (simp add: fixture_folder_def relative_path_def ascii_def)
qed

lemma foldR_raises_some:
  assumes "x \<in> set xs" and "\<And>s t. f x s \<noteq> Inr t"
  shows "foldR f xs s \<noteq> Inr t"
  using assms(1)
proof (induction xs arbitrary: s)
  case (Cons y ys)
  then show ?case using assms(2) by (cases "y = x") (auto simp: bindR_eq_Inr)
qed simp

lemma check_case_long:
  assumes "c = VDict entries" and "set case_required \<subseteq> set (dict_keys entries)"
    and "set (dict_keys entries) \<subseteq> set case_allowed" and "get_or_none entries ''valid'' = VBool valid"
    and "safe_file contract (get_or_none entries ''fixture'') (fixture_folder valid) = Inl e"
  shows "check_case I pr contract schemas (i, c) st \<noteq> Inr st'"
proof
  assume run: "check_case I pr contract schemas (i, c) st = Inr st'"
  have raises: "check_paths I pr contract schemas label valid expected entries st1 \<noteq> Inr st'" for label expected st1
    using assms(5) by (auto simp: check_paths_def fixture_folder_def bindR_eq_Inr)
  show False using run assms(1-4) raises
    by (cases "check_name (ascii ''case['' @ py_str_nat i @ ascii '']'') entries st")
      (auto simp: check_case_def Let_def split: prod.splits)
qed

lemma check_contract_cases:
  assumes "strict_json I (file_contents (contract_node repository) (path_parts cases_file)) = Inr (VDict entries)"
    and "set (dict_keys entries) = {ascii ''version'', ascii ''cases''}"
    and "get_or_none entries ''cases'' = VList items" and "items \<noteq> []"
  shows "\<exists>errors. check_contract I pr repository = check_cases I pr (contract_node repository) items errors \<and>
    (errors = [] \<longleftrightarrow> get_or_none entries ''version'' = VStr (ascii ''v1''))"
  using assms by (auto simp: check_contract_def Let_def report_if_def report_def)

lemma check_cases_long:
  assumes "c \<in> set items" and "\<And>i schemas st st'. check_case I pr contract schemas (i, c) st \<noteq> Inr st'"
  shows "check_cases I pr contract items errors = Inl OSError"
proof -
  have "\<exists>i. (i, c) \<in> set (enumerate 0 items)"
  proof -
    obtain k where "k < length items" "c = items ! k" using assms(1) by (metis in_set_conv_nth)
    then have "(k, c) \<in> set (enumerate 0 items)" unfolding in_set_enumerate_eq by simp
    then show ?thesis ..
  qed
  then have "foldR (check_case I pr contract schemas) (enumerate 0 items) st \<noteq> Inr st'" for schemas st st'
    using assms(2) foldR_raises_some by metis
  then have "check_cases I pr contract items errors \<noteq> Inr result" for result
    by (auto simp: check_cases_def bindR_eq_Inr)
  then show ?thesis using check_cases_raises by (cases "check_cases I pr contract items errors") auto
qed

subsection \<open>check_contract\<close>

lemma check_accepts:
  "check_contract I pr repository = Inr [] \<longleftrightarrow> sound_corpus I pr (contract_node repository)"
proof (cases "\<exists>entries items. strict_json I (file_contents (contract_node repository) (path_parts cases_file)) = Inr (VDict entries) \<and>
    set (dict_keys entries) = {ascii ''version'', ascii ''cases''} \<and>
    get_or_none entries ''cases'' = VList items \<and> items \<noteq> []")
  case True
  then obtain entries items where m:
    "strict_json I (file_contents (contract_node repository) (path_parts cases_file)) = Inr (VDict entries)"
    "set (dict_keys entries) = {ascii ''version'', ascii ''cases''}"
    "get_or_none entries ''cases'' = VList items" "items \<noteq> []" by blast
  obtain errors where run: "check_contract I pr repository = check_cases I pr (contract_node repository) items errors"
    and version: "errors = [] \<longleftrightarrow> get_or_none entries ''version'' = VStr (ascii ''v1'')"
    using check_contract_cases [OF m] by blast
  have entries: "entries' = entries \<and> items' = items"
    if "strict_json I (file_contents (contract_node repository) (path_parts cases_file)) = Inr (VDict entries')"
      "get_or_none entries' ''cases'' = VList items'" for entries' items'
    using that m by simp
  show ?thesis
    unfolding run check_cases_accepts version sound_corpus_def using m entries by blast
next
  case False
  then have "\<not> sound_corpus I pr (contract_node repository)" unfolding sound_corpus_def by blast
  moreover have "check_contract I pr repository \<noteq> Inr []"
    using False by (auto simp: check_contract_def Let_def split: sum.splits option.splits pyval.splits if_splits)
  ultimately show ?thesis by simp
qed

lemma raises_only:
  "(\<exists>errors. check_contract I pr repository = Inr errors) \<or>
     check_contract I pr repository = Inl OSError \<and>
     (\<exists>entries items c. strict_json I (file_contents (contract_node repository) (path_parts cases_file)) = Inr (VDict entries) \<and>
        get_or_none entries ''cases'' = VList items \<and> c \<in> set items \<and> overlong c)"
proof (cases "\<exists>entries items. strict_json I (file_contents (contract_node repository) (path_parts cases_file)) = Inr (VDict entries) \<and>
    set (dict_keys entries) = {ascii ''version'', ascii ''cases''} \<and>
    get_or_none entries ''cases'' = VList items \<and> items \<noteq> []")
  case True
  then obtain entries items where m:
    "strict_json I (file_contents (contract_node repository) (path_parts cases_file)) = Inr (VDict entries)"
    "set (dict_keys entries) = {ascii ''version'', ascii ''cases''}"
    "get_or_none entries ''cases'' = VList items" "items \<noteq> []" by blast
  obtain errors where run: "check_contract I pr repository = check_cases I pr (contract_node repository) items errors"
    using check_contract_cases [OF m] by blast
  show ?thesis
  proof (cases "check_cases I pr (contract_node repository) items errors")
    case (Inl e)
    then obtain c where "e = OSError" "c \<in> set items" "overlong c" using check_cases_raises by blast
    then show ?thesis using run Inl m by auto
  qed (simp add: run)
next
  case False
  have "\<exists>errors. check_contract I pr repository = Inr errors"
  proof (cases "strict_json I (file_contents (contract_node repository) (path_parts cases_file))")
    case (Inl e)
    then show ?thesis using json_message_error [OF Inl] by (auto simp: check_contract_def)
  next
    case (Inr manifest)
    then show ?thesis using False by (auto simp: check_contract_def Let_def split: pyval.split)
  qed
  then show ?thesis ..
qed

subsection \<open>Sample repositories\<close>

lemma replicate_numeral: "replicate (numeral k) x = x # replicate (pred_numeral k) x"
  by (simp add: numeral_eq_Suc)

definition long_text :: ustring where
  "long_text = ascii ''{\"version\":\"v1\",\"cases\":[{\"name\":\"a\",\"schema\":\"s\",\"fixture\":\"fixtures/valid/'' @
     replicate 64 128512 @ ascii ''\",\"valid\":true}]}''"

definition long_case :: entries where
  "long_case = [(ascii ''name'', VStr (ascii ''a'')), (ascii ''schema'', VStr (ascii ''s'')),
     (ascii ''fixture'', VStr (ascii ''fixtures/valid/'' @ replicate 64 128512)), (ascii ''valid'', VBool True)]"

definition long_manifest :: entries where
  "long_manifest = [(ascii ''version'', VStr (ascii ''v1'')), (ascii ''cases'', VList [VDict long_case])]"

lemma long_text_loads: "json_loads ample long_text = Inr (VDict long_manifest)"
  by (simp add: loader_simps long_text_def long_case_def long_manifest_def replicate_numeral)

lemma utf8_encode_length: "length (utf8_encode s) \<le> 4 * length s"
  by (induction s) (simp_all add: utf8_encode_def utf8_char_def)

lemma long_manifest_file: "strict_json ample (Some (utf8_encode long_text)) = Inr (VDict long_manifest)"
proof -
  have "list_all scalar long_text" by (simp add: long_text_def ascii_def scalar_def list_all_iff)
  then have decode: "utf8_decode (utf8_encode long_text) = Some long_text" by (rule utf8_decode_encode)
  have "length long_text \<le> 200" by (simp add: long_text_def)
  then have "length (utf8_encode long_text) \<le> MAX_JSON_BYTES"
    using utf8_encode_length [of long_text] by (simp add: MAX_JSON_BYTES_def)
  moreover have "require_unicode_scalars (VDict long_manifest) = Inr ()"
    by (simp add: loader_simps long_manifest_def long_case_def replicate_numeral)
  ultimately show ?thesis using decode long_text_loads by (simp add: strict_json_def Let_def)
qed

definition long_repository :: node where
  "long_repository = Directory [(ascii ''gateway'', Directory [(ascii ''contracts'', Directory
     [(ascii ''model-turn'', Directory [(ascii ''v1'', Directory [(ascii ''fixtures'', Directory
        [(ascii ''cases.json'', RegularFile (Some (utf8_encode long_text))), (ascii ''valid'', Directory [])])])])])])]"

definition long_contract :: node where
  "long_contract = Directory [(ascii ''fixtures'', Directory
     [(ascii ''cases.json'', RegularFile (Some (utf8_encode long_text))), (ascii ''valid'', Directory [])])]"

lemma contract_parts_named: "list_all file_name (path_parts CONTRACT_RELATIVE)" "list_all file_name (path_parts cases_file)"
proof -
  have "file_name (ascii f)" if "f \<in> {''gateway'', ''contracts'', ''model-turn'', ''v1'', ''fixtures'', ''cases.json''}" for f
    by (rule ascii_file_name) (use that in auto)
  then show "list_all file_name (path_parts CONTRACT_RELATIVE)" "list_all file_name (path_parts cases_file)"
    by (simp_all add: CONTRACT_RELATIVE_def cases_file_def relative_path_def)
qed

lemma stored_node:
  assumes "follow n = Some d" and "plain_lookup d ps = Some t" and "list_all file_name ps" and "ps \<noteq> []"
  shows "lstat n ps = Inr (Some t)"
  using resolve_plain [OF assms(1-3)] file_name_null [OF assms(3)] assms(4) by (simp add: lstat_def)

lemma long_repository_contract: "contract_node long_repository = long_contract"
  using stored_node [of long_repository long_repository "path_parts CONTRACT_RELATIVE" long_contract] contract_parts_named(1)
  by (simp add: contract_node_def long_repository_def long_contract_def CONTRACT_RELATIVE_def relative_path_def)

lemma long_contract_cases: "file_contents long_contract (path_parts cases_file) = Some (utf8_encode long_text)"
  using stored_file_contents(2) [of long_contract "path_parts cases_file" "Some (utf8_encode long_text)"]
    contract_parts_named(2)
  by (simp add: stored_file_def long_contract_def cases_file_def relative_path_def)

text \<open>An empty repository: there is no manifest to read.\<close>

lemma empty_manifest:
  "strict_json I (file_contents (contract_node (Directory [])) (path_parts cases_file)) =
     Inl (artifact_error ''unable to read JSON document'')"
proof -
  have "contract_node (Directory []) = Link None"
    by (simp add: contract_node_def lstat_def split: sum.split option.split)
      (use contract_parts_named(1) in \<open>auto simp: CONTRACT_RELATIVE_def relative_path_def file_name_def\<close>)
  moreover have "file_contents (Link None) (path_parts cases_file) = None"
    using contract_parts_named(2) by (simp add: file_contents_def lstat_def cases_file_def relative_path_def)
  ultimately show ?thesis by (simp add: strict_json_def)
qed

lemma empty_repository:
  "check_contract I pr (Directory []) = Inr [ascii ''contract cases: unable to read JSON document'']"
  by (simp add: check_contract_def empty_manifest artifact_error_def ascii_append [symmetric])

subsection \<open>Properties\<close>

text \<open>C6: \<open>safe_file\<close> returns a path exactly when the manifest's string is its one normalized spelling,
  of at most 240 characters, below the wanted folder, and a regular file is stored there in the
  contract directory itself, reached through directories and through no link.\<close>

theorem safe_file_admits_exactly:
  "safe_file contract raw_path folder = Inr (Inr p) \<longleftrightarrow> admitted contract folder raw_path p"
  by (rule safe_file_admitted)

text \<open>C25: what is read under an admitted path is the content of the file stored in the contract: no
  link is followed, so no file outside the contract directory is read.\<close>

theorem admitted_reads_stored_file:
  assumes "safe_file contract raw_path folder = Inr (Inr p)"
  shows "\<exists>c. stored_file contract (path_parts p) c \<and> file_contents contract (path_parts p) = c \<and>
    is_under folder p \<and> ascii ''..'' \<notin> set (path_parts p)"
  using assms stored_file_contents(2) unfolding safe_file_admitted
  by (fastforce simp: admitted_def normal_path_def)

theorem admitted_reads_stored_file_witness:
  "\<exists>c. stored_file long_contract [ascii ''fixtures'', ascii ''cases.json''] c \<and>
     file_contents long_contract [ascii ''fixtures'', ascii ''cases.json''] = c"
proof -
  have "admitted long_contract (relative_path [''fixtures'']) (VStr (ascii ''fixtures/cases.json'')) cases_file"
    using contract_parts_named(2)
    by (auto simp: admitted_def normal_path_def cases_file_def relative_path_def as_posix_def is_under_def
        MAX_PATH_LENGTH_def stored_file_def long_contract_def ascii_def)
  then show ?thesis
    using admitted_reads_stored_file [of long_contract "VStr (ascii ''fixtures/cases.json'')"
        "relative_path [''fixtures'']" cases_file]
    by (auto simp: safe_file_admitted cases_file_def relative_path_def)
qed

text \<open>C13: \<open>load_canonical_schemas\<close> never raises; the schemas it passes on to the cases are exact documents
  that the profile check accepted; it adds no diagnostic exactly when the three schema files are stored,
  in the profile, with the frozen fingerprints and framing fields, share their common rules and are alone
  in their directory.\<close>

theorem load_canonical_schemas_exact:
  "\<exists>errors' schemas. load_canonical_schemas I pr contract errors = Inr (errors', schemas) \<and>
     holds_accepted pr schemas \<and>
     (errors' = [] \<longleftrightarrow> errors = [] \<and> (\<exists>schema. canonical_set I pr contract schema))"
  using load_canonical_exact [of I pr contract errors] by blast

text \<open>C2: \<open>check_contract\<close> accepts a repository exactly when its contract is a sound corpus: a version 1
  manifest, the canonical schemas, cases with distinct names and fixtures that each keep what they
  promise, no other file or link below \<open>fixtures\<close>, and both outcomes for every schema.\<close>

theorem check_contract_accepts_iff:
  "check_contract I pr repository = Inr [] \<longleftrightarrow> sound_corpus I pr (contract_node repository)"
  by (rule check_accepts)


text \<open>C26: \<open>check_contract\<close> returns its diagnostics, or it raises \<open>OSError\<close>, and then some case of the
  manifest gives a path of at most 240 characters with a part of more than 255 bytes.\<close>

theorem check_contract_raises_only_on_long_names:
  "(\<exists>errors. check_contract I pr repository = Inr errors) \<or>
     check_contract I pr repository = Inl OSError \<and>
     (\<exists>entries items c. strict_json I (file_contents (contract_node repository) (path_parts cases_file)) = Inr (VDict entries) \<and>
        get_or_none entries ''cases'' = VList items \<and> c \<in> set items \<and> overlong c)"
  by (rule raises_only)

text \<open>C27: a well-formed case whose fixture path lies in the fixture folder and names a file of more than
  255 bytes makes \<open>check_contract\<close> raise \<open>OSError\<close> instead of reporting the case, although the path keeps
  the limit of 240 characters.\<close>

theorem long_fixture_name_raises:
  assumes "strict_json I (file_contents (contract_node repository) (path_parts cases_file)) = Inr (VDict entries)"
    and "set (dict_keys entries) = {ascii ''version'', ascii ''cases''}"
    and "get_or_none entries ''cases'' = VList items" and "VDict c \<in> set items"
    and "set case_required \<subseteq> set (dict_keys c)" and "set (dict_keys c) \<subseteq> set case_allowed"
    and "get_or_none c ''valid'' = VBool valid" and "stored_folder (contract_node repository) (fixture_folder valid)"
    and "get_or_none c ''fixture'' = VStr (as_posix (fixture_folder valid) @ [47] @ name)"
    and "long_name name" and "length (as_posix (fixture_folder valid)) + length name < MAX_PATH_LENGTH"
  shows "check_contract I pr repository = Inl OSError"
proof -
  have "items \<noteq> []" using assms(4) by auto
  then obtain errors where run: "check_contract I pr repository = check_cases I pr (contract_node repository) items errors"
    using check_contract_cases [OF assms(1-3)] by blast
  have "safe_file (contract_node repository) (get_or_none c ''fixture'') (fixture_folder valid) = Inl OSError"
    unfolding assms(9) using assms(8) fixture_folder_facts assms(10,11) by (intro safe_file_long)
  then have "check_case I pr (contract_node repository) schemas (i, VDict c) st \<noteq> Inr st'" for schemas i st st'
    using assms(5-7) by (intro check_case_long) auto
  then show ?thesis unfolding run using assms(4) by (rule check_cases_long [rotated])
qed

theorem long_fixture_name_raises_witness: "check_contract ample (\<lambda>c. False) long_repository = Inl OSError"
proof (rule long_fixture_name_raises)
  show "strict_json ample (file_contents (contract_node long_repository) (path_parts cases_file)) = Inr (VDict long_manifest)"
    by (simp add: long_repository_contract long_contract_cases long_manifest_file)
  show "set (dict_keys long_manifest) = {ascii ''version'', ascii ''cases''}" by (simp add: long_manifest_def)
  show "get_or_none long_manifest ''cases'' = VList [VDict long_case]" by (simp add: get_or_none_def long_manifest_def)
  show "VDict long_case \<in> set [VDict long_case]" by simp
  show "set case_required \<subseteq> set (dict_keys long_case)" "set (dict_keys long_case) \<subseteq> set case_allowed"
    by (simp_all add: case_required_def case_allowed_def long_case_def)
  show "get_or_none long_case ''valid'' = VBool True" by (simp add: get_or_none_def long_case_def)
  show "stored_folder (contract_node long_repository) (fixture_folder True)"
    by (simp add: stored_folder_def long_repository_contract long_contract_def fixture_folder_def relative_path_def)
  show "get_or_none long_case ''fixture'' = VStr (as_posix (fixture_folder True) @ [47] @ replicate 64 128512)"
    by (simp add: get_or_none_def long_case_def fixture_folder_def relative_path_def as_posix_def ascii_def)
  show "long_name (replicate 64 128512)"
    by (simp add: long_name_def name_too_long_def utf8_encode_def utf8_char_def replicate_numeral)
  show "length (as_posix (fixture_folder True)) + length (replicate 64 (128512 :: nat)) < MAX_PATH_LENGTH"
    by (simp add: fixture_folder_def relative_path_def as_posix_def MAX_PATH_LENGTH_def)
qed

text \<open>C28: whatever the repository holds, \<open>check_contract\<close> returns at most fifty diagnostics of at most
  five hundred characters, none with a control character, as long as \<open>str.isprintable\<close> is false on
  control characters.\<close>

theorem check_contract_bounded_output:
  assumes "printable_table pr" and "check_contract I pr repository = Inr errors"
  shows "length errors \<le> 50 \<and> (\<forall>m \<in> set errors. length m \<le> 500 \<and> (\<forall>c \<in> set m. \<not> is_control c))"
  using check_contract_output [OF assms]
  by (auto simp: bounded_output_def MAX_ERRORS_def list_all_iff plain_text_def)

theorem check_contract_bounded_output_witness:
  "length (ascii ''contract cases: unable to read JSON document'') \<le> 500"
  using check_contract_bounded_output [of "\<lambda>c. False", OF _ empty_repository] by (simp add: printable_table_def)

text \<open>C29: the exit status of \<open>main\<close> is 2 exactly when it is given an argument, and 0 exactly when it is
  given none and the contract is a sound corpus; a failure prints the bounded diagnostics.\<close>

theorem main_exit_status:
  assumes "printable_table pr" and "main I pr repository arguments = Inr result"
  shows "(status result = 2 \<longleftrightarrow> arguments \<noteq> []) \<and>
    (status result = 0 \<longleftrightarrow> arguments = [] \<and> sound_corpus I pr (contract_node repository)) \<and>
    status result \<in> {0, 1, 2} \<and> bounded_output (stderr result)"
proof (cases "arguments = []")
  case True
  then obtain errors where errors: "check_contract I pr repository = Inr errors"
    using assms(2) by (auto simp: main_def bindR_eq_Inr)
  have "errors = [] \<longleftrightarrow> sound_corpus I pr (contract_node repository)"
    using check_accepts [of I pr repository] errors by auto
  then show ?thesis using assms(2) True errors check_contract_output [OF assms(1) errors]
    by (auto simp: main_def bounded_output_def)
next
  case False
  then show ?thesis using assms(2)
    by (auto simp: main_def bounded_output_def MAX_ERRORS_def plain_ascii)
qed

theorem main_exit_status_witness: "\<not> sound_corpus ample (\<lambda>c. False) (contract_node (Directory []))"
  using main_exit_status [of "\<lambda>c. False" ample "Directory []" "[]"
      "\<lparr>status = 1, stdout = [], stderr = [ascii ''contract cases: unable to read JSON document'']\<rparr>"]
  by (simp add: main_def empty_repository printable_table_def)

end
