(* ===== verification/RepoText.thy ===== *)
theory RepoText
  imports ContractFiles Regex
begin

text \<open>
  The text handling of \<open>scripts/check_repository.py\<close>: the string methods of the standard library it
  uses, \<open>check_text_hygiene\<close>, \<open>iter_markdown_links\<close>, \<open>markdown_destination\<close>, \<open>section_body\<close> and
  \<open>is_environment_file\<close>. The repository is a node of the file tree; paths are relative to its root,
  which is how the script prints them.
\<close>

subsection \<open>String methods\<close>

text \<open>\<open>str.isspace\<close>, which is also \<open>\s\<close> in a pattern.\<close>

definition space_ranges :: "(nat \<times> nat) list" where
  "space_ranges =
     [(9, 13), (28, 32), (133, 133), (160, 160), (5760, 5760), (8192, 8202), (8232, 8233), (8239, 8239),
      (8287, 8287), (12288, 12288)]"

definition py_space :: "nat \<Rightarrow> bool" where
  "py_space c \<longleftrightarrow> in_class False space_ranges c"

definition lstrip_by :: "(nat \<Rightarrow> bool) \<Rightarrow> ustring \<Rightarrow> ustring" where
  "lstrip_by p s = dropWhile p s"

definition rstrip_by :: "(nat \<Rightarrow> bool) \<Rightarrow> ustring \<Rightarrow> ustring" where
  "rstrip_by p s = rev (dropWhile p (rev s))"

definition py_strip :: "ustring \<Rightarrow> ustring" where
  "py_strip s = rstrip_by py_space (lstrip_by py_space s)"

text \<open>
  \<open>str.lower\<close> and \<open>str.upper\<close> on ASCII. The script compares the results with ASCII words in which no
  other character has an ASCII lower or upper case.
\<close>

definition py_lower :: "ustring \<Rightarrow> ustring" where
  "py_lower s = map (\<lambda>c. if 65 \<le> c \<and> c \<le> 90 then c + 32 else c) s"

definition py_upper :: "ustring \<Rightarrow> ustring" where
  "py_upper s = map (\<lambda>c. if 97 \<le> c \<and> c \<le> 122 then c - 32 else c) s"

text \<open>Line boundaries of \<open>str.splitlines\<close>; a line comes with its terminator.\<close>

definition line_break :: "nat \<Rightarrow> bool" where
  "line_break c \<longleftrightarrow> c \<in> {10, 11, 12, 13, 28, 29, 30, 133, 8232, 8233}"

fun scan_lines :: "ustring \<Rightarrow> ustring \<Rightarrow> (ustring \<times> ustring) list" where
  "scan_lines line [] = (if line = [] then [] else [(rev line, [])])"
| "scan_lines line (c # s) =
     (if c = 13 \<and> s \<noteq> [] \<and> hd s = 10 then (rev line, [13, 10]) # scan_lines [] (tl s)
      else if line_break c then (rev line, [c]) # scan_lines [] s
      else scan_lines (c # line) s)"

definition splitlines :: "ustring \<Rightarrow> ustring list" where
  "splitlines s = map fst (scan_lines [] s)"

definition splitlines_keepends :: "ustring \<Rightarrow> ustring list" where
  "splitlines_keepends s = map (\<lambda>(line, ending). line @ ending) (scan_lines [] s)"

text \<open>Text mode turns every line ending of a file into a line feed.\<close>

fun universal_newlines :: "ustring \<Rightarrow> ustring" where
  "universal_newlines [] = []"
| "universal_newlines (c # s) =
     (if c = 13 then 10 # universal_newlines (if s \<noteq> [] \<and> hd s = 10 then tl s else s) else c # universal_newlines s)"

text \<open>\<open>sub in s\<close>, and the part of \<open>s\<close> before and after the first \<open>sub\<close> (\<open>split(sub, maxsplit=1)\<close>).\<close>

fun split_first :: "ustring \<Rightarrow> ustring \<Rightarrow> (ustring \<times> ustring) option" where
  "split_first sub [] = (if sub = [] then Some ([], []) else None)"
| "split_first sub (c # s) =
     (if starts_with sub (c # s) then Some ([], drop (length sub) (c # s))
      else map_option (\<lambda>(before, after). (c # before, after)) (split_first sub s))"

definition contains :: "ustring \<Rightarrow> ustring \<Rightarrow> bool" where
  "contains sub s \<longleftrightarrow> split_first sub s \<noteq> None"

definition before_first :: "ustring \<Rightarrow> ustring \<Rightarrow> ustring" where
  "before_first sub s = (case split_first sub s of None \<Rightarrow> s | Some (before, after) \<Rightarrow> before)"

text \<open>\<open>finditer\<close>: leftmost matches that do not overlap. No pattern of the script matches the empty text.\<close>

function finditer_from :: "rx \<Rightarrow> ustring \<Rightarrow> ustring \<Rightarrow> position list" where
  "finditer_from r pre s =
     (case rx_match r (pre, s, []) of
        p # _ \<Rightarrow>
          if length (fst (snd p)) < length s then p # finditer_from r (fst p) (fst (snd p))
          else (case s of [] \<Rightarrow> [p] | c # s' \<Rightarrow> p # finditer_from r (c # pre) s')
      | [] \<Rightarrow> (case s of [] \<Rightarrow> [] | c # s' \<Rightarrow> finditer_from r (c # pre) s'))"
  by pat_completeness auto
termination
  by (relation "measure (\<lambda>(r, pre, s). length s)") auto

declare finditer_from.simps [simp del]

definition finditer :: "rx \<Rightarrow> ustring \<Rightarrow> position list" where
  "finditer r s = finditer_from r [] s"

fun rx_word :: "ustring \<Rightarrow> rx" where
  "rx_word [] = Emp"
| "rx_word [c] = Chr c"
| "rx_word (c # s) = Seq (Chr c) (rx_word s)"

fun rx_seq :: "rx list \<Rightarrow> rx" where
  "rx_seq [] = Emp"
| "rx_seq [r] = r"
| "rx_seq (r # rs) = Seq r (rx_seq rs)"

definition rx_text :: "string \<Rightarrow> rx" where
  "rx_text s = rx_word (ascii s)"

text \<open>\<open>.\<close>: any character but a line feed.\<close>

definition rx_dot :: rx where
  "rx_dot = Cls True [(10, 10)]"

subsection \<open>Reading files\<close>

text \<open>\<open>read_text(encoding="utf-8")\<close>: \<open>UnicodeDecodeError\<close> is a \<open>ValueError\<close>.\<close>

definition read_text :: "node \<Rightarrow> path \<Rightarrow> ustring result" where
  "read_text repository p =
     (case file_contents repository (path_parts p) of
        None \<Rightarrow> Inl OSError
      | Some raw \<Rightarrow> (case utf8_decode raw of None \<Rightarrow> Inl ValueError | Some t \<Rightarrow> Inr (universal_newlines t)))"

definition file_name_of :: "path \<Rightarrow> ustring" where
  "file_name_of p = (if path_parts p = [] then [] else last (path_parts p))"

text \<open>\<open>PurePath.suffix\<close>: from the last dot, unless it is the first or the last character.\<close>

definition py_suffix :: "ustring \<Rightarrow> ustring" where
  "py_suffix name =
     (let ending = rev (takeWhile (\<lambda>c. c \<noteq> 46) (rev name)) in
      if length ending + 1 < length name \<and> ending \<noteq> [] then 46 # ending else [])"

subsection \<open>check_text_hygiene\<close>

definition TEXT_SUFFIXES :: "ustring list" where
  "TEXT_SUFFIXES = map ascii
     [[], ''.go'', ''.json'', ''.md'', ''.py'', ''.sh'', ''.toml'', ''.txt'', ''.yaml'', ''.yml'']"

definition blank :: "nat \<Rightarrow> bool" where
  "blank c \<longleftrightarrow> c = 32 \<or> c = 9"

definition trailing_blank :: "ustring \<Rightarrow> bool" where
  "trailing_blank line \<longleftrightarrow> rstrip_by blank line \<noteq> line"

definition check_text_hygiene :: "node \<Rightarrow> path \<Rightarrow> messages \<Rightarrow> (bool \<times> messages) result" where
  "check_text_hygiene repository p errors =
     (if py_lower (py_suffix (file_name_of p)) \<notin> set TEXT_SUFFIXES then Inr (True, errors)
      else
        case file_contents repository (path_parts p) of
          None \<Rightarrow> Inl OSError
        | Some raw \<Rightarrow>
            (case utf8_decode raw of
               None \<Rightarrow> Inr (False, report (ascii ''invalid UTF-8: '' @ as_posix p) errors)
             | Some t \<Rightarrow>
                 Inr (True, perform
                   [report_if (13 \<in> set raw) (ascii ''non-LF line ending: '' @ as_posix p),
                    report_if (raw \<noteq> [] \<and> last raw \<noteq> 10) (ascii ''missing final newline: '' @ as_posix p),
                    fold (\<lambda>(number, line).
                        report_if (trailing_blank line)
                          (ascii ''trailing whitespace: '' @ as_posix p @ ascii '':'' @ py_str_nat number))
                      (enumerate 1 (splitlines t))] errors)))"

subsection \<open>Markdown\<close>

definition MARKDOWN_LINK :: rx where
  "MARKDOWN_LINK = rx_seq
     [Rep 0 (Some 1) (Chr 33), Chr 91, Rep 0 None (Cls True [(93, 93)]), Chr 93, Chr 40,
      Grp 1 (Rep 1 None (Cls True [(41, 41)])), Chr 41]"

fun links_of_lines :: "bool \<Rightarrow> (nat \<times> ustring) list \<Rightarrow> (nat \<times> ustring) list" where
  "links_of_lines in_fence [] = []"
| "links_of_lines in_fence ((number, line) # rest) =
     (if starts_with (ascii ''```'') (lstrip_by py_space line) then links_of_lines (\<not> in_fence) rest
      else if in_fence then links_of_lines in_fence rest
      else map (\<lambda>m. (number, py_strip (the (re_group m 1)))) (finditer MARKDOWN_LINK line) @
        links_of_lines in_fence rest)"

definition iter_markdown_links :: "node \<Rightarrow> path \<Rightarrow> (nat \<times> ustring) list result" where
  "iter_markdown_links repository p =
     bindR (read_text repository p) (\<lambda>t. Inr (links_of_lines False (enumerate 1 (splitlines t))))"

definition markdown_destination :: "ustring \<Rightarrow> ustring" where
  "markdown_destination raw_target =
     (let stripped = py_strip raw_target in
      if starts_with [60] stripped \<and> 62 \<in> set stripped then tl (takeWhile (\<lambda>c. c \<noteq> 62) stripped)
      else takeWhile (\<lambda>c. \<not> py_space c) stripped)"

definition section_body :: "ustring \<Rightarrow> string \<Rightarrow> ustring" where
  "section_body t heading =
     (case split_first (ascii ''## '' @ ascii heading @ [10]) t of
        None \<Rightarrow> []
      | Some (before, body) \<Rightarrow> before_first ([10] @ ascii ''## '') body)"

subsection \<open>is_environment_file\<close>

definition is_environment_file :: "path \<Rightarrow> bool" where
  "is_environment_file p \<longleftrightarrow>
     (let name = file_name_of p in
      name = ascii ''.env'' \<or> starts_with (ascii ''.env.'') name \<or> ends_with (ascii ''.env'') name)"

end
