(* ===== verification/RepoWorkflow.thy ===== *)
theory RepoWorkflow
  imports RepoText
begin

text \<open>
  The reading of the GitHub workflow in \<open>scripts/check_repository.py\<close>: \<open>workflow_steps\<close>,
  \<open>parse_workflow_step\<close>, \<open>yaml_scalar\<close>, and the policy \<open>check_ci_go_policy\<close> on the steps found. A
  range of line numbers \<open>range(start, stop)\<close> is the list of the lines with their numbers.
\<close>

record workflow_step =
  step_position :: nat
  steps_block :: nat
  step_fields :: "(ustring \<times> ustring) list"
  with_fields :: "(ustring \<times> ustring) list"
  run_script :: "ustring option"

subsection \<open>Patterns\<close>

text \<open>Group 1 is \<open>indent\<close>, group 2 is \<open>key\<close> and group 3 is \<open>value\<close>.\<close>

definition rx_spaces :: rx where
  "rx_spaces = Rep 0 None (Cls False space_ranges)"

definition rx_comment :: rx where
  "rx_comment = Rep 0 (Some 1) (Seq (Chr 35) (Rep 0 None rx_dot))"

definition key_class :: rx where
  "key_class = Cls False [(65, 90), (97, 122), (48, 57), (95, 95), (45, 45)]"

definition WORKFLOW_STEPS_KEY :: rx where
  "WORKFLOW_STEPS_KEY = rx_seq
     [Bol, Grp 1 (Rep 0 None (Chr 32)), rx_text ''steps:'', rx_spaces, rx_comment, Eol]"

definition WORKFLOW_STEP_START :: rx where
  "WORKFLOW_STEP_START = rx_seq
     [Bol, Grp 1 (Rep 0 None (Chr 32)), Chr 45, Rep 1 None (Cls False space_ranges),
      Grp 2 (Rep 1 None key_class), Chr 58, rx_spaces, Grp 3 (Rep 0 None rx_dot), Eol]"

definition WORKFLOW_MAPPING_KEY :: rx where
  "WORKFLOW_MAPPING_KEY = rx_seq
     [Bol, Grp 1 (Rep 1 None (Chr 32)), Grp 2 (Rep 1 None key_class), Chr 58, rx_spaces,
      Grp 3 (Rep 0 None rx_dot), Eol]"

definition scalar_mark :: "rx list" where
  "scalar_mark = [Cls False [(124, 124), (62, 62)], Rep 0 None (Cls False [(48, 57), (43, 43), (45, 45)])]"

definition WORKFLOW_BLOCK_SCALAR :: rx where
  "WORKFLOW_BLOCK_SCALAR = rx_seq ([Chr 58, rx_spaces] @ scalar_mark @ [rx_spaces, rx_comment, Eol])"

definition WORKFLOW_BLOCK_SCALAR_VALUE :: rx where
  "WORKFLOW_BLOCK_SCALAR_VALUE = rx_seq scalar_mark"

definition IMMUTABLE_ACTION_REF :: rx where
  "IMMUTABLE_ACTION_REF = Rep 40 (Some 40) (Cls False [(48, 57), (97, 102)])"

definition group_of :: "Regex.position \<Rightarrow> nat \<Rightarrow> ustring" where
  "group_of m g = (case re_group m g of None \<Rightarrow> [] | Some s \<Rightarrow> s)"

subsection \<open>Lines\<close>

definition bare_line :: "ustring \<Rightarrow> ustring" where
  "bare_line raw_line = rstrip_by (\<lambda>c. c = 13 \<or> c = 10) raw_line"

definition indent_of :: "ustring \<Rightarrow> nat" where
  "indent_of line = length line - length (lstrip_by (\<lambda>c. c = 32) line)"

definition lines_from :: "nat \<Rightarrow> nat \<Rightarrow> ustring list \<Rightarrow> (nat \<times> ustring) list" where
  "lines_from start stop xs = enumerate start (drop start (take stop xs))"

definition yaml_scalar :: "ustring \<Rightarrow> ustring" where
  "yaml_scalar raw_value =
     (let stripped = py_strip raw_value;
          v = (if contains (ascii '' #'') stripped
               then rstrip_by py_space (before_first (ascii '' #'') stripped) else stripped) in
      if 2 \<le> length v \<and> hd v = last v \<and> hd v \<in> {34, 39} then butlast (tl v) else v)"

subsection \<open>textwrap.dedent\<close>

fun common_prefix :: "ustring \<Rightarrow> ustring \<Rightarrow> ustring" where
  "common_prefix (x # xs) (y # ys) = (if x = y then x # common_prefix xs ys else [])"
| "common_prefix xs ys = []"

definition dedent :: "ustring \<Rightarrow> ustring" where
  "dedent t =
     (let lines = map (\<lambda>line. if list_all blank line then [] else line) (split_on 10 t);
          indents = map (takeWhile blank) (filter (\<lambda>line. line \<noteq> []) lines);
          margin = (case indents of [] \<Rightarrow> [] | i # is \<Rightarrow> fold common_prefix is i) in
      join_with [10] (map (\<lambda>line. if starts_with margin line then drop (length margin) line else line) lines))"

subsection \<open>parse_workflow_step\<close>

text \<open>The direct fields of the step, and the line of each.\<close>

definition read_field ::
  "nat \<Rightarrow> nat \<times> ustring \<Rightarrow> (ustring \<times> ustring) list \<times> (ustring \<times> nat) list \<Rightarrow>
     (ustring \<times> ustring) list \<times> (ustring \<times> nat) list" where
  "read_field field_indent item state =
     (case (item, state) of ((index, line), (found, field_lines)) \<Rightarrow>
      case re_match WORKFLOW_MAPPING_KEY (bare_line line) of
        None \<Rightarrow> state
      | Some m \<Rightarrow>
          if length (group_of m 1) \<noteq> field_indent then state
          else (dict_set (group_of m 2) (yaml_scalar (group_of m 3)) found,
                dict_set (group_of m 2) index field_lines))"

fun read_with ::
  "nat \<Rightarrow> nat option \<Rightarrow> ustring list \<Rightarrow> (ustring \<times> ustring) list \<Rightarrow> (ustring \<times> ustring) list" where
  "read_with field_indent nested_indent [] found = found"
| "read_with field_indent nested_indent (raw # rest) found =
     (let line = bare_line raw; indent = indent_of line in
      if py_strip line = [] \<or> starts_with [35] (lstrip_by py_space line)
      then read_with field_indent nested_indent rest found
      else if indent \<le> field_indent then found
      else
        case re_match WORKFLOW_MAPPING_KEY line of
          None \<Rightarrow> read_with field_indent nested_indent rest found
        | Some m \<Rightarrow>
            (let nested = (case nested_indent of None \<Rightarrow> indent | Some n \<Rightarrow> n) in
             read_with field_indent (Some nested) rest
               (if indent = nested then dict_set (group_of m 2) (yaml_scalar (group_of m 3)) found else found)))"

fun block_body :: "nat \<Rightarrow> ustring list \<Rightarrow> ustring list" where
  "block_body field_indent [] = []"
| "block_body field_indent (raw # rest) =
     (let line = bare_line raw in
      if py_strip line \<noteq> [] \<and> indent_of line \<le> field_indent then [] else raw # block_body field_indent rest)"

definition parse_workflow_step ::
  "ustring list \<Rightarrow> ustring list \<Rightarrow> nat \<Rightarrow> nat \<Rightarrow> nat \<Rightarrow> nat \<Rightarrow> workflow_step result" where
  "parse_workflow_step raw_lines structure_lines offset block start stop =
     (case re_match WORKFLOW_STEP_START (bare_line (structure_lines ! start)) of
        None \<Rightarrow> Inl ValueError
      | Some m \<Rightarrow>
          (let field_indent = length (group_of m 1) + 2 in
           case fold (read_field field_indent) (lines_from (start + 1) stop structure_lines)
               ([(group_of m 2, yaml_scalar (group_of m 3))], [(group_of m 2, start)]) of
             (found, field_lines) \<Rightarrow>
               Inr \<lparr>step_position = offset, steps_block = block, step_fields = found,
                 with_fields =
                   (case dict_get field_lines (ascii ''with'') of
                      None \<Rightarrow> []
                    | Some with_line \<Rightarrow>
                        read_with field_indent None (map snd (lines_from (with_line + 1) stop structure_lines)) []),
                 run_script =
                   (case dict_get field_lines (ascii ''run'') of
                      None \<Rightarrow> None
                    | Some run_line \<Rightarrow>
                        (case dict_get found (ascii ''run'') of
                           None \<Rightarrow> None
                         | Some run_value \<Rightarrow>
                             if re_fullmatch WORKFLOW_BLOCK_SCALAR_VALUE run_value = None then Some run_value
                             else Some (py_strip (dedent (concat
                               (block_body field_indent (map snd (lines_from (run_line + 1) stop raw_lines))))))))\<rparr>))"

subsection \<open>workflow_steps\<close>

text \<open>The first loop: the bodies of block scalars are blanked.\<close>

fun structure_of :: "nat option \<Rightarrow> ustring list \<Rightarrow> ustring list" where
  "structure_of block_indent [] = []"
| "structure_of block_indent (raw # rest) =
     (let line = bare_line raw; indent = indent_of line;
          inside = (case block_indent of None \<Rightarrow> False | Some b \<Rightarrow> py_strip line = [] \<or> b < indent) in
      if inside then (if ends_with [10] raw then [10] else []) # structure_of block_indent rest
      else raw # structure_of (if re_search WORKFLOW_BLOCK_SCALAR line = None then None else Some indent) rest)"

definition line_position :: "ustring list \<Rightarrow> nat \<Rightarrow> nat" where
  "line_position raw_lines index = length (concat (take index raw_lines))"

text \<open>The inner loop over the lines after a \<open>steps:\<close> key: where its items start, and where it ends.\<close>

fun scan_steps :: "nat \<Rightarrow> nat option \<Rightarrow> nat \<Rightarrow> ustring list \<Rightarrow> nat list \<times> nat" where
  "scan_steps steps_indent item_indent end_index [] = ([], end_index)"
| "scan_steps steps_indent item_indent end_index (raw # rest) =
     (let candidate = bare_line raw; stripped = py_strip candidate in
      if stripped = [] \<or> starts_with [35] stripped then scan_steps steps_indent item_indent (end_index + 1) rest
      else if indent_of candidate \<le> steps_indent then ([], end_index)
      else
        case re_match WORKFLOW_STEP_START candidate of
          None \<Rightarrow> scan_steps steps_indent item_indent (end_index + 1) rest
        | Some m \<Rightarrow>
            (let candidate_indent = length (group_of m 1);
                 item = (case item_indent of None \<Rightarrow> candidate_indent | Some i \<Rightarrow> i) in
             case scan_steps steps_indent (Some item) (end_index + 1) rest of
               (starts, stop) \<Rightarrow> (if candidate_indent = item then end_index # starts else starts, stop)))"

definition block_steps ::
  "ustring list \<Rightarrow> ustring list \<Rightarrow> nat \<times> ustring \<Rightarrow> workflow_step list \<Rightarrow> workflow_step list result" where
  "block_steps raw_lines structure_lines item steps =
     (case item of (index, line) \<Rightarrow>
      case re_match WORKFLOW_STEPS_KEY (bare_line line) of
        None \<Rightarrow> Inr steps
      | Some m \<Rightarrow>
          (case scan_steps (length (group_of m 1)) None (index + 1) (drop (index + 1) structure_lines) of
             (item_starts, end_index) \<Rightarrow>
               bindR (mapR (\<lambda>(start, stop). parse_workflow_step raw_lines structure_lines
                   (line_position raw_lines start) (line_position raw_lines index) start stop)
                 (zip item_starts (tl item_starts @ [end_index]))) (\<lambda>found. Inr (steps @ found))))"

definition workflow_steps :: "ustring \<Rightarrow> workflow_step list result" where
  "workflow_steps workflow =
     (let raw_lines = splitlines_keepends workflow; structure_lines = structure_of None raw_lines in
      foldR (block_steps raw_lines structure_lines) (enumerate 0 structure_lines) [])"

subsection \<open>check_ci_go_policy\<close>

definition setup_prefix :: ustring where
  "setup_prefix = ascii ''actions/setup-go@''"

text \<open>The uses of \<open>setup-go\<close> with the reference after the \<open>@\<close>.\<close>

definition setup_uses :: "workflow_step list \<Rightarrow> (workflow_step \<times> ustring) list" where
  "setup_uses steps =
     concat (map (\<lambda>step.
         let uses = (case dict_get (step_fields step) (ascii ''uses'') of None \<Rightarrow> [] | Some u \<Rightarrow> u) in
         if starts_with setup_prefix uses then [(step, drop (length setup_prefix) uses)] else []) steps)"

definition EXPECTED_GOVERSION_SCRIPTS :: "ustring list" where
  "EXPECTED_GOVERSION_SCRIPTS =
     [ascii ''GOTOOLCHAIN=local go env GOVERSION'',
      join_with [10]
        [ascii ''expected_version=\"$(awk '' @ [39] @ ascii ''$1 == \"go\" { print \"go\" $2 }'' @ [39] @ ascii '' go.mod)\"'',
         ascii ''actual_version=\"$(GOTOOLCHAIN=local go env GOVERSION)\"'',
         ascii ''if [[ \"$actual_version\" != \"$expected_version\" ]]; then'',
         ascii ''  echo \"Expected $expected_version from go.mod, got $actual_version\" >&2'',
         ascii ''  exit 1'',
         ascii ''fi'']]"

definition unconditional :: "workflow_step \<Rightarrow> bool" where
  "unconditional step \<longleftrightarrow> \<not> dict_has (step_fields step) (ascii ''if'')"

definition run_steps :: "ustring list \<Rightarrow> workflow_step list \<Rightarrow> workflow_step list" where
  "run_steps scripts steps =
     filter (\<lambda>step. unconditional step \<and> (case run_script step of None \<Rightarrow> False | Some s \<Rightarrow> s \<in> set scripts)) steps"

definition only_position :: "workflow_step list \<Rightarrow> int" where
  "only_position steps = (case steps of [step] \<Rightarrow> int (step_position step) | _ \<Rightarrow> - 1)"

definition check_setup_step :: "workflow_step \<Rightarrow> messages \<Rightarrow> messages" where
  "check_setup_step step =
     perform
       [report_if (\<not> unconditional step) (ascii ''CI setup-go step must be unconditional''),
        report_if (dict_get (with_fields step) (ascii ''go-version-file'') \<noteq> Some (ascii ''go.mod''))
          (ascii ''CI setup-go must read go-version-file from go.mod''),
        report_if (dict_has (with_fields step) (ascii ''go-version''))
          (ascii ''CI must not repeat a separate go-version literal''),
        report_if (py_lower (case dict_get (with_fields step) (ascii ''cache'') of None \<Rightarrow> [] | Some c \<Rightarrow> c) \<noteq>
            ascii ''false'')
          (ascii ''CI setup-go caching must be disabled for the dependency-free module'')]"

definition check_go_steps :: "workflow_step list \<Rightarrow> messages \<Rightarrow> messages" where
  "check_go_steps steps =
     (let setup_steps = setup_uses steps;
          preflight_steps = run_steps [ascii ''python3 scripts/check_repository.py''] steps;
          version_steps = run_steps EXPECTED_GOVERSION_SCRIPTS steps;
          gate_steps = run_steps [ascii ''./scripts/check''] steps;
          setup_position = only_position (map fst setup_steps);
          preflight_position = only_position preflight_steps;
          version_position = only_position version_steps;
          gate_position = only_position gate_steps in
      perform
        [report_if (length setup_steps \<noteq> 1) (ascii ''CI must contain exactly one actions/setup-go invocation''),
         report_if (setup_steps = [] \<or>
             list_ex (\<lambda>(_, reference). re_fullmatch IMMUTABLE_ACTION_REF reference = None) setup_steps)
           (ascii ''CI setup-go action must use a 40-character commit SHA''),
         (case setup_steps of [(setup_step, _)] \<Rightarrow> check_setup_step setup_step | _ \<Rightarrow> id),
         report_if (length preflight_steps \<noteq> 1)
           (ascii ''CI must contain exactly one unconditional static policy run step''),
         report_if (length version_steps \<noteq> 1)
           (ascii ''CI must contain exactly one unconditional GOVERSION verification step''),
         report_if (length gate_steps \<noteq> 1)
           (ascii ''CI must contain exactly one unconditional canonical gate run step''),
         report_if (length preflight_steps = 1 \<and> length setup_steps = 1 \<and> length version_steps = 1 \<and>
             length gate_steps = 1 \<and>
             card {steps_block (hd preflight_steps), steps_block (fst (hd setup_steps)),
               steps_block (hd version_steps), steps_block (hd gate_steps)} \<noteq> 1)
           (ascii ''CI policy, setup-go, GOVERSION, and gate steps must share one steps block''),
         report_if (preflight_position < 0 \<or> setup_position < 0 \<or> version_position < 0 \<or> gate_position < 0 \<or>
             \<not> (preflight_position < setup_position \<and> setup_position < version_position \<and>
                version_position < gate_position))
           (ascii ''CI static policy, setup-go, GOVERSION verification, and canonical gate stages '' @
            ascii ''are out of order'')])"

definition workflow_path :: path where
  "workflow_path = relative_path [''.github'', ''workflows'', ''check.yml'']"

definition check_ci_go_policy :: "node \<Rightarrow> messages \<Rightarrow> messages result" where
  "check_ci_go_policy repository errors =
     (case read_text repository workflow_path of
        Inl e \<Rightarrow> Inr errors
      | Inr workflow \<Rightarrow> bindR (workflow_steps workflow) (\<lambda>steps. Inr (check_go_steps steps errors)))"

end
