(* ===== verification/RepoMetadata.thy ===== *)
theory RepoMetadata
  imports RepoText
begin

text \<open>
  The story and lesson metadata of \<open>scripts/check_repository.py\<close>: \<open>metadata_files\<close> and
  \<open>check_learning_metadata\<close>. The decimal digits of \<open>\d\<close> beyond ASCII depend on the Unicode version
  of the interpreter: the ranges of the digits are the parameter \<open>nd\<close>.
\<close>

subsection \<open>Patterns\<close>

definition rx_digit :: "(nat \<times> nat) list \<Rightarrow> rx" where
  "rx_digit nd = Cls False nd"

definition UNIT_FILENAME :: "(nat \<times> nat) list \<Rightarrow> rx" where
  "UNIT_FILENAME nd = rx_seq
     [Bol, Grp 1 (Seq (rx_text ''icgt-'') (Rep 3 (Some 3) (rx_digit nd))), Chr 45, Rep 1 None rx_dot,
      rx_text ''.md'', Eol]"

definition STORY_FILENAME :: "(nat \<times> nat) list \<Rightarrow> rx" where
  "STORY_FILENAME nd = UNIT_FILENAME nd"

definition LESSON_FILENAME :: "(nat \<times> nat) list \<Rightarrow> rx" where
  "LESSON_FILENAME nd = UNIT_FILENAME nd"

definition STORY_STATUS :: rx where
  "STORY_STATUS = rx_seq [MBol, rx_text ''- **Status:** '', Grp 1 (Rep 1 None rx_dot), MEol]"

definition LESSON_STATUS :: rx where
  "LESSON_STATUS = rx_seq [MBol, rx_text ''- **Lesson status:** '', Grp 1 (Rep 1 None rx_dot), MEol]"

definition LESSON_UNIT :: "(nat \<times> nat) list \<Rightarrow> rx" where
  "LESSON_UNIT nd = rx_seq
     [MBol, rx_text ''- **Unit:** '', Grp 1 (Seq (rx_text ''ICGT-'') (Rep 3 (Some 3) (rx_digit nd))), MEol]"

definition QUESTION_NUMBER :: "(nat \<times> nat) list \<Rightarrow> rx" where
  "QUESTION_NUMBER nd = rx_seq
     [MBol, Grp 1 (Seq (Cls False [(49, 57)]) (Rep 0 None (rx_digit nd))), rx_text ''. '']"

definition EXPECTED_LESSON_STATUS :: "(ustring \<times> ustring) list" where
  "EXPECTED_LESSON_STATUS =
     [(ascii ''Planned'', ascii ''Planned''),
      (ascii ''In progress'', ascii ''Implementation companion''),
      (ascii ''Blocked'', ascii ''Implementation companion - blocked''),
      (ascii ''Done'', ascii ''Verified against implementation'')]"

text \<open>\<open>match.group(1)\<close> of a search, if it matches.\<close>

definition search_group :: "rx \<Rightarrow> ustring \<Rightarrow> ustring option" where
  "search_group r s = (case re_search r s of None \<Rightarrow> None | Some m \<Rightarrow> re_group m 1)"

subsection \<open>metadata_files\<close>

text \<open>\<open>directory.glob("icgt-*.md")\<close>.\<close>

definition glob_units :: "node \<Rightarrow> path \<Rightarrow> path list" where
  "glob_units repository directory =
     (case lstat repository (path_parts directory) of
        Inr (Some n) \<Rightarrow>
          (case follow n of
             Some (Directory entries) \<Rightarrow>
               map (\<lambda>(name, _). Path [] (path_parts directory @ [name]))
                 (filter (\<lambda>(name, _). starts_with (ascii ''icgt-'') name \<and> ends_with (ascii ''.md'') name) entries)
           | _ \<Rightarrow> [])
      | _ \<Rightarrow> [])"

type_synonym unit_index = "(ustring \<times> path) list"

definition index_unit ::
  "rx \<Rightarrow> string \<Rightarrow> path \<Rightarrow> unit_index \<times> messages \<Rightarrow> unit_index \<times> messages" where
  "index_unit pattern kind p state =
     (case state of (indexed, errors) \<Rightarrow>
      case re_fullmatch pattern (file_name_of p) of
        None \<Rightarrow> state
      | Some m \<Rightarrow>
          (let unit_id = py_upper (the (re_group m 1)) in
           case dict_get indexed unit_id of
             Some first \<Rightarrow>
               (indexed, report (ascii ''duplicate '' @ ascii kind @ ascii '' ID: '' @ unit_id @ ascii '': '' @
                  as_posix first @ ascii '', '' @ as_posix p) errors)
           | None \<Rightarrow> (dict_set unit_id p indexed, errors)))"

definition metadata_files :: "node \<Rightarrow> path \<Rightarrow> rx \<Rightarrow> string \<Rightarrow> messages \<Rightarrow> unit_index \<times> messages" where
  "metadata_files repository directory pattern kind errors =
     fold (index_unit pattern kind) (sort (glob_units repository directory)) ([], errors)"

subsection \<open>check_learning_metadata\<close>

definition story_labels :: "ustring list" where
  "story_labels = map ascii
     [''- **Lesson:**'', ''- **Review priority:**'', ''## Human review checkpoint'', ''- **Production path:**'',
      ''- **Failure/test path:**'', ''- **Invariant:**'', ''- **Deferred:**'']"

definition lesson_labels :: "ustring list" where
  "lesson_labels = map ascii
     [''- **Story:**'', ''- **Review priority:**'', ''## Personal code review map'', ''## Teach-back questions'']"

definition check_status :: "ustring \<Rightarrow> path \<Rightarrow> path \<Rightarrow> ustring \<Rightarrow> ustring \<Rightarrow> messages \<Rightarrow> messages" where
  "check_status unit_id story lesson story_text lesson_text errors =
     (let story_status = search_group STORY_STATUS story_text;
          lesson_status = search_group LESSON_STATUS lesson_text;
          errors = report_if (story_status = None) (ascii ''story status missing: '' @ as_posix story) errors;
          errors = report_if (lesson_status = None) (ascii ''lesson status missing: '' @ as_posix lesson) errors in
      case (story_status, lesson_status) of
        (Some s, Some l) \<Rightarrow>
          (case dict_get EXPECTED_LESSON_STATUS s of
             None \<Rightarrow> report (ascii ''unsupported story status: '' @ as_posix story @ ascii '': '' @ s) errors
           | Some expected \<Rightarrow>
               report_if (l \<noteq> expected)
                 (ascii ''story/lesson status mismatch: '' @ unit_id @ ascii '': '' @ s @ ascii '' requires '' @ expected)
                 errors)
      | _ \<Rightarrow> errors)"

definition check_labels :: "string \<Rightarrow> path \<Rightarrow> ustring \<Rightarrow> ustring list \<Rightarrow> messages \<Rightarrow> messages" where
  "check_labels kind p t labels =
     fold (\<lambda>label. report_if (\<not> contains label t)
         (ascii kind @ ascii '' review metadata missing: '' @ as_posix p @ ascii '': '' @ label)) labels"

definition question_numbers :: "(nat \<times> nat) list \<Rightarrow> ustring \<Rightarrow> ustring list" where
  "question_numbers nd t =
     map (\<lambda>m. the (re_group m 1)) (finditer (QUESTION_NUMBER nd) (section_body t ''Teach-back questions''))"

definition check_unit_texts ::
  "(nat \<times> nat) list \<Rightarrow> ustring \<Rightarrow> path \<Rightarrow> path \<Rightarrow> ustring \<Rightarrow> ustring \<Rightarrow> messages \<Rightarrow> messages" where
  "check_unit_texts nd unit_id story lesson story_text lesson_text =
     perform
       [check_status unit_id story lesson story_text lesson_text,
        report_if (search_group (LESSON_UNIT nd) lesson_text \<noteq> Some unit_id)
          (ascii ''lesson unit metadata mismatch: '' @ as_posix lesson @ ascii '': expected '' @ unit_id),
        check_labels ''story'' story story_text story_labels,
        check_labels ''lesson'' lesson lesson_text lesson_labels,
        report_if (question_numbers nd lesson_text \<noteq> map ascii [''1'', ''2'', ''3''])
          (ascii ''lesson must contain exactly three teach-back questions: '' @ as_posix lesson)]"

definition check_unit ::
  "(nat \<times> nat) list \<Rightarrow> node \<Rightarrow> ustring \<times> path \<times> path \<Rightarrow> messages \<Rightarrow> messages result" where
  "check_unit nd repository item errors =
     (case item of (unit_id, story, lesson) \<Rightarrow>
      case bindR (read_text repository story) (\<lambda>s. bindR (read_text repository lesson) (\<lambda>l. Inr (s, l))) of
        Inl ValueError \<Rightarrow> Inr errors
      | Inl e \<Rightarrow> Inl e
      | Inr (story_text, lesson_text) \<Rightarrow>
          Inr (check_unit_texts nd unit_id story lesson story_text lesson_text errors))"

definition units_without :: "unit_index \<Rightarrow> unit_index \<Rightarrow> ustring list" where
  "units_without a b = sort (filter (\<lambda>u. \<not> dict_has b u) (dict_keys a))"

definition units_in_both :: "unit_index \<Rightarrow> unit_index \<Rightarrow> (ustring \<times> path \<times> path) list" where
  "units_in_both a b =
     map (\<lambda>u. (u, the (dict_get a u), the (dict_get b u))) (sort (filter (dict_has b) (dict_keys a)))"

definition check_learning_metadata :: "(nat \<times> nat) list \<Rightarrow> node \<Rightarrow> messages \<Rightarrow> messages result" where
  "check_learning_metadata nd repository errors =
     (case metadata_files repository (relative_path [''user-stories'']) (STORY_FILENAME nd) ''story'' errors of
        (stories, errors) \<Rightarrow>
      case metadata_files repository (relative_path [''docs'', ''lessons'']) (LESSON_FILENAME nd) ''lesson'' errors of
        (lessons, errors) \<Rightarrow>
      let errors = errors @ map (\<lambda>u. ascii ''story has no matching lesson: '' @ u) (units_without stories lessons);
          errors = errors @ map (\<lambda>u. ascii ''lesson has no matching story: '' @ u) (units_without lessons stories) in
      foldR (check_unit nd repository) (units_in_both stories lessons) errors)"

end
