(* ===== verification/RepoCheck.thy ===== *)
theory RepoCheck
  imports RepoWorkflow RepoMetadata ContractCheck
begin

text \<open>
  The rest of \<open>scripts/check_repository.py\<close>: the listing of the files, the required paths, the
  environment files, the Go layout, the Markdown links and \<open>main\<close>. What the operating system and Git
  contribute is the record \<open>host\<close>: the output of \<open>git ls-files\<close> (none when it fails), the tree below
  \<open>ROOT\<close>, the absolute path of \<open>ROOT\<close>, and the resolution and existence of absolute paths.
\<close>

record host =
  git_output :: "byte list option"
  tree :: node
  ROOT :: path
  resolve_path :: "path \<Rightarrow> path result"
  path_exists :: "path \<Rightarrow> bool result"

subsection \<open>repository_files\<close>

text \<open>\<open>os.fsdecode\<close>: UTF-8, where a byte that does not decode becomes a surrogate.\<close>

function fsdecode :: "byte list \<Rightarrow> ustring" where
  "fsdecode bs =
     (case bs of [] \<Rightarrow> []
      | b # rest \<Rightarrow>
          (case utf8_next bs of
             Some (c, after) \<Rightarrow> c # fsdecode after
           | None \<Rightarrow> (56320 + unat b) # fsdecode rest))"
  by pat_completeness auto
termination
  by (relation "measure length") (auto simp del: utf8_next.simps dest: utf8_next_shorter)

declare fsdecode.simps [simp del]

fun split_bytes :: "byte list \<Rightarrow> byte list list" where
  "split_bytes [] = [[]]"
| "split_bytes (b # bs) =
     (if b = 0 then [] # split_bytes bs
      else (case split_bytes bs of [] \<Rightarrow> [[b]] | p # ps \<Rightarrow> (b # p) # ps))"

text \<open>A comprehension with a condition that may raise.\<close>

fun filterR :: "('a \<Rightarrow> bool result) \<Rightarrow> 'a list \<Rightarrow> 'a list result" where
  "filterR f [] = Inr []"
| "filterR f (x # xs) = bindR (f x) (\<lambda>b. bindR (filterR f xs) (\<lambda>ys. Inr (if b then x # ys else ys)))"

definition is_file_or_link :: "node \<Rightarrow> path \<Rightarrow> bool result" where
  "is_file_or_link repository p =
     bindR (is_file repository (path_parts p)) (\<lambda>regular.
     if regular then Inr True else is_symlink repository (path_parts p))"

text \<open>The message of the \<open>RuntimeError\<close>, or the files. Git prints paths relative to \<open>ROOT\<close>.\<close>

definition repository_files :: "host \<Rightarrow> (ustring + path list) result" where
  "repository_files h =
     (case git_output h of
        None \<Rightarrow> Inr (Inl (ascii ''unable to enumerate repository files; initialize Git before checking''))
      | Some output \<Rightarrow>
          bindR (filterR (is_file_or_link (tree h))
              (map (\<lambda>raw. parse_path (fsdecode raw)) (filter (\<lambda>raw. raw \<noteq> []) (split_bytes output))))
            (\<lambda>paths. Inr (Inr (sort paths))))"

subsection \<open>environment_files\<close>

definition IGNORED_PARTS :: "ustring list" where
  "IGNORED_PARTS = map ascii
     [''.git'', ''.agents'', ''.codex'', ''.mypy_cache'', ''.pytest_cache'', ''.ruff_cache'', ''.venv'',
      ''__pycache__'', ''bin'', ''build'', ''coverage'', ''dist'', ''node_modules'', ''tmp'']"

text \<open>\<open>os.walk\<close> with the pruned \<open>directory_names\<close>: the environment files of each directory.\<close>

fun walk_environment :: "ustring list \<Rightarrow> node \<Rightarrow> path list" where
  "walk_environment base (Directory es) =
     filter is_environment_file
       (map (\<lambda>(name, m). Path [] (base @ [name])) (filter (\<lambda>(name, m). \<not> is_dir_node m) es)) @
     concat (map (\<lambda>(name, m). if name \<in> set IGNORED_PARTS then [] else walk_environment (base @ [name]) m) es)"
| "walk_environment base n = []"

definition environment_files :: "host \<Rightarrow> path list" where
  "environment_files h =
     sort (case follow (tree h) of None \<Rightarrow> [] | Some n \<Rightarrow> walk_environment [] n)"

definition check_secret_filenames :: "path list \<Rightarrow> messages \<Rightarrow> messages" where
  "check_secret_filenames files =
     fold (\<lambda>p. report_if (is_environment_file p \<and> file_name_of p \<noteq> ascii ''.env.example'')
         (ascii ''local environment file is not allowed in the repository tree: '' @ as_posix p)) files"

subsection \<open>check_required_paths\<close>

definition REQUIRED_PATHS :: "string list" where
  "REQUIRED_PATHS =
     [''.editorconfig'', ''.gitattributes'', ''.gitignore'', ''.github/workflows/check.yml'', ''README.md'',
      ''AGENTS.md'', ''scripts/check'', ''scripts/check_contract.py'', ''scripts/check_repository.py'',
      ''tests/test_check_contract.py'', ''tests/test_check_repository.py'', ''control-plane/README.md'',
      ''fleet-simulator/README.md'', ''latency-lab/README.md'', ''model-operator/README.md'',
      ''docs/project-brief.md'', ''docs/architecture.md'', ''docs/pr-review-checklist.md'', ''docs/roadmap.md'',
      ''docs/troubleshooting.md'', ''docs/adr/README.md'', ''docs/lessons/AGENTS.md'', ''docs/lessons/README.md'',
      ''user-stories/AGENTS.md'', ''user-stories/README.md'', ''gateway/README.md'', ''gateway/AGENTS.md'',
      ''gateway/contracts/model-turn/v1/README.md'', ''gateway/contracts/model-turn/v1/harness-mapping.md'',
      ''gateway/contracts/model-turn/v1/schema/request.schema.json'',
      ''gateway/contracts/model-turn/v1/schema/success.schema.json'',
      ''gateway/contracts/model-turn/v1/schema/failure.schema.json'',
      ''gateway/contracts/model-turn/v1/fixtures/cases.json'', ''gateway/cmd/fastgate/main.go'',
      ''gateway/internal/service/service.go'', ''gateway/internal/service/service_test.go'']"

definition check_required_path :: "node \<Rightarrow> string \<Rightarrow> messages \<Rightarrow> messages result" where
  "check_required_path repository relative errors =
     bindR (is_file repository (path_parts (parse_path (ascii relative)))) (\<lambda>regular.
     Inr (report_if (\<not> regular) (ascii ''missing required file: '' @ ascii relative) errors))"

definition check_required_paths :: "node \<Rightarrow> messages \<Rightarrow> messages result" where
  "check_required_paths repository errors = foldR (check_required_path repository) REQUIRED_PATHS errors"

subsection \<open>check_go_layout\<close>

definition EXPECTED_GO_MOD :: "byte list" where
  "EXPECTED_GO_MOD = map byte_of
     (ascii ''module github.com/jimmie-potts/i-can-do-groq-too'' @ [10, 10] @ ascii ''go 1.26.5'' @ [10])"

definition FORBIDDEN_GO_METADATA :: "ustring list" where
  "FORBIDDEN_GO_METADATA = map ascii [''go.work'', ''go.work.sum'', ''go.sum'']"

definition root_manifest :: path where
  "root_manifest = relative_path [''go.mod'']"

definition check_root_manifest :: "node \<Rightarrow> messages \<Rightarrow> messages result" where
  "check_root_manifest repository errors =
     bindR (is_file repository (path_parts root_manifest)) (\<lambda>regular.
     bindR (if regular then is_symlink repository (path_parts root_manifest) else Inr False) (\<lambda>link.
     Inr (if \<not> regular \<or> link then report (ascii ''missing regular root Go manifest: go.mod'') errors
       else
         case file_contents repository (path_parts root_manifest) of
           None \<Rightarrow> report (ascii ''unable to read root Go manifest: go.mod'') errors
         | Some manifest \<Rightarrow>
             report_if (manifest \<noteq> EXPECTED_GO_MOD) (ascii ''root go.mod does not match ADR 0004 exactly'') errors)))"

definition check_go_layout :: "node \<Rightarrow> path list \<Rightarrow> messages \<Rightarrow> messages result" where
  "check_go_layout repository files errors =
     bindR (check_root_manifest repository errors) (\<lambda>errors.
     Inr (fold (\<lambda>p errors.
         report_if (file_name_of p \<in> set FORBIDDEN_GO_METADATA)
           (ascii ''Go metadata is not allowed in ICGT-005: '' @ as_posix p)
           (report_if (file_name_of p = ascii ''go.mod'' \<and> p \<noteq> root_manifest)
             (ascii ''nested Go module is not allowed: '' @ as_posix p) errors)) files errors))"

subsection \<open>check_markdown_links\<close>

definition hex_digit_value :: "nat \<Rightarrow> nat option" where
  "hex_digit_value c =
     (if 48 \<le> c \<and> c \<le> 57 then Some (c - 48)
      else if 65 \<le> c \<and> c \<le> 70 then Some (c - 55)
      else if 97 \<le> c \<and> c \<le> 102 then Some (c - 87) else None)"

text \<open>\<open>urllib.parse.unquote\<close>: per run of ASCII characters, escapes to bytes, then UTF-8 with replacement.\<close>

fun unquote_to_bytes :: "ustring \<Rightarrow> byte list" where
  "unquote_to_bytes [] = []"
| "unquote_to_bytes (c # s) =
     (if c = 37 \<and> 2 \<le> length s \<and> hex_digit_value (s ! 0) \<noteq> None \<and> hex_digit_value (s ! 1) \<noteq> None
      then byte_of (16 * the (hex_digit_value (s ! 0)) + the (hex_digit_value (s ! 1))) # unquote_to_bytes (drop 2 s)
      else byte_of c # unquote_to_bytes s)"

text \<open>How many bytes of an ill-formed sequence one replacement character stands for.\<close>

definition ill_formed_length :: "byte list \<Rightarrow> nat" where
  "ill_formed_length bs =
     (case bs of
        b # c # rest \<Rightarrow>
          (let lead = unat b in
           if 224 \<le> lead \<and> lead < 240 \<and> second3 lead c then 2
           else if 240 \<le> lead \<and> lead < 245 \<and> second4 lead c
           then (case rest of [] \<Rightarrow> 2 | d # _ \<Rightarrow> if cont d then 3 else 2)
           else 1)
      | _ \<Rightarrow> 1)"

lemma ill_formed_length_pos: "0 < ill_formed_length bs"
  by (auto simp: ill_formed_length_def Let_def split: list.split)

function utf8_replace :: "byte list \<Rightarrow> ustring" where
  "utf8_replace bs =
     (if bs = [] then []
      else (case utf8_next bs of
              Some (c, rest) \<Rightarrow> c # utf8_replace rest
            | None \<Rightarrow> 65533 # utf8_replace (drop (ill_formed_length bs) bs)))"
  by pat_completeness auto
termination
  by (relation "measure length") (auto simp: ill_formed_length_pos simp del: utf8_next.simps dest: utf8_next_shorter)

declare utf8_replace.simps [simp del]

function unquote :: "ustring \<Rightarrow> ustring" where
  "unquote s =
     (case s of [] \<Rightarrow> []
      | c # rest \<Rightarrow>
          if c < 128
          then utf8_replace (unquote_to_bytes (takeWhile (\<lambda>x. x < 128) s)) @ unquote (dropWhile (\<lambda>x. x < 128) s)
          else c # unquote rest)"
  by pat_completeness auto
termination
  by (relation "measure length") (auto simp: le_imp_less_Suc length_dropWhile_le)

declare unquote.simps [simp del]

text \<open>\<open>parent / target\<close>: an absolute target replaces the parent.\<close>

definition join_path :: "path \<Rightarrow> path \<Rightarrow> path" where
  "join_path parent target =
     (if is_absolute target then target else Path (path_root parent) (path_parts parent @ path_parts target))"

definition parent_path :: "path \<Rightarrow> path" where
  "parent_path p = Path (path_root p) (butlast (path_parts p))"

definition ignored_target :: "ustring \<Rightarrow> bool" where
  "ignored_target target \<longleftrightarrow> target = [] \<or>
     list_ex (\<lambda>scheme. starts_with (ascii scheme) target) [''#'', ''http://'', ''https://'', ''mailto:'']"

definition check_link :: "host \<Rightarrow> path \<Rightarrow> nat \<times> ustring \<Rightarrow> messages \<Rightarrow> messages result" where
  "check_link h p link errors =
     (case link of (number, raw_target) \<Rightarrow>
      let target = markdown_destination raw_target;
          file_target = unquote (before_first [63] (before_first [35] target));
          place = as_posix p @ ascii '':'' @ py_str_nat number @ ascii '': '' @ target in
      if ignored_target target \<or> file_target = [] then Inr errors
      else
        bindR (resolve_path h (join_path (join_path (ROOT h) (parent_path p)) (parse_path file_target))) (\<lambda>destination.
        if \<not> is_under (ROOT h) destination then Inr (report (ascii ''link escapes repository: '' @ place) errors)
        else
          bindR (path_exists h destination) (\<lambda>found.
          Inr (report_if (\<not> found) (ascii ''broken local link: '' @ place) errors))))"

definition check_markdown_links :: "host \<Rightarrow> path \<Rightarrow> messages \<Rightarrow> messages result" where
  "check_markdown_links h p errors =
     bindR (iter_markdown_links (tree h) p) (\<lambda>links. foldR (check_link h p) links errors)"

subsection \<open>main\<close>

definition check_file :: "host \<Rightarrow> path \<Rightarrow> messages \<Rightarrow> messages result" where
  "check_file h p errors =
     (if is_environment_file p then Inr errors
      else
        bindR (check_text_hygiene (tree h) p errors) (\<lambda>(valid_text, errors).
        if valid_text \<and> py_lower (py_suffix (file_name_of p)) = ascii ''.md'' then check_markdown_links h p errors
        else Inr errors))"

definition repository_errors :: "(nat \<times> nat) list \<Rightarrow> host \<Rightarrow> path list \<Rightarrow> messages result" where
  "repository_errors nd h files =
     bindR (check_required_paths (tree h) []) (\<lambda>errors.
     bindR (check_go_layout (tree h) files (check_secret_filenames (environment_files h) errors)) (\<lambda>errors.
     bindR (check_ci_go_policy (tree h) errors) (\<lambda>errors.
     bindR (foldR (check_file h) files errors) (\<lambda>errors.
     check_learning_metadata nd (tree h) errors))))"

definition main_repository :: "(nat \<times> nat) list \<Rightarrow> host \<Rightarrow> outcome result" where
  "main_repository nd h =
     bindR (repository_files h) (\<lambda>found.
     case found of
       Inl message \<Rightarrow> Inr \<lparr>status = 1, stdout = [], stderr = [message]\<rparr>
     | Inr files \<Rightarrow>
         bindR (repository_errors nd h files) (\<lambda>errors.
         Inr (if errors \<noteq> [] then \<lparr>status = 1, stdout = [], stderr = errors\<rparr>
           else \<lparr>status = 0, stdout = [ascii ''Checked '' @ py_str_nat (length files) @ ascii '' repository files.''],
             stderr = []\<rparr>)))"

end
