(* ===== verification/RepoLog.thy ===== *)
theory RepoLog
  imports ContractFiles
begin

text \<open>
  The discipline of the diagnostic lists that \<open>scripts/check_repository.py\<close> threads through its
  checks: a check only appends to \<open>errors\<close> and its verdict does not depend on what is already there.
  \<open>judges f P\<close> says that the check \<open>f\<close> has this discipline and that it raises nothing and stays
  silent exactly when \<open>P\<close> holds; \<open>raises_only E f\<close> bounds what it raises. The locale \<open>check_pass\<close> is
  the interface that the composition of the checks relies on.
\<close>

subsection \<open>Checks and what they judge\<close>

definition appends :: "(messages \<Rightarrow> messages result) \<Rightarrow> bool" where
  "appends f \<longleftrightarrow> (\<forall>errors. f errors = bindR (f []) (\<lambda>ms. Inr (errors @ ms)))"

definition judges :: "(messages \<Rightarrow> messages result) \<Rightarrow> bool \<Rightarrow> bool" where
  "judges f P \<longleftrightarrow> appends f \<and> (f [] = Inr [] \<longleftrightarrow> P)"

named_theorems judges_intros

text \<open>The same with the outcome of the check on the empty list made explicit.\<close>

lemma judgesI:
  assumes "\<And>errors. f errors = bindR R (\<lambda>ms. Inr (errors @ ms))" and "R = Inr [] \<longleftrightarrow> P"
  shows "judges f P"
proof -
  have "f [] = R" using assms(1) [of "[]"] by (cases R) simp_all
  with assms show ?thesis unfolding judges_def appends_def by metis
qed

lemma judgesE:
  assumes "judges f P"
  shows "\<exists>R. (\<forall>errors. f errors = bindR R (\<lambda>ms. Inr (errors @ ms))) \<and> (R = Inr [] \<longleftrightarrow> P)"
  using assms unfolding judges_def appends_def by metis

lemma judges_cong: "(\<And>errors. f errors = g errors) \<Longrightarrow> judges g P \<Longrightarrow> judges f P"
  by (rule subst [where P = "\<lambda>h. judges h P"]) auto

lemma judges_iff: "judges f P \<Longrightarrow> (P \<longleftrightarrow> Q) \<Longrightarrow> judges f Q"
  by simp

lemma judges_skip [judges_intros]: "judges Inr True"
  by (rule judgesI [of _ "Inr []"]) simp_all

lemma judges_raise [judges_intros]: "judges (\<lambda>errors. Inl e) False"
  by (rule judgesI [of _ "Inl e"]) simp_all

lemma judges_append_messages [judges_intros]: "judges (\<lambda>errors. Inr (errors @ ms)) (ms = [])"
  by (rule judgesI [of _ "Inr ms"]) simp_all

lemma judges_report [judges_intros]: "judges (\<lambda>errors. Inr (report m errors)) False"
  using judges_append_messages [of "[m]"] by (simp add: report_def)

lemma judges_report_if [judges_intros]: "judges (\<lambda>errors. Inr (report_if b m errors)) (\<not> b)"
  using judges_report [of m] judges_skip by (cases b) (simp_all add: report_if_def)

lemma judges_bind:
  assumes f: "judges f P" and g: "judges g Q"
  shows "judges (\<lambda>errors. bindR (f errors) g) (P \<and> Q)"
proof -
  obtain R where R: "\<forall>errors. f errors = bindR R (\<lambda>ms. Inr (errors @ ms))" "R = Inr [] \<longleftrightarrow> P"
    using judgesE [OF f] by blast
  obtain S where S: "\<forall>errors. g errors = bindR S (\<lambda>ms. Inr (errors @ ms))" "S = Inr [] \<longleftrightarrow> Q"
    using judgesE [OF g] by blast
  show ?thesis
  proof (rule judgesI)
    show "bindR (f errors) g = bindR (bindR R (\<lambda>ms. bindR S (\<lambda>ns. Inr (ms @ ns)))) (\<lambda>ms. Inr (errors @ ms))" for errors
      by (cases R; cases S) (simp_all add: R(1) S(1))
    show "bindR R (\<lambda>ms. bindR S (\<lambda>ns. Inr (ms @ ns))) = Inr [] \<longleftrightarrow> P \<and> Q"
      unfolding R(2) [symmetric] S(2) [symmetric] by (cases R; cases S) simp_all
  qed
qed

lemma judges_foldR [judges_intros]:
  "(\<And>x. x \<in> set xs \<Longrightarrow> judges (f x) (P x)) \<Longrightarrow> judges (foldR f xs) (\<forall>x \<in> set xs. P x)"
proof (induction xs)
  case Nil
  show ?case by (rule judges_cong [OF _ judges_iff [OF judges_skip]]) simp_all
next
  case (Cons x xs)
  then have "judges (\<lambda>errors. bindR (f x errors) (foldR f xs)) (P x \<and> (\<forall>x \<in> set xs. P x))"
    by (intro judges_bind) simp_all
  then show ?case by (auto intro!: judges_cong [OF _ judges_iff])
qed

lemma judges_fold [judges_intros]:
  "(\<And>x. x \<in> set xs \<Longrightarrow> judges (\<lambda>errors. Inr (f x errors)) (P x)) \<Longrightarrow>
     judges (\<lambda>errors. Inr (fold f xs errors)) (\<forall>x \<in> set xs. P x)"
proof (induction xs)
  case Nil
  show ?case using judges_skip by simp
next
  case (Cons x xs)
  then have "judges (\<lambda>errors. bindR (Inr (f x errors)) (\<lambda>errors. Inr (fold f xs errors)))
      (P x \<and> (\<forall>x \<in> set xs. P x))"
    by (intro judges_bind) simp_all
  then show ?case by simp
qed

lemma judges_perform_Nil [judges_intros]: "judges (\<lambda>errors. Inr (perform [] errors)) True"
  by (simp add: judges_def appends_def)

lemma judges_perform_Cons [judges_intros]:
  assumes "judges (\<lambda>errors. Inr (f errors)) P" and "judges (\<lambda>errors. Inr (perform fs errors)) Q"
  shows "judges (\<lambda>errors. Inr (perform (f # fs) errors)) (P \<and> Q)"
  using judges_bind [OF assms] by simp

lemma judges_if [judges_intros]:
  "(b \<Longrightarrow> judges f P) \<Longrightarrow> (\<not> b \<Longrightarrow> judges g Q) \<Longrightarrow>
     judges (\<lambda>errors. if b then f errors else g errors) (if b then P else Q)"
  by (cases b) simp_all

lemma judges_then:
  assumes "judges (\<lambda>errors. Inr (f errors)) P" and "judges g Q"
  shows "judges (\<lambda>errors. g (f errors)) (P \<and> Q)"
  using judges_bind [OF assms] by simp

text \<open>A step that first asks the host something; the question may raise.\<close>

lemma judges_ask [judges_intros]:
  assumes "\<And>x. m = Inr x \<Longrightarrow> judges (f x) (P x)"
  shows "judges (\<lambda>errors. bindR m (\<lambda>x. f x errors)) (\<exists>x. m = Inr x \<and> P x)"
proof (cases m)
  case (Inl e)
  then show ?thesis using judges_raise by simp
next
  case (Inr x)
  with assms show ?thesis by simp
qed

subsection \<open>What a check raises\<close>

definition raises_only :: "(exc \<Rightarrow> bool) \<Rightarrow> (messages \<Rightarrow> messages result) \<Rightarrow> bool" where
  "raises_only E f \<longleftrightarrow> (\<forall>errors e. f errors = Inl e \<longrightarrow> E e)"

named_theorems raises_intros

lemma raises_only_pure [raises_intros]: "raises_only E (\<lambda>errors. Inr (f errors))"
  by (simp add: raises_only_def)

lemma raises_only_bind: "raises_only E f \<Longrightarrow> raises_only E g \<Longrightarrow> raises_only E (\<lambda>errors. bindR (f errors) g)"
  by (auto simp: raises_only_def bindR_eq_Inl)

lemma raises_only_ask [raises_intros]:
  "(\<And>e. m = Inl e \<Longrightarrow> E e) \<Longrightarrow> (\<And>x. m = Inr x \<Longrightarrow> raises_only E (f x)) \<Longrightarrow>
     raises_only E (\<lambda>errors. bindR m (\<lambda>x. f x errors))"
  by (auto simp: raises_only_def bindR_eq_Inl)

lemma raises_only_foldR [raises_intros]:
  "(\<And>x. x \<in> set xs \<Longrightarrow> raises_only E (f x)) \<Longrightarrow> raises_only E (foldR f xs)"
proof (induction xs)
  case Nil
  then show ?case by (simp add: raises_only_def)
next
  case (Cons x xs)
  then have "raises_only E (\<lambda>errors. bindR (f x errors) (foldR f xs))"
    by (intro raises_only_bind) simp_all
  then show ?case by (simp add: raises_only_def)
qed

lemma raises_only_if [raises_intros]:
  "(b \<Longrightarrow> raises_only E f) \<Longrightarrow> (\<not> b \<Longrightarrow> raises_only E g) \<Longrightarrow>
     raises_only E (\<lambda>errors. if b then f errors else g errors)"
  by (cases b) simp_all

lemma judges_silent: "judges f P \<Longrightarrow> f errors = Inr errors \<longleftrightarrow> P"
proof -
  assume "judges f P"
  then obtain R where "f errors = bindR R (\<lambda>ms. Inr (errors @ ms))" "R = Inr [] \<longleftrightarrow> P"
    using judgesE by blast
  then show ?thesis by (cases R) auto
qed

subsection \<open>The interface of a check\<close>

locale check_pass =
  fixes pass :: "messages \<Rightarrow> messages result"
    and sound :: bool
  assumes pass_judges: "judges pass sound"
begin

lemma pass_outcome:
  "(\<exists>ms. pass errors = Inr (errors @ ms) \<and> (ms = [] \<longleftrightarrow> sound)) \<or> (\<exists>e. pass errors = Inl e \<and> \<not> sound)"
proof -
  obtain R where R: "pass errors = bindR R (\<lambda>ms. Inr (errors @ ms))" "R = Inr [] \<longleftrightarrow> sound"
    using judgesE [OF pass_judges] by blast
  then show ?thesis by (cases R) auto
qed

lemma pass_silent: "pass errors = Inr errors \<longleftrightarrow> sound"
  using pass_judges by (rule judges_silent)

lemma pass_empty: "pass errors = Inr [] \<longleftrightarrow> errors = [] \<and> sound"
  using pass_outcome [of errors] by auto

lemma pass_then: "judges next_pass P \<Longrightarrow> judges (\<lambda>errors. bindR (pass errors) next_pass) (sound \<and> P)"
  using pass_judges by (rule judges_bind)

end

end
