(* ===== verification/RepoTextSpec.thy ===== *)
theory RepoTextSpec
  imports RepoText RepoLog
begin

text \<open>
  What the text checks of \<open>scripts/check_repository.py\<close> mean: the lines of \<open>splitlines\<close> are exactly the
  pieces of the text between line breaks, \<open>check_text_hygiene\<close> stays silent exactly on the encodings of
  clean texts, and the links of \<open>iter_markdown_links\<close> are the matches on the lines outside fences.
\<close>

subsection \<open>Lines\<close>

lemma scan_lines_concat:
  "concat (map (\<lambda>(line, ending). line @ ending) (scan_lines acc s)) = rev acc @ s"
proof (induction acc s rule: scan_lines.induct)
  case (2 acc c s)
  then show ?case by (cases s) auto
qed simp

definition line_ending :: "ustring \<Rightarrow> bool" where
  "line_ending e \<longleftrightarrow> e = [13, 10] \<or> (\<exists>c. line_break c \<and> e = [c])"

text \<open>Every piece is free of line breaks, and every piece but the last one has an ending.\<close>

lemma scan_lines_shape:
  assumes "list_all (\<lambda>c. \<not> line_break c) acc"
  shows "list_all (\<lambda>(line, ending). list_all (\<lambda>c. \<not> line_break c) line \<and> (line_ending ending \<or> ending = [] \<and> line \<noteq> []))
      (scan_lines acc s) \<and>
    list_all (\<lambda>(line, ending). line_ending ending) (butlast (scan_lines acc s))"
  using assms
proof (induction acc s rule: scan_lines.induct)
  case (1 acc)
  then show ?case by simp
next
  case (2 acc c s)
  show ?case
  proof (cases "c = 13 \<and> s \<noteq> [] \<and> hd s = 10")
    case True
    with 2 show ?thesis by (auto simp: line_ending_def)
  next
    case False
    note no_crlf = this
    show ?thesis
    proof (cases "line_break c")
      case True
      with no_crlf 2 show ?thesis by (auto simp: line_ending_def)
    next
      case False
      with no_crlf 2 show ?thesis by (auto simp del: split_paired_All)
    qed
  qed
qed

subsection \<open>Blanks at the end of a line\<close>

text \<open>No blank stands before a line break or at the end of the text.\<close>

definition no_blank_ends :: "ustring \<Rightarrow> bool" where
  "no_blank_ends t \<longleftrightarrow>
     successively (\<lambda>c d. blank c \<longrightarrow> \<not> line_break d) t \<and> (t = [] \<or> \<not> blank (last t))"

lemma line_break_not_blank: "line_break c \<Longrightarrow> \<not> blank c"
  by (auto simp: line_break_def blank_def)

lemma trailing_blank_rev: "trailing_blank (rev acc) \<longleftrightarrow> acc \<noteq> [] \<and> blank (hd acc)"
proof -
  have "trailing_blank (rev acc) \<longleftrightarrow> dropWhile blank acc \<noteq> acc"
    by (simp only: trailing_blank_def rstrip_by_def rev_rev_ident rev_is_rev_conv)
  also have "\<dots> \<longleftrightarrow> acc \<noteq> [] \<and> blank (hd acc)"
  proof (cases acc)
    case (Cons c acc')
    have "length (dropWhile blank acc') \<le> length acc'" by (rule length_dropWhile_le)
    then have "dropWhile blank acc' \<noteq> c # acc'" by auto
    with Cons show ?thesis by simp
  qed simp
  finally show ?thesis .
qed

lemma successively_no_break:
  "list_all (\<lambda>c. \<not> line_break c) s \<Longrightarrow> successively (\<lambda>c d. blank c \<longrightarrow> \<not> line_break d) s"
  by (induction s rule: induct_list012) auto

lemma no_blank_ends_piece:
  assumes "list_all (\<lambda>c. \<not> line_break c) acc"
  shows "no_blank_ends (rev acc) \<longleftrightarrow> acc = [] \<or> \<not> blank (hd acc)"
proof -
  have "successively (\<lambda>c d. blank c \<longrightarrow> \<not> line_break d) (rev acc)"
    using assms by (intro successively_no_break) (simp add: list_all_iff)
  then show ?thesis by (simp add: no_blank_ends_def last_rev)
qed

lemma no_blank_ends_break:
  assumes "list_all (\<lambda>c. \<not> line_break c) acc" and "line_break c"
  shows "no_blank_ends (rev acc @ c # s) \<longleftrightarrow> (acc = [] \<or> \<not> blank (hd acc)) \<and> no_blank_ends s"
proof -
  have "successively (\<lambda>c d. blank c \<longrightarrow> \<not> line_break d) (rev acc)"
    using assms(1) by (intro successively_no_break) (simp add: list_all_iff)
  with assms(2) show ?thesis
    by (cases s) (auto simp: no_blank_ends_def successively_append_iff successively_Cons last_rev
        line_break_not_blank)
qed

lemma scan_lines_blank_ends:
  assumes "list_all (\<lambda>c. \<not> line_break c) acc"
  shows "(\<forall>p \<in> set (scan_lines acc s). \<not> trailing_blank (fst p)) \<longleftrightarrow> no_blank_ends (rev acc @ s)"
  using assms
proof (induction acc s rule: scan_lines.induct)
  case (1 acc)
  then show ?case by (auto simp: no_blank_ends_piece trailing_blank_rev)
next
  case (2 acc c s)
  have break13: "line_break 13" "line_break 10" by (simp_all add: line_break_def)
  show ?case
  proof (cases "c = 13 \<and> s \<noteq> [] \<and> hd s = 10")
    case True
    then obtain s' where s: "s = 10 # s'" by (cases s) auto
    have "no_blank_ends s \<longleftrightarrow> no_blank_ends s'"
      unfolding s using no_blank_ends_break [of "[]" 10 s'] break13 by simp
    with True s 2 show ?thesis
      using no_blank_ends_break [of acc 13 s] break13 by (auto simp: trailing_blank_rev)
  next
    case False
    note no_crlf = this
    show ?thesis
    proof (cases "line_break c")
      case True
      with no_crlf 2 show ?thesis
        using no_blank_ends_break [of acc c s] by (auto simp: trailing_blank_rev)
    next
      case False
      with no_crlf 2 show ?thesis by auto
    qed
  qed
qed

subsection \<open>check_text_hygiene\<close>

definition text_file :: "path \<Rightarrow> bool" where
  "text_file p \<longleftrightarrow> py_lower (py_suffix (file_name_of p)) \<in> set TEXT_SUFFIXES"

text \<open>Line feeds only, a final line feed unless empty, and no blank at the end of a line.\<close>

definition clean_text :: "ustring \<Rightarrow> bool" where
  "clean_text t \<longleftrightarrow> 13 \<notin> set t \<and> (t = [] \<or> last t = 10) \<and> no_blank_ends t"

lemma utf8_char_bytes:
  assumes "scalar c"
  shows "c < 128 \<Longrightarrow> utf8_char c = [byte_of c]"
    and "128 \<le> c \<Longrightarrow> b \<in> set (utf8_char c) \<Longrightarrow> 128 \<le> unat b"
proof -
  show "c < 128 \<Longrightarrow> utf8_char c = [byte_of c]" by (simp add: utf8_char_def)
  assume c: "128 \<le> c" and b: "b \<in> set (utf8_char c)"
  have "c < 1114112" using assms by (auto simp: scalar_def)
  then have "c div 4096 div 64 < 8" "c div 4096 < 272" by auto
  with c b show "128 \<le> unat b"
    by (auto simp: utf8_char_def unat_byte_of split: if_splits)
qed

lemma byte_of_eq: "m < 256 \<Longrightarrow> n < 256 \<Longrightarrow> byte_of m = byte_of n \<longleftrightarrow> m = n"
  by (metis unat_byte_of)

lemma utf8_char_has:
  assumes "scalar c" and "a < 128"
  shows "byte_of a \<in> set (utf8_char c) \<longleftrightarrow> c = a" and "last (utf8_char c) = byte_of a \<longleftrightarrow> c = a"
proof -
  have small: "c < 128 \<Longrightarrow> utf8_char c = [byte_of c] \<and> (byte_of c = byte_of a \<longleftrightarrow> c = a)"
    using assms by (simp add: utf8_char_def byte_of_eq)
  have large: "byte_of a \<notin> set (utf8_char c)" if "128 \<le> c"
    using utf8_char_bytes(2) [OF assms(1) that, of "byte_of a"] assms(2) by (auto simp: unat_byte_of)
  have "last (utf8_char c) \<in> set (utf8_char c)" by (simp add: utf8_char_not_Nil)
  with large have large': "last (utf8_char c) \<noteq> byte_of a" if "128 \<le> c" using that by auto
  show "byte_of a \<in> set (utf8_char c) \<longleftrightarrow> c = a" using small large assms(2) by (cases "c < 128") auto
  show "last (utf8_char c) = byte_of a \<longleftrightarrow> c = a" using small large' assms(2) by (cases "c < 128") auto
qed

lemma utf8_encode_has:
  "list_all scalar t \<Longrightarrow> a < 128 \<Longrightarrow> byte_of a \<in> set (utf8_encode t) \<longleftrightarrow> a \<in> set t"
  by (induction t) (auto simp: utf8_encode_def utf8_char_has)

lemma utf8_encode_last:
  assumes "list_all scalar t" and "t \<noteq> []" and "a < 128"
  shows "last (utf8_encode t) = byte_of a \<longleftrightarrow> last t = a"
proof -
  obtain u c where t: "t = u @ [c]" using assms(2) by (metis rev_exhaust)
  with assms show ?thesis by (simp add: utf8_encode_def utf8_char_not_Nil utf8_char_has)
qed

lemma utf8_encode_Nil: "utf8_encode t = [] \<longleftrightarrow> t = []"
  by (cases t) (simp_all add: utf8_encode_def utf8_char_not_Nil)

definition clean_file :: "byte list option \<Rightarrow> bool" where
  "clean_file raw \<longleftrightarrow> (\<exists>t. list_all scalar t \<and> raw = Some (utf8_encode t) \<and> clean_text t)"

lemma utf8_decode_iff: "utf8_decode raw = Some t \<longleftrightarrow> list_all scalar t \<and> raw = utf8_encode t"
  using utf8_decode_encode utf8_encode_decode by metis

lemma clean_file_decode: "clean_file (Some raw) \<longleftrightarrow> (\<exists>t. utf8_decode raw = Some t \<and> clean_text t)"
  unfolding clean_file_def utf8_decode_iff by blast

lemma fst_enumerate_all: "(\<forall>(n, x) \<in> set (enumerate k xs). P x) \<longleftrightarrow> (\<forall>x \<in> set xs. P x)"
  by (induction xs arbitrary: k) auto

text \<open>The whole function on every branch: its flag and its silence.\<close>

lemma check_text_hygiene_judges:
  "judges (\<lambda>errors. bindR (check_text_hygiene repository p errors) (\<lambda>(valid, errors). Inr errors))
     (text_file p \<longrightarrow> clean_file (file_contents repository (path_parts p)))"
proof (cases "text_file p")
  case False
  then show ?thesis using judges_skip by (simp add: check_text_hygiene_def text_file_def eta_contract_eq)
next
  case True
  note textual = this
  show ?thesis
  proof (cases "file_contents repository (path_parts p)")
    case None
    with textual show ?thesis
      using judges_raise by (simp add: check_text_hygiene_def text_file_def clean_file_def)
  next
    case (Some raw)
    note contents = this
    show ?thesis
    proof (cases "utf8_decode raw")
      case None
      then have "\<not> clean_file (Some raw)" by (auto simp: clean_file_def utf8_decode_encode)
      with None contents textual show ?thesis
        using judges_report by (simp add: check_text_hygiene_def text_file_def)
    next
      case (Some t)
      then have t: "list_all scalar t" "raw = utf8_encode t" by (simp_all add: utf8_decode_iff)
      have has: "13 \<in> set raw \<longleftrightarrow> 13 \<in> set t" "raw = [] \<longleftrightarrow> t = []"
          "raw \<noteq> [] \<Longrightarrow> last raw = 10 \<longleftrightarrow> last t = 10"
        using t utf8_encode_has [of t 13] utf8_encode_last [of t 10] utf8_encode_Nil [of t]
        by (simp_all add: byte_of_def)
      have clean: "clean_file (Some raw) \<longleftrightarrow> clean_text t"
        using Some by (simp add: clean_file_decode)
      have ends: "(\<forall>(n, line) \<in> set (enumerate 1 (splitlines t)). \<not> trailing_blank line) \<longleftrightarrow> no_blank_ends t"
        unfolding fst_enumerate_all using scan_lines_blank_ends [of "[]" t] by (simp add: splitlines_def)
      let ?checks = "\<lambda>errors. Inr (perform
         [report_if (13 \<in> set raw) (ascii ''non-LF line ending: '' @ as_posix p),
          report_if (raw \<noteq> [] \<and> last raw \<noteq> 10) (ascii ''missing final newline: '' @ as_posix p),
          fold (\<lambda>(number, line). report_if (trailing_blank line)
              (ascii ''trailing whitespace: '' @ as_posix p @ ascii '':'' @ py_str_nat number))
            (enumerate 1 (splitlines t))] errors)"
      have "judges ?checks (13 \<notin> set raw \<and> \<not> (raw \<noteq> [] \<and> last raw \<noteq> 10) \<and>
          (\<forall>(n, line) \<in> set (enumerate 1 (splitlines t)). \<not> trailing_blank line) \<and> True)"
        by (intro judges_perform_Cons judges_perform_Nil judges_report_if judges_fold)
          (auto intro: judges_report_if split: prod.splits)
      moreover have "13 \<notin> set raw \<and> \<not> (raw \<noteq> [] \<and> last raw \<noteq> 10) \<and>
          (\<forall>(n, line) \<in> set (enumerate 1 (splitlines t)). \<not> trailing_blank line) \<and> True \<longleftrightarrow> clean_text t"
        unfolding ends clean_text_def using has by blast
      ultimately have "judges ?checks (clean_text t)" by (rule judges_iff)
      with contents Some textual clean show ?thesis
        by (simp add: check_text_hygiene_def text_file_def)
    qed
  qed
qed

subsection \<open>iter_markdown_links\<close>

definition fence_line :: "ustring \<Rightarrow> bool" where
  "fence_line line \<longleftrightarrow> starts_with (ascii ''```'') (lstrip_by py_space line)"

text \<open>A line holds links when it is no fence and an even number of fences stand before it.\<close>

definition open_line :: "ustring list \<Rightarrow> nat \<Rightarrow> bool" where
  "open_line ls i \<longleftrightarrow> i < length ls \<and> \<not> fence_line (ls ! i) \<and> even (length (filter fence_line (take i ls)))"

definition line_targets :: "ustring \<Rightarrow> ustring list" where
  "line_targets line = map (\<lambda>m. py_strip (the (re_group m 1))) (finditer MARKDOWN_LINK line)"

definition links_on :: "ustring list \<Rightarrow> (nat \<times> ustring) set" where
  "links_on ls = {(n, target). \<exists>i. n = Suc i \<and> open_line ls i \<and> target \<in> set (line_targets (ls ! i))}"

lemma ex_nat_split: "(\<exists>i. P i) \<longleftrightarrow> P 0 \<or> (\<exists>i. P (Suc i))"
  by (metis not0_implies_Suc)

lemma links_of_lines_member:
  "(n, target) \<in> set (links_of_lines fence (enumerate k ls)) \<longleftrightarrow>
     (\<exists>i. n = k + i \<and> i < length ls \<and> \<not> fence_line (ls ! i) \<and>
        (even (length (filter fence_line (take i ls))) \<longleftrightarrow> \<not> fence) \<and> target \<in> set (line_targets (ls ! i)))"
proof (induction ls arbitrary: fence k)
  case Nil
  then show ?case by simp
next
  case (Cons l ls)
  show ?case
    by (subst ex_nat_split) (auto simp: fence_line_def [symmetric] Cons.IH line_targets_def)
qed

lemma iter_markdown_links_set:
  "iter_markdown_links repository p = Inr links \<longleftrightarrow>
     (\<exists>t. read_text repository p = Inr t \<and> links = links_of_lines False (enumerate 1 (splitlines t)))"
  by (cases "read_text repository p") (auto simp: iter_markdown_links_def)

lemma links_of_text: "set (links_of_lines False (enumerate 1 ls)) = links_on ls"
  by (auto simp: links_of_lines_member links_on_def open_line_def)

end
