(* ===== verification/RepoWorkflowSpec.thy ===== *)
theory RepoWorkflowSpec
  imports RepoWorkflow RepoTextSpec
begin

text \<open>
  What the workflow reader of \<open>scripts/check_repository.py\<close> finds, said over the lines of the file:
  which lines lie in a block scalar, which lines are the items of a \<open>steps:\<close> block, and what the Go
  policy demands of the steps.
\<close>

subsection \<open>Block scalars\<close>

definition opens_scalar :: "ustring \<Rightarrow> bool" where
  "opens_scalar raw \<longleftrightarrow> re_search WORKFLOW_BLOCK_SCALAR (bare_line raw) \<noteq> None"

text \<open>A line that a block scalar of indentation \<open>b\<close> takes in: blank, or indented deeper.\<close>

definition deeper :: "nat \<Rightarrow> ustring \<Rightarrow> bool" where
  "deeper b raw \<longleftrightarrow> py_strip (bare_line raw) = [] \<or> b < indent_of (bare_line raw)"

definition in_scalar :: "ustring list \<Rightarrow> nat \<Rightarrow> bool" where
  "in_scalar raws j \<longleftrightarrow>
     (\<exists>i < j. opens_scalar (raws ! i) \<and> (\<forall>k \<in> {i<..j}. deeper (indent_of (bare_line (raws ! i))) (raws ! k)))"

definition blanked :: "ustring \<Rightarrow> ustring" where
  "blanked raw = (if ends_with [10] raw then [10] else [])"

text \<open>A line that opens a scalar is not blank.\<close>

lemma py_strip_Nil: "py_strip s = [] \<longleftrightarrow> list_all py_space s"
proof
  assume "py_strip s = []"
  then have "dropWhile py_space (rev (dropWhile py_space s)) = []"
    by (simp add: py_strip_def lstrip_by_def rstrip_by_def)
  then have "\<forall>c \<in> set (dropWhile py_space s). py_space c" by (simp add: dropWhile_eq_Nil_conv)
  then have "dropWhile py_space s = []" by (metis hd_dropWhile hd_in_set)
  then show "list_all py_space s" by (simp add: dropWhile_eq_Nil_conv list_all_iff)
next
  assume "list_all py_space s"
  then have "dropWhile py_space s = []" by (simp add: dropWhile_eq_Nil_conv list_all_iff)
  then show "py_strip s = []" unfolding py_strip_def lstrip_by_def rstrip_by_def by (simp only: rev.simps dropWhile.simps)
qed

lemma rx_seq_first_char:
  "rx_match (rx_seq (Chr c # r # rs)) (pre, s, caps) \<noteq> [] \<Longrightarrow> s \<noteq> [] \<and> hd s = c"
  by (cases s) (auto split: if_splits)

lemma re_search_from_char:
  "re_search_from (rx_seq (Chr c # r # rs)) pre s \<noteq> None \<Longrightarrow> c \<in> set s"
proof (induction s arbitrary: pre)
  case Nil
  then show ?case using rx_seq_first_char [of c r rs pre "[]" "[]"]
    by (auto simp del: rx_seq.simps split: list.splits)
next
  case (Cons x s)
  show ?case
  proof (cases "rx_match (rx_seq (Chr c # r # rs)) (pre, x # s, []) = []")
    case True
    with Cons show ?thesis by (auto simp del: rx_seq.simps)
  next
    case False
    then show ?thesis using rx_seq_first_char [of c r rs pre "x # s" "[]"] by auto
  qed
qed

lemma opens_scalar_not_blank:
  assumes "opens_scalar raw"
  shows "py_strip (bare_line raw) \<noteq> []"
proof -
  have "WORKFLOW_BLOCK_SCALAR = rx_seq (Chr 58 # rx_spaces # scalar_mark @ [rx_spaces, rx_comment, Eol])"
    by (simp add: WORKFLOW_BLOCK_SCALAR_def)
  with assms have "58 \<in> set (bare_line raw)"
    unfolding opens_scalar_def re_search_def by (metis re_search_from_char)
  moreover have "\<not> py_space 58" by (simp add: py_space_def in_class_def space_ranges_def)
  ultimately show ?thesis by (auto simp: py_strip_Nil list_all_iff)
qed

lemma structure_of_length [simp]: "length (structure_of st raws) = length raws"
  by (induction st raws rule: structure_of.induct) (simp_all add: Let_def)

text \<open>The state of the loop, as if a scalar of that indentation had been opened before the first line.\<close>

definition swallowed :: "nat option \<Rightarrow> ustring list \<Rightarrow> nat \<Rightarrow> bool" where
  "swallowed st raws j \<longleftrightarrow> (\<exists>b. st = Some b \<and> (\<forall>k \<le> j. deeper b (raws ! k))) \<or> in_scalar raws j"

lemma in_scalar_Cons:
  "in_scalar (raw # raws) (Suc j) \<longleftrightarrow>
     opens_scalar raw \<and> (\<forall>k \<le> j. deeper (indent_of (bare_line raw)) (raws ! k)) \<or> in_scalar raws j"
proof -
  have shift: "(\<forall>k \<in> {Suc i<..Suc j}. P ((raw # raws) ! k)) \<longleftrightarrow> (\<forall>k \<in> {i<..j}. P (raws ! k))" for i P
    by (metis (no_types, lifting) Suc_le_mono Suc_less_eq Suc_lessE greaterThanAtMost_iff nth_Cons_Suc)
  have first: "(\<forall>k \<in> {0<..Suc j}. P ((raw # raws) ! k)) \<longleftrightarrow> (\<forall>k \<le> j. P (raws ! k))" for P
    by (metis Suc_le_mono greaterThanAtMost_iff gr0_conv_Suc nth_Cons_Suc)
  show ?thesis unfolding in_scalar_def
    by (subst ex_nat_split) (simp only: nth_Cons_0 nth_Cons_Suc shift first Suc_less_eq zero_less_Suc simp_thms)
qed

lemma structure_of_Cons:
  "structure_of st (raw # rest) =
     (if \<exists>b. st = Some b \<and> deeper b raw then blanked raw # structure_of st rest
      else raw # structure_of (if opens_scalar raw then Some (indent_of (bare_line raw)) else None) rest)"
proof -
  have "(case st of None \<Rightarrow> False | Some b \<Rightarrow> py_strip (bare_line raw) = [] \<or> b < indent_of (bare_line raw))
      \<longleftrightarrow> (\<exists>b. st = Some b \<and> deeper b raw)"
    by (simp add: deeper_def split: option.split)
  then show ?thesis
    by (auto simp: Let_def blanked_def opens_scalar_def simp del: not_None_eq split_paired_Ex)
qed

lemma swallowed_zero: "swallowed st (raw # rest) 0 \<longleftrightarrow> (\<exists>b. st = Some b \<and> deeper b raw)"
  by (auto simp: swallowed_def in_scalar_def)

lemma swallowed_inside:
  assumes "deeper b raw"
  shows "swallowed (Some b) (raw # rest) (Suc i) \<longleftrightarrow> swallowed (Some b) rest i"
proof -
  have "deeper b x" if "opens_scalar raw" "deeper (indent_of (bare_line raw)) x" for x
    using that assms opens_scalar_not_blank [of raw] by (auto simp: deeper_def)
  moreover have "(\<forall>k \<le> Suc i. deeper b ((raw # rest) ! k)) \<longleftrightarrow> (\<forall>k \<le> i. deeper b (rest ! k))"
    using assms by (metis Suc_le_mono le0 not0_implies_Suc nth_Cons_0 nth_Cons_Suc)
  ultimately show ?thesis by (auto simp: swallowed_def in_scalar_Cons)
qed

lemma swallowed_outside:
  assumes "\<nexists>b. st = Some b \<and> deeper b raw"
  shows "swallowed st (raw # rest) (Suc i) \<longleftrightarrow>
    swallowed (if opens_scalar raw then Some (indent_of (bare_line raw)) else None) rest i"
proof -
  have "(\<forall>k \<le> Suc i. deeper b ((raw # rest) ! k)) \<Longrightarrow> deeper b raw" for b by fastforce
  with assms show ?thesis by (auto simp: swallowed_def in_scalar_Cons)
qed

lemma structure_of_nth:
  "j < length raws \<Longrightarrow>
     structure_of st raws ! j = (if swallowed st raws j then blanked (raws ! j) else raws ! j)"
proof (induction raws arbitrary: st j)
  case Nil
  then show ?case by simp
next
  case (Cons raw rest)
  show ?case
  proof (cases j)
    case 0
    then show ?thesis by (simp only: structure_of_Cons swallowed_zero nth_Cons_0) auto
  next
    case (Suc i)
    with Cons.prems have i: "i < length rest" by simp
    show ?thesis
    proof (cases "\<exists>b. st = Some b \<and> deeper b raw")
      case True
      then obtain b where "st = Some b" "deeper b raw" by blast
      with Suc Cons.IH [OF i] show ?thesis
        by (simp only: structure_of_Cons swallowed_inside nth_Cons_Suc) simp
    next
      case False
      show ?thesis
        unfolding Suc structure_of_Cons if_not_P [OF False] nth_Cons_Suc swallowed_outside [OF False]
        by (rule Cons.IH [OF i])
    qed
  qed
qed

lemma structure_lines_nth:
  "j < length raws \<Longrightarrow>
     structure_of None raws ! j = (if in_scalar raws j then blanked (raws ! j) else raws ! j)"
  using structure_of_nth [of j raws None] by (simp add: swallowed_def)

subsection \<open>The items of a steps block\<close>

definition skippable :: "ustring \<Rightarrow> bool" where
  "skippable line \<longleftrightarrow> py_strip (bare_line line) = [] \<or> starts_with [35] (py_strip (bare_line line))"

text \<open>The lines a block of indentation \<open>b\<close> extends over.\<close>

definition block_line :: "nat \<Rightarrow> ustring \<Rightarrow> bool" where
  "block_line b line \<longleftrightarrow> skippable line \<or> b < indent_of (bare_line line)"

text \<open>The indentation of the dash of a line that starts an item.\<close>

definition item_indent :: "ustring \<Rightarrow> nat option" where
  "item_indent line =
     (if skippable line then None
      else map_option (\<lambda>m. length (group_of m 1)) (re_match WORKFLOW_STEP_START (bare_line line)))"

definition block_lines :: "nat \<Rightarrow> ustring list \<Rightarrow> ustring list" where
  "block_lines b ls = takeWhile (block_line b) ls"

text \<open>The first item of the block fixes the indentation of its items.\<close>

definition first_indent :: "nat option \<Rightarrow> ustring list \<Rightarrow> nat option" where
  "first_indent known ls =
     (case known of Some i \<Rightarrow> Some i
      | None \<Rightarrow> (case List.map_filter item_indent ls of [] \<Rightarrow> None | i # _ \<Rightarrow> Some i))"

definition item_numbers :: "nat option \<Rightarrow> nat \<Rightarrow> ustring list \<Rightarrow> nat list" where
  "item_numbers known k ls =
     map fst (filter (\<lambda>(n, line). item_indent line \<noteq> None \<and> item_indent line = first_indent known ls)
       (enumerate k ls))"

lemma first_indent_known [simp]: "first_indent (Some i) ls = Some i"
  by (simp add: first_indent_def)

lemma first_indent_Cons:
  "first_indent known (l # ls) =
     (case item_indent l of None \<Rightarrow> first_indent known ls
      | Some i \<Rightarrow> Some (case known of None \<Rightarrow> i | Some j \<Rightarrow> j))"
  by (simp add: first_indent_def List.map_filter_simps split: option.split)

lemma item_numbers_Cons:
  "item_numbers known k (l # ls) =
     (case item_indent l of None \<Rightarrow> item_numbers known (Suc k) ls
      | Some i \<Rightarrow> (let j = (case known of None \<Rightarrow> i | Some j \<Rightarrow> j) in
          if i = j then k # item_numbers (Some j) (Suc k) ls else item_numbers (Some j) (Suc k) ls))"
  by (auto simp: item_numbers_def first_indent_Cons Let_def split: option.split)

lemma scan_steps_exact:
  "scan_steps b known k ls = (item_numbers known k (block_lines b ls), k + length (block_lines b ls))"
proof (induction b known k ls rule: scan_steps.induct)
  case (1 b known k)
  then show ?case by (simp add: item_numbers_def block_lines_def)
next
  case (2 b known k l ls)
  show ?case
  proof (cases "skippable l")
    case True
    with 2 show ?thesis
      by (simp add: skippable_def block_lines_def block_line_def item_numbers_Cons item_indent_def Let_def)
  next
    case False
    note kept = this
    show ?thesis
    proof (cases "b < indent_of (bare_line l)")
      case False
      with kept show ?thesis
        by (simp add: skippable_def block_lines_def block_line_def item_numbers_def)
    next
      case True
      show ?thesis
      proof (cases "re_match WORKFLOW_STEP_START (bare_line l)")
        case None
        with 2 kept True show ?thesis
          by (simp add: skippable_def block_lines_def block_line_def item_numbers_Cons item_indent_def Let_def)
      next
        case (Some m)
        let ?i = "length (group_of m 1)" and ?j = "case known of None \<Rightarrow> length (group_of m 1) | Some i \<Rightarrow> i"
        have "scan_steps b (Some ?j) (k + 1) ls =
            (item_numbers (Some ?j) (Suc k) (block_lines b ls), Suc k + length (block_lines b ls))"
          using 2(3) kept True Some by (simp add: skippable_def)
        with kept True Some show ?thesis
          by (cases known)
            (auto simp: skippable_def block_lines_def block_line_def item_numbers_Cons item_indent_def Let_def)
      qed
    qed
  qed
qed

lemma item_numbers_member:
  "n \<in> set (item_numbers known k ls) \<longleftrightarrow>
     (\<exists>j < length ls. n = k + j \<and> item_indent (ls ! j) \<noteq> None \<and> item_indent (ls ! j) = first_indent known ls)"
proof -
  have "n \<in> set (item_numbers known k ls) \<longleftrightarrow>
      (\<exists>line. (n, line) \<in> set (enumerate k ls) \<and> item_indent line \<noteq> None \<and>
         item_indent line = first_indent known ls)"
    unfolding item_numbers_def by (auto simp: image_iff)
  then show ?thesis unfolding in_set_enumerate_eq by (auto simp: le_iff_add)
qed

lemma sorted_item_numbers: "sorted_wrt (<) (item_numbers known k ls)"
proof (induction ls arbitrary: known k)
  case Nil
  then show ?case by (simp add: item_numbers_def)
next
  case (Cons l ls)
  then show ?case by (auto simp: item_numbers_Cons Let_def item_numbers_member split: option.split)
qed

lemma first_indent_iff:
  "first_indent None ls = Some d \<longleftrightarrow>
     (\<exists>f < length ls. item_indent (ls ! f) = Some d \<and> (\<forall>g < f. item_indent (ls ! g) = None))"
proof (induction ls)
  case Nil
  then show ?case by (simp add: first_indent_def List.map_filter_simps)
next
  case (Cons l ls)
  have later: "(\<forall>g < Suc f. item_indent ((l # ls) ! g) = None) \<longleftrightarrow>
      item_indent l = None \<and> (\<forall>g < f. item_indent (ls ! g) = None)" for f
    by (auto simp: less_Suc_eq_0_disj)
  show ?case
    by (subst ex_nat_split) (auto simp: first_indent_Cons later Cons.IH split: option.split)
qed

text \<open>
  \<open>item_of ls i n\<close>: line \<open>i\<close> is a \<open>steps:\<close> key, its block extends at least to line \<open>n\<close>, and line \<open>n\<close>
  starts an item with the indentation of the first item of the block.
\<close>

definition steps_indent :: "ustring \<Rightarrow> nat option" where
  "steps_indent line = map_option (\<lambda>m. length (group_of m 1)) (re_match WORKFLOW_STEPS_KEY (bare_line line))"

definition item_of :: "ustring list \<Rightarrow> nat \<Rightarrow> nat \<Rightarrow> bool" where
  "item_of ls i n \<longleftrightarrow> i < n \<and> n < length ls \<and>
     (\<exists>b d f. steps_indent (ls ! i) = Some b \<and> (\<forall>k \<in> {i<..n}. block_line b (ls ! k)) \<and>
        item_indent (ls ! n) = Some d \<and> f \<in> {i<..n} \<and> item_indent (ls ! f) = Some d \<and>
        (\<forall>k \<in> {i<..<f}. item_indent (ls ! k) = None))"

definition block_items :: "ustring list \<Rightarrow> nat \<Rightarrow> nat list" where
  "block_items ls i =
     (case steps_indent (ls ! i) of None \<Rightarrow> []
      | Some b \<Rightarrow> item_numbers None (Suc i) (block_lines b (drop (Suc i) ls)))"

lemma length_block_lines_less:
  "j < length (block_lines b ls) \<longleftrightarrow> j < length ls \<and> (\<forall>k \<le> j. block_line b (ls ! k))"
proof (induction ls arbitrary: j)
  case Nil
  then show ?case by (simp add: block_lines_def)
next
  case (Cons l ls)
  have "(\<forall>k \<le> Suc i. block_line b ((l # ls) ! k)) \<longleftrightarrow> block_line b l \<and> (\<forall>k \<le> i. block_line b (ls ! k))" for i
    by (metis Suc_le_mono le0 not0_implies_Suc nth_Cons_0 nth_Cons_Suc)
  with Cons show ?case by (cases j) (auto simp: block_lines_def)
qed

lemma block_lines_nth: "j < length (block_lines b ls) \<Longrightarrow> block_lines b ls ! j = ls ! j"
  by (simp add: block_lines_def takeWhile_nth)

lemma shift_range:
  "(\<forall>k \<in> {i<..Suc (i + j)}. P k) \<longleftrightarrow> (\<forall>k \<le> j. P (Suc (i + k)))"
  "(\<forall>k \<in> {i<..<Suc (i + j)}. P k) \<longleftrightarrow> (\<forall>k < j. P (Suc (i + k)))"
proof -
  have "k \<in> {i<..Suc (i + j)} \<longleftrightarrow> (\<exists>m \<le> j. k = Suc (i + m))" for k by (auto intro!: exI [of _ "k - Suc i"])
  then show "(\<forall>k \<in> {i<..Suc (i + j)}. P k) \<longleftrightarrow> (\<forall>k \<le> j. P (Suc (i + k)))" by metis
  have "k \<in> {i<..<Suc (i + j)} \<longleftrightarrow> (\<exists>m < j. k = Suc (i + m))" for k by (auto intro!: exI [of _ "k - Suc i"])
  then show "(\<forall>k \<in> {i<..<Suc (i + j)}. P k) \<longleftrightarrow> (\<forall>k < j. P (Suc (i + k)))" by metis
qed

lemma block_items_member: "i < length ls \<Longrightarrow> n \<in> set (block_items ls i) \<longleftrightarrow> item_of ls i n"
proof (cases "steps_indent (ls ! i)")
  case None
  then show ?thesis by (simp add: block_items_def item_of_def)
next
  case (Some b)
  assume i: "i < length ls"
  let ?ls = "block_lines b (drop (Suc i) ls)"
  have nth: "j < length ?ls \<Longrightarrow> ?ls ! j = ls ! Suc (i + j)" for j
    using i by (simp add: block_lines_nth)
  have less: "j < length ?ls \<longleftrightarrow> Suc (i + j) < length ls \<and> (\<forall>k \<in> {i<..Suc (i + j)}. block_line b (ls ! k))" for j
    using i unfolding shift_range by (auto simp: length_block_lines_less)
  show ?thesis
  proof
    assume "n \<in> set (block_items ls i)"
    then have "n \<in> set (item_numbers None (Suc i) ?ls)" by (simp add: block_items_def Some)
    then obtain j where "j < length ?ls" "n = Suc i + j" "item_indent (?ls ! j) \<noteq> None"
        "item_indent (?ls ! j) = first_indent None ?ls"
      unfolding item_numbers_member by blast
    then obtain d where j: "j < length ?ls" "n = Suc (i + j)" "item_indent (?ls ! j) = Some d"
        "first_indent None ?ls = Some d"
      by auto
    then obtain f where f: "f < length ?ls" "item_indent (?ls ! f) = Some d" "\<forall>g < f. item_indent (?ls ! g) = None"
      by (auto simp: first_indent_iff)
    have "f \<le> j" using f(3) j(3) by (metis linorder_not_le option.distinct(1))
    have "\<forall>k \<in> {i<..<Suc (i + f)}. item_indent (ls ! k) = None"
      unfolding shift_range using f(1,3) nth by (metis order_less_trans)
    with j f \<open>f \<le> j\<close> Some show "item_of ls i n"
      unfolding item_of_def by (auto simp: less nth intro!: exI [of _ "Suc (i + f)"])
  next
    assume "item_of ls i n"
    then obtain d f where n: "i < n" "n < length ls" "\<forall>k \<in> {i<..n}. block_line b (ls ! k)"
        "item_indent (ls ! n) = Some d" "f \<in> {i<..n}" "item_indent (ls ! f) = Some d"
        "\<forall>k \<in> {i<..<f}. item_indent (ls ! k) = None"
      using Some by (auto simp: item_of_def)
    obtain j where j: "n = Suc (i + j)" using n(1) less_natE by blast
    obtain g where g: "f = Suc (i + g)" using n(5) by (auto dest: less_natE)
    have len: "j < length ?ls" using n(2,3) unfolding less j by simp
    then have g_len: "g < length ?ls" using n(5) j g by simp
    have "\<forall>k < g. item_indent (?ls ! k) = None"
      using n(7) g_len nth unfolding g shift_range by simp
    then have "first_indent None ?ls = Some d"
      unfolding first_indent_iff using n(6) g_len nth g by auto
    then show "n \<in> set (block_items ls i)"
      using len nth n(4) by (auto simp: block_items_def Some item_numbers_member j)
  qed
qed

subsection \<open>workflow_steps\<close>

lemma mapR_keys:
  "(\<And>x. x \<in> set xs \<Longrightarrow> \<exists>y. f x = Inr y \<and> key y = g x) \<Longrightarrow>
     \<exists>ys. mapR f xs = Inr ys \<and> map key ys = map g xs"
proof (induction xs)
  case (Cons x xs)
  then obtain y ys where "f x = Inr y" "key y = g x" "mapR f xs = Inr ys" "map key ys = map g xs"
    by fastforce
  then show ?case by simp
qed simp

lemma foldR_append_keys:
  "(\<And>x s. x \<in> set xs \<Longrightarrow> \<exists>found. f x s = Inr (s @ found) \<and> map key found = h x) \<Longrightarrow>
     \<exists>out. foldR f xs s = Inr (s @ out) \<and> map key out = concat (map h xs)"
proof (induction xs arbitrary: s)
  case Nil
  then show ?case by simp
next
  case (Cons x xs)
  obtain found where found: "f x s = Inr (s @ found)" "map key found = h x"
    using Cons.prems by (meson list.set_intros(1))
  obtain out where "foldR f xs (s @ found) = Inr ((s @ found) @ out)" "map key out = concat (map h xs)"
    using Cons.IH Cons.prems by (meson list.set_intros(2))
  with found show ?case by (intro exI [of _ "found @ out"]) simp
qed

definition step_key :: "workflow_step \<Rightarrow> nat \<times> nat" where
  "step_key step = (steps_block step, step_position step)"

lemma parse_workflow_step_key:
  assumes "item_indent (ls ! start) \<noteq> None"
  shows "\<exists>step. parse_workflow_step raws ls offset block start stop = Inr step \<and> step_key step = (block, offset)"
  using assms by (auto simp: parse_workflow_step_def item_indent_def step_key_def Let_def split: if_splits prod.split)

text \<open>The steps of one block, and the steps of the file, by the offsets of their lines.\<close>

lemma block_steps_key:
  assumes "i < length ls"
  shows "\<exists>found. block_steps raws ls (i, ls ! i) steps = Inr (steps @ found) \<and>
    map step_key found = map (\<lambda>n. (line_position raws i, line_position raws n)) (block_items ls i)"
proof (cases "re_match WORKFLOW_STEPS_KEY (bare_line (ls ! i))")
  case None
  then show ?thesis by (simp add: block_steps_def block_items_def steps_indent_def)
next
  case (Some m)
  let ?b = "length (group_of m 1)" and ?items = "block_items ls i"
  let ?stop = "Suc i + length (block_lines ?b (drop (Suc i) ls))"
  have items: "scan_steps ?b None (i + 1) (drop (i + 1) ls) = (?items, ?stop)"
    using Some by (simp add: scan_steps_exact block_items_def steps_indent_def)
  let ?pairs = "zip ?items (tl ?items @ [?stop])"
  let ?parse = "\<lambda>(start, stop). parse_workflow_step raws ls (line_position raws start) (line_position raws i) start stop"
  let ?key = "\<lambda>p. (line_position raws i, line_position raws (fst p))"
  have each: "\<exists>step. ?parse p = Inr step \<and> step_key step = ?key p" if "p \<in> set ?pairs" for p
  proof -
    obtain start stop where p: "p = (start, stop)" by (cases p)
    with that have "start \<in> set ?items" by (metis set_zip_leftD)
    with assms have "item_indent (ls ! start) \<noteq> None" by (auto simp: block_items_member item_of_def)
    then show ?thesis unfolding p by (simp add: parse_workflow_step_key)
  qed
  obtain found where "mapR ?parse ?pairs = Inr found" "map step_key found = map ?key ?pairs"
    using mapR_keys [of ?pairs ?parse step_key ?key, OF each] by blast
  moreover have fst_pairs: "map fst ?pairs = ?items" by (cases ?items) (simp_all add: map_fst_zip_take)
  have by_fst: "map ?key ps = map (\<lambda>n. (line_position raws i, line_position raws n)) (map fst ps)"
    for ps :: "(nat \<times> nat) list" by simp
  have "map ?key ?pairs = map (\<lambda>n. (line_position raws i, line_position raws n)) ?items"
    unfolding by_fst fst_pairs ..
  ultimately show ?thesis using Some items by (simp add: block_steps_def)
qed

definition item_keys :: "ustring \<Rightarrow> (nat \<times> nat) list" where
  "item_keys workflow =
     (let raws = splitlines_keepends workflow; ls = structure_of None raws in
      concat (map (\<lambda>i. map (\<lambda>n. (line_position raws i, line_position raws n)) (block_items ls i))
        [0..<length ls]))"

lemma workflow_steps_keys:
  "\<exists>steps. workflow_steps workflow = Inr steps \<and> map step_key steps = item_keys workflow"
proof -
  let ?raws = "splitlines_keepends workflow"
  let ?ls = "structure_of None ?raws"
  let ?h = "\<lambda>(i, line). map (\<lambda>n. (line_position ?raws i, line_position ?raws n)) (block_items ?ls i)"
  have "\<exists>found. block_steps ?raws ?ls x s = Inr (s @ found) \<and> map step_key found = ?h x"
    if "x \<in> set (enumerate 0 ?ls)" for x s
  proof -
    have "x = (fst x, ?ls ! fst x) \<and> fst x < length ?ls"
      using that by (simp add: in_set_enumerate_eq prod_eq_iff)
    then obtain i where "x = (i, ?ls ! i)" "i < length ?ls" by blast
    with block_steps_key [of i ?ls ?raws s] show ?thesis by simp
  qed
  then obtain steps where "foldR (block_steps ?raws ?ls) (enumerate 0 ?ls) [] = Inr ([] @ steps)"
      "map step_key steps = concat (map ?h (enumerate 0 ?ls))"
    using foldR_append_keys [of "enumerate 0 ?ls" "block_steps ?raws ?ls" step_key ?h "[]"] by blast
  moreover have "map ?h (enumerate 0 ?ls) =
      map (\<lambda>i. map (\<lambda>n. (line_position ?raws i, line_position ?raws n)) (block_items ?ls i)) [0..<length ?ls]"
    by (rule nth_equalityI) (simp_all add: nth_enumerate_eq)
  ultimately show ?thesis by (simp add: workflow_steps_def item_keys_def Let_def del: structure_of_length)
qed

lemma splitlines_keepends_concat: "concat (splitlines_keepends t) = t"
  using scan_lines_concat [of "[]" t] by (simp add: splitlines_keepends_def)

lemma splitlines_keepends_not_Nil: "raw \<in> set (splitlines_keepends t) \<Longrightarrow> raw \<noteq> []"
  using scan_lines_shape [of "[]" t]
  by (auto simp: splitlines_keepends_def list_all_iff line_ending_def)

lemma line_position_less:
  assumes "m < n" and "n \<le> length raws" and "\<forall>raw \<in> set raws. raw \<noteq> []"
  shows "line_position raws m < line_position raws n"
proof -
  obtain k where n: "n = m + Suc k" using assms(1) less_iff_Suc_add by auto
  then have "take n raws = take m raws @ take (Suc k) (drop m raws)" by (simp only: take_add)
  moreover have "drop m raws = raws ! m # drop (Suc m) raws"
    using assms(1,2) by (intro Cons_nth_drop_Suc [symmetric]) simp
  moreover have "raws ! m \<noteq> []" using assms by simp
  ultimately show ?thesis by (simp add: line_position_def)
qed

lemma line_position_inject:
  assumes "m \<le> length raws" and "n \<le> length raws" and "\<forall>raw \<in> set raws. raw \<noteq> []"
  shows "line_position raws m = line_position raws n \<longleftrightarrow> m = n"
  using line_position_less [of m n raws] line_position_less [of n m raws] assms
  by (metis less_irrefl linorder_neqE_nat)

text \<open>The steps come in the order of their blocks, and within a block in the order of their lines.\<close>

definition earlier :: "nat \<times> nat \<Rightarrow> nat \<times> nat \<Rightarrow> bool" where
  "earlier a b \<longleftrightarrow> fst a < fst b \<or> fst a = fst b \<and> snd a < snd b"

lemma sorted_wrt_map_item_numbers:
  assumes "\<forall>raw \<in> set raws. raw \<noteq> []" and "\<forall>n \<in> set ns. n \<le> length raws" and "sorted_wrt (<) ns"
  shows "sorted_wrt earlier (map (\<lambda>n. (line_position raws i, line_position raws n)) ns)"
  using assms by (induction ns) (auto simp: earlier_def intro: line_position_less)

lemma block_items_less: "i < length ls \<Longrightarrow> n \<in> set (block_items ls i) \<Longrightarrow> i < n \<and> n < length ls"
  by (auto simp: block_items_member item_of_def)

lemma sorted_block_items: "sorted_wrt (<) (block_items ls i)"
  by (simp add: block_items_def sorted_item_numbers split: option.split)

lemma sorted_item_keys: "sorted_wrt earlier (item_keys t)"
proof -
  let ?raws = "splitlines_keepends t"
  let ?ls = "structure_of None ?raws"
  let ?row = "\<lambda>i. map (\<lambda>n. (line_position ?raws i, line_position ?raws n)) (block_items ?ls i)"
  have raws: "\<forall>raw \<in> set ?raws. raw \<noteq> []" using splitlines_keepends_not_Nil by blast
  have "sorted_wrt earlier (concat (map ?row [k..<length ?ls]))" if "k \<le> length ?ls" for k
    using that
  proof (induction rule: inc_induct)
    case base
    then show ?case by simp
  next
    case (step k)
    have "sorted_wrt earlier (?row k)"
    proof (rule sorted_wrt_map_item_numbers [OF raws _ sorted_block_items])
      show "\<forall>n \<in> set (block_items ?ls k). n \<le> length ?raws"
        using block_items_less [OF step(2)] by fastforce
    qed
    moreover have "earlier a b" if "a \<in> set (?row k)" "b \<in> set (concat (map ?row [Suc k..<length ?ls]))" for a b
      using that raws by (auto simp: earlier_def intro!: line_position_less)
    ultimately show ?case
      using step by (simp add: upt_conv_Cons sorted_wrt_append)
  qed
  from this [of 0] show ?thesis by (simp add: item_keys_def Let_def)
qed

lemma item_keys_set:
  "set (item_keys t) =
     {(line_position (splitlines_keepends t) i, line_position (splitlines_keepends t) n) | i n.
        item_of (structure_of None (splitlines_keepends t)) i n}"
proof -
  let ?raws = "splitlines_keepends t"
  let ?ls = "structure_of None ?raws"
  have "item_of ?ls i n \<longleftrightarrow> i < length ?ls \<and> n \<in> set (block_items ?ls i)" for i n
    using block_items_member [of i ?ls n] by (auto simp: item_of_def)
  then show ?thesis by (auto simp: item_keys_def Let_def) blast
qed

text \<open>An item stands on a line of the file that no block scalar contains.\<close>

lemma blank_line_no_item:
  assumes "ls ! n = blanked raw"
  shows "item_indent (ls ! n) = None"
proof -
  have "bare_line (ls ! n) = []" using assms by (auto simp: blanked_def bare_line_def rstrip_by_def)
  then show ?thesis by (simp add: item_indent_def skippable_def py_strip_def lstrip_by_def rstrip_by_def)
qed

lemma item_outside_scalar:
  assumes "item_of (structure_of None raws) i n"
  shows "n < length raws \<and> \<not> in_scalar raws n \<and> structure_of None raws ! n = raws ! n"
proof -
  have n: "n < length raws" "item_indent (structure_of None raws ! n) \<noteq> None"
    using assms by (auto simp: item_of_def)
  then show ?thesis
    using structure_lines_nth [of n raws] blank_line_no_item [of "structure_of None raws" n] by (auto split: if_splits)
qed

lemma line_at_position:
  "n < length raws \<Longrightarrow> take (length (raws ! n)) (drop (line_position raws n) (concat raws)) = raws ! n"
proof -
  assume "n < length raws"
  then have "concat raws = concat (take n raws) @ raws ! n @ concat (drop (Suc n) raws)"
    by (metis append_take_drop_id concat.simps(2) concat_append Cons_nth_drop_Suc)
  then show ?thesis by (simp add: line_position_def)
qed

subsection \<open>Steps over the lines of the file\<close>

text \<open>
  Line \<open>n\<close> is an item of the block whose key is on line \<open>i\<close>, said without the lines the code works on:
  lines inside block scalars are passed over, and the first item after the key fixes the column of all.
\<close>


definition step_line :: "ustring list \<Rightarrow> nat \<Rightarrow> nat \<Rightarrow> bool" where
  "step_line raws i n \<longleftrightarrow> i < n \<and> n < length raws \<and> \<not> in_scalar raws i \<and> \<not> in_scalar raws n \<and>
     (\<exists>b d f. steps_indent (raws ! i) = Some b \<and>
        (\<forall>k \<in> {i<..n}. in_scalar raws k \<or> block_line b (raws ! k)) \<and> item_indent (raws ! n) = Some d \<and>
        f \<in> {i<..n} \<and> \<not> in_scalar raws f \<and> item_indent (raws ! f) = Some d \<and>
        (\<forall>k \<in> {i<..<f}. in_scalar raws k \<or> item_indent (raws ! k) = None))"

lemma blanked_line:
  "item_indent (blanked raw) = None" "block_line b (blanked raw)" "steps_indent (blanked raw) = None"
proof -
  have bare: "bare_line (blanked raw) = []" by (auto simp: blanked_def bare_line_def rstrip_by_def)
  then have blank: "skippable (blanked raw)" by (simp add: skippable_def py_strip_def lstrip_by_def rstrip_by_def)
  then show "item_indent (blanked raw) = None" "block_line b (blanked raw)"
    by (simp_all add: item_indent_def block_line_def)
  show "steps_indent (blanked raw) = None"
    by (simp add: steps_indent_def bare WORKFLOW_STEPS_KEY_def rx_text_def re_match_def ascii_simps)
qed

lemma item_of_structure: "item_of (structure_of None raws) i n \<longleftrightarrow> step_line raws i n"
proof (cases "i < n \<and> n < length raws")
  case False
  then show ?thesis by (auto simp: item_of_def step_line_def)
next
  case True
  let ?ls = "structure_of None raws"
  have at_line: "k \<le> n \<Longrightarrow> ?ls ! k = (if in_scalar raws k then blanked (raws ! k) else raws ! k)" for k
    using True structure_lines_nth by simp
  have steps: "steps_indent (?ls ! i) = Some b \<longleftrightarrow> \<not> in_scalar raws i \<and> steps_indent (raws ! i) = Some b" for b
    using True by (simp add: at_line blanked_line)
  have item: "item_indent (?ls ! k) = Some d \<longleftrightarrow> \<not> in_scalar raws k \<and> item_indent (raws ! k) = Some d"
      "item_indent (?ls ! k) = None \<longleftrightarrow> in_scalar raws k \<or> item_indent (raws ! k) = None"
      "block_line b (?ls ! k) \<longleftrightarrow> in_scalar raws k \<or> block_line b (raws ! k)" if "k \<le> n" for k d b
    using at_line [OF that] by (simp_all add: blanked_line)
  have "(\<forall>k \<in> {i<..n}. block_line b (?ls ! k)) \<longleftrightarrow> (\<forall>k \<in> {i<..n}. in_scalar raws k \<or> block_line b (raws ! k))" for b
    using item(3) by auto
  moreover have "(\<forall>k \<in> {i<..<f}. item_indent (?ls ! k) = None) \<longleftrightarrow>
      (\<forall>k \<in> {i<..<f}. in_scalar raws k \<or> item_indent (raws ! k) = None)" if "f \<in> {i<..n}" for f
    using that item(2) by auto
  ultimately show ?thesis
    unfolding item_of_def step_line_def using True steps item(1) by (simp cong: conj_cong) blast
qed

end
