(* ===== verification/RepoPolicySpec.thy ===== *)
theory RepoPolicySpec
  imports RepoWorkflowSpec
begin

text \<open>
  What \<open>check_ci_go_policy\<close> demands: of each of the four steps exactly one occurrence, all in one
  \<open>steps:\<close> block and in this order, with the \<open>setup-go\<close> action pinned to a commit.
\<close>

definition uses_setup_go :: "workflow_step \<Rightarrow> ustring \<Rightarrow> bool" where
  "uses_setup_go step reference \<longleftrightarrow>
     dict_get (step_fields step) (ascii ''uses'') = Some (setup_prefix @ reference)"

definition runs :: "ustring list \<Rightarrow> workflow_step \<Rightarrow> bool" where
  "runs scripts step \<longleftrightarrow> unconditional step \<and> (\<exists>s \<in> set scripts. run_script step = Some s)"

text \<open>One step of the list satisfies \<open>P\<close>, and it occurs once.\<close>

definition only_step :: "(workflow_step \<Rightarrow> bool) \<Rightarrow> workflow_step list \<Rightarrow> workflow_step \<Rightarrow> bool" where
  "only_step P steps step \<longleftrightarrow> filter P steps = [step]"

definition commit_sha :: "ustring \<Rightarrow> bool" where
  "commit_sha s \<longleftrightarrow> length s = 40 \<and> (\<forall>c \<in> set s. 48 \<le> c \<and> c \<le> 57 \<or> 97 \<le> c \<and> c \<le> 102)"

text \<open>The step provisions Go from \<open>go.mod\<close>, unconditionally and without a cache.\<close>

definition provisions_go :: "workflow_step \<Rightarrow> bool" where
  "provisions_go step \<longleftrightarrow> unconditional step \<and>
     dict_get (with_fields step) (ascii ''go-version-file'') = Some (ascii ''go.mod'') \<and>
     dict_get (with_fields step) (ascii ''go-version'') = None \<and>
     (\<exists>c. dict_get (with_fields step) (ascii ''cache'') = Some c \<and> py_lower c = ascii ''false'')"

definition go_policy :: "workflow_step list \<Rightarrow> bool" where
  "go_policy steps \<longleftrightarrow>
     (\<exists>policy installer reference version gate.
        only_step (runs [ascii ''python3 scripts/check_repository.py'']) steps policy \<and>
        only_step (\<lambda>step. \<exists>r. uses_setup_go step r) steps installer \<and>
        uses_setup_go installer reference \<and> commit_sha reference \<and> provisions_go installer \<and>
        only_step (runs EXPECTED_GOVERSION_SCRIPTS) steps version \<and>
        only_step (runs [ascii ''./scripts/check'']) steps gate \<and>
        steps_block installer = steps_block policy \<and> steps_block version = steps_block policy \<and>
        steps_block gate = steps_block policy \<and>
        step_position policy < step_position installer \<and> step_position installer < step_position version \<and>
        step_position version < step_position gate)"

lemma commit_sha_iff: "re_fullmatch IMMUTABLE_ACTION_REF s \<noteq> None \<longleftrightarrow> commit_sha s"
proof -
  have "plain IMMUTABLE_ACTION_REF" by (simp add: IMMUTABLE_ACTION_REF_def)
  then have "re_fullmatch IMMUTABLE_ACTION_REF s \<noteq> None \<longleftrightarrow> s \<in> rx_lang IMMUTABLE_ACTION_REF"
    by (rule re_fullmatch_lang)
  also have "rx_lang IMMUTABLE_ACTION_REF =
      lang_pow {[c] | c. in_class False [(48, 57), (97, 102)] c} 40"
    by (auto simp: IMMUTABLE_ACTION_REF_def count_ok_def)
  finally show ?thesis
    by (auto simp: lang_pow_class commit_sha_def in_class_def list_all_iff)
qed

lemma setup_uses_eq:
  "setup_uses steps =
     map (\<lambda>step. (step, drop (length setup_prefix) (the (dict_get (step_fields step) (ascii ''uses'')))))
       (filter (\<lambda>step. \<exists>r. uses_setup_go step r) steps)"
proof -
  have "setup_prefix \<noteq> []" by (simp add: setup_prefix_def)
  then have "(\<exists>r. uses_setup_go step r) \<longleftrightarrow>
      starts_with setup_prefix (case dict_get (step_fields step) (ascii ''uses'') of None \<Rightarrow> [] | Some u \<Rightarrow> u)" for step
    by (auto simp: uses_setup_go_def starts_with_append split: option.split)
  note pinned = this
  show ?thesis
    by (induction steps) (auto simp: setup_uses_def Let_def pinned [symmetric] uses_setup_go_def)
qed

lemma setup_uses_single:
  "setup_uses steps = [(step, r)] \<longleftrightarrow> only_step (\<lambda>step. \<exists>r. uses_setup_go step r) steps step \<and> uses_setup_go step r"
proof -
  have "uses_setup_go step r" if "filter (\<lambda>step. \<exists>r. uses_setup_go step r) steps = [step]"
      "drop (length setup_prefix) (the (dict_get (step_fields step) (ascii ''uses''))) = r"
  proof -
    have "step \<in> set (filter (\<lambda>step. \<exists>r. uses_setup_go step r) steps)" by (simp add: that(1))
    then show ?thesis using that(2) by (auto simp: uses_setup_go_def)
  qed
  then show ?thesis
    by (auto simp: setup_uses_eq only_step_def map_eq_Cons_conv uses_setup_go_def)
qed

lemma run_steps_eq: "run_steps scripts steps = filter (runs scripts) steps"
  unfolding run_steps_def
  by (rule filter_cong) (auto simp: runs_def split: option.split)

lemma check_setup_step_judges: "judges (\<lambda>errors. Inr (check_setup_step step errors)) (provisions_go step)"
proof -
  let ?cache = "case dict_get (with_fields step) (ascii ''cache'') of None \<Rightarrow> [] | Some c \<Rightarrow> c"
  have "judges (\<lambda>errors. Inr (check_setup_step step errors))
      (\<not> \<not> unconditional step \<and>
       \<not> dict_get (with_fields step) (ascii ''go-version-file'') \<noteq> Some (ascii ''go.mod'') \<and>
       \<not> dict_has (with_fields step) (ascii ''go-version'') \<and>
       \<not> py_lower ?cache \<noteq> ascii ''false'' \<and> True)"
    unfolding check_setup_step_def
    by (intro judges_perform_Cons judges_perform_Nil judges_report_if)
  moreover have "py_lower [] \<noteq> ascii ''false''" by (simp add: py_lower_def ascii_simps)
  ultimately show ?thesis
    by (elim judges_iff) (auto simp: provisions_go_def dict_has_None split: option.splits)
qed

lemma length_single: "length xs = Suc 0 \<longleftrightarrow> (\<exists>x. xs = [x])"
  by (cases xs) auto

lemma only_position_single: "only_position [step] = int (step_position step)"
  by (simp add: only_position_def)

lemma only_position_negative: "only_position steps < 0 \<longleftrightarrow> length steps \<noteq> 1"
  by (auto simp: only_position_def split: list.split)

text \<open>The diagnostics on the steps are empty exactly on the policy.\<close>

lemma check_go_steps_judges: "judges (\<lambda>errors. Inr (check_go_steps steps errors)) (go_policy steps)"
proof -
  let ?policy = "run_steps [ascii ''python3 scripts/check_repository.py''] steps"
  let ?version = "run_steps EXPECTED_GOVERSION_SCRIPTS steps"
  let ?gate = "run_steps [ascii ''./scripts/check''] steps"
  let ?installs = "setup_uses steps"
  have card: "card {a, b, c, d :: nat} = Suc 0 \<longleftrightarrow> b = a \<and> c = a \<and> d = a" for a b c d
    by (auto simp: card_1_singleton_iff)
  have middle: "judges (\<lambda>errors. Inr ((case ?installs of [(installer, _)] \<Rightarrow> check_setup_step installer | _ \<Rightarrow> id) errors))
      (\<forall>installer r. ?installs = [(installer, r)] \<longrightarrow> provisions_go installer)"
  proof (cases "\<exists>installer r. ?installs = [(installer, r)]")
    case True
    then obtain installer r where "?installs = [(installer, r)]" by blast
    then show ?thesis using check_setup_step_judges by simp
  next
    case False
    then have "(case ?installs of [(installer, _)] \<Rightarrow> check_setup_step installer | _ \<Rightarrow> id) = id"
      by (auto split: list.split prod.split)
    with False show ?thesis using judges_skip by simp
  qed
  let ?conditions = "\<not> length ?installs \<noteq> 1 \<and>
    \<not> (?installs = [] \<or> list_ex (\<lambda>(_, reference). re_fullmatch IMMUTABLE_ACTION_REF reference = None) ?installs) \<and>
    (\<forall>installer r. ?installs = [(installer, r)] \<longrightarrow> provisions_go installer) \<and>
    \<not> length ?policy \<noteq> 1 \<and> \<not> length ?version \<noteq> 1 \<and> \<not> length ?gate \<noteq> 1 \<and>
    \<not> (length ?policy = 1 \<and> length ?installs = 1 \<and> length ?version = 1 \<and> length ?gate = 1 \<and>
       card {steps_block (hd ?policy), steps_block (fst (hd ?installs)),
         steps_block (hd ?version), steps_block (hd ?gate)} \<noteq> 1) \<and>
    \<not> (only_position ?policy < 0 \<or> only_position (map fst ?installs) < 0 \<or> only_position ?version < 0 \<or>
       only_position ?gate < 0 \<or>
       \<not> (only_position ?policy < only_position (map fst ?installs) \<and>
          only_position (map fst ?installs) < only_position ?version \<and>
          only_position ?version < only_position ?gate)) \<and> True"
  have "judges (\<lambda>errors. Inr (check_go_steps steps errors)) ?conditions"
    unfolding check_go_steps_def Let_def
    by (intro judges_perform_Cons judges_perform_Nil judges_report_if middle)
  moreover have "?conditions \<longleftrightarrow> go_policy steps"
  proof
    assume ?conditions
    then obtain policy installer r version gate where one: "?policy = [policy]" "?installs = [(installer, r)]"
        "?version = [version]" "?gate = [gate]"
      by (auto simp: length_single)
    with \<open>?conditions\<close> have "commit_sha r" "provisions_go installer"
        "steps_block installer = steps_block policy \<and> steps_block version = steps_block policy \<and>
         steps_block gate = steps_block policy"
        "step_position policy < step_position installer \<and> step_position installer < step_position version \<and>
         step_position version < step_position gate"
      by (simp_all add: card only_position_single commit_sha_iff [symmetric] del: not_None_eq split_paired_Ex)
    with one show "go_policy steps"
      unfolding go_policy_def run_steps_eq setup_uses_single only_step_def by blast
  next
    assume "go_policy steps"
    then obtain policy installer r version gate where one: "?policy = [policy]" "?installs = [(installer, r)]"
        "?version = [version]" "?gate = [gate]"
      and rest: "commit_sha r" "provisions_go installer"
        "steps_block installer = steps_block policy \<and> steps_block version = steps_block policy \<and>
         steps_block gate = steps_block policy"
        "step_position policy < step_position installer \<and> step_position installer < step_position version \<and>
         step_position version < step_position gate"
      unfolding go_policy_def run_steps_eq setup_uses_single only_step_def by blast
    then show ?conditions
      by (simp add: card only_position_single commit_sha_iff [symmetric] del: not_None_eq split_paired_Ex)
  qed
  ultimately show ?thesis by (rule judges_iff)
qed

lemma check_ci_go_policy_judges:
  "judges (check_ci_go_policy repository)
     (\<forall>t. read_text repository workflow_path = Inr t \<longrightarrow>
        (\<exists>steps. workflow_steps t = Inr steps \<and> go_policy steps))"
proof (cases "read_text repository workflow_path")
  case (Inl e)
  then show ?thesis
    by (intro judges_cong [OF _ judges_iff [OF judges_skip]]) (simp_all add: check_ci_go_policy_def)
next
  case (Inr t)
  obtain steps where "workflow_steps t = Inr steps" using workflow_steps_keys [of t] by blast
  with Inr show ?thesis
    by (intro judges_cong [OF _ judges_iff [OF check_go_steps_judges [of steps]]])
      (simp_all add: check_ci_go_policy_def)
qed

end
