(* ===== verification/RepoMetadataSpec.thy ===== *)
theory RepoMetadataSpec
  imports RepoMetadata RepoTextSpec
begin

text \<open>
  What \<open>check_learning_metadata\<close> demands: unit identifiers name exactly one story and one lesson each,
  and the two texts of a unit agree. The status of a text is the rest of the first line that starts
  with the marker, which is shown to be what the multiline pattern finds.
\<close>

subsection \<open>Occurrences\<close>

lemma contains_iff: "contains sub s \<longleftrightarrow> (\<exists>u v. s = u @ sub @ v)"
proof (induction s)
  case Nil
  then show ?case by (simp add: contains_def)
next
  case (Cons c s)
  have "contains sub (c # s) \<longleftrightarrow> starts_with sub (c # s) \<or> contains sub s"
    by (auto simp: contains_def split: option.splits)
  also have "\<dots> \<longleftrightarrow> (\<exists>u v. c # s = u @ sub @ v)"
    unfolding Cons.IH starts_with_append by (auto simp: Cons_eq_append_conv)
  finally show ?case .
qed

subsection \<open>The value on a marked line\<close>

text \<open>A greedy run of non-line-feeds that has to reach the end of the line.\<close>

lemma rx_dot_step:
  "rx_match rx_dot (pre, rest, caps) =
     (case rest of [] \<Rightarrow> [] | x # xs \<Rightarrow> if x = 10 then [] else [(x # pre, xs, caps)])"
  by (auto simp: rx_dot_def in_class_def split: list.split)

lemma dot_rep_line_end:
  "length rest \<le> n \<Longrightarrow>
   filter (\<lambda>q. fst (snd q) = [] \<or> hd (fst (snd q)) = 10) (rx_rep (rx_match rx_dot) n lo None (pre, rest, caps)) =
     (let l = takeWhile (\<lambda>c. c \<noteq> 10) rest in
      if lo \<le> length l then [(rev l @ pre, drop (length l) rest, caps)] else [])"
proof (induction n arbitrary: lo pre rest)
  case 0
  then show ?case by simp
next
  case (Suc n)
  show ?case
  proof (cases "rest = [] \<or> hd rest = 10")
    case True
    then show ?thesis by (cases rest) (auto simp: rx_dot_step)
  next
    case False
    then obtain x xs where rest: "rest = x # xs" "x \<noteq> 10" by (cases rest) auto
    with Suc show ?thesis by (auto simp: rx_dot_step Let_def le_diff_conv)
  qed
qed

lemma rx_match_word:
  "rx_match (rx_word w) (pre, s, caps) =
     (if starts_with w s then [(rev w @ pre, drop (length w) s, caps)] else [])"
proof (induction w arbitrary: pre s rule: rx_word.induct)
  case 1
  then show ?case by (simp add: starts_with_def)
next
  case (2 c)
  then show ?case by (cases s) (auto simp: starts_with_def)
next
  case (3 c d w)
  then show ?case by (cases s) (auto simp: starts_with_def)
qed

definition marked_rx :: "ustring \<Rightarrow> rx" where
  "marked_rx marker = rx_seq [MBol, rx_word marker, Grp 1 (Rep 1 None rx_dot), MEol]"

definition first_line :: "ustring \<Rightarrow> ustring" where
  "first_line s = takeWhile (\<lambda>c. c \<noteq> 10) s"

lemma rx_match_MEol:
  "rx_match MEol q = (if fst (snd q) = [] \<or> hd (fst (snd q)) = 10 then [q] else [])"
  by (cases q) auto

lemma dot_group:
  "map (\<lambda>(pre', rest', caps'). (pre', rest', (1, take (length rest - length rest') rest) # caps'))
      (filter (\<lambda>q. fst (snd q) = [] \<or> hd (fst (snd q)) = 10)
        (rx_rep (rx_match rx_dot) (length rest) 1 None (pre, rest, caps))) =
    (if first_line rest \<noteq> [] then
      [(rev (first_line rest) @ pre, drop (length (first_line rest)) rest, (1, first_line rest) # caps)] else [])"
proof -
  let ?l = "takeWhile (\<lambda>c. c \<noteq> 10) rest"
  have "length ?l \<le> length rest" by (rule length_takeWhile_le)
  moreover have "take (length ?l) rest = ?l" by (metis takeWhile_eq_take)
  ultimately show ?thesis
    unfolding first_line_def by (subst dot_rep_line_end) (auto simp: Let_def Suc_le_eq)
qed

lemma rx_match_marked:
  "rx_match (marked_rx marker) (pre, s, caps) =
     (if (pre = [] \<or> hd pre = 10) \<and> starts_with marker s \<and> first_line (drop (length marker) s) \<noteq> []
      then (let rest = drop (length marker) s; v = first_line rest in
        [(rev v @ rev marker @ pre, drop (length v) rest, (1, v) # caps)])
      else [])"
proof (cases "(pre = [] \<or> hd pre = 10) \<and> starts_with marker s")
  case True
  let ?rest = "drop (length marker) s" and ?pre = "rev marker @ pre"
  have end_of_line: "concat (map (rx_match MEol) (map f ps)) =
      map f (filter (\<lambda>q. fst (snd q) = [] \<or> hd (fst (snd q)) = 10) ps)"
    if "\<And>q. fst (snd (f q)) = fst (snd q)" for f ps
    using that by (induction ps) (auto simp: rx_match_MEol simp del: rx_match.simps(11))
  have "rx_match (marked_rx marker) (pre, s, caps) =
      concat (map (rx_match MEol) (rx_match (Grp 1 (Rep 1 None rx_dot)) (?pre, ?rest, caps)))"
    using True by (simp add: marked_rx_def rx_match_word)
  also have "\<dots> = map (\<lambda>(pre', rest', caps'). (pre', rest', (1, take (length ?rest - length rest') ?rest) # caps'))
      (filter (\<lambda>q. fst (snd q) = [] \<or> hd (fst (snd q)) = 10)
        (rx_rep (rx_match rx_dot) (length ?rest) 1 None (?pre, ?rest, caps)))"
    unfolding rx_match.simps(7) by (subst end_of_line) (auto split: prod.splits)
  also have "\<dots> = (if first_line ?rest \<noteq> [] then
      [(rev (first_line ?rest) @ ?pre, drop (length (first_line ?rest)) ?rest, (1, first_line ?rest) # caps)] else [])"
    by (rule dot_group)
  finally show ?thesis using True by (simp add: Let_def)
next
  case False
  then show ?thesis by (auto simp: marked_rx_def rx_match_word)
qed

text \<open>The rest of the first line that starts with the marker and goes on after it.\<close>

definition marked_line :: "ustring \<Rightarrow> ustring \<Rightarrow> bool" where
  "marked_line marker line \<longleftrightarrow> starts_with marker line \<and> length marker < length line"

definition marked_value :: "ustring \<Rightarrow> ustring list \<Rightarrow> ustring option" where
  "marked_value marker ls = map_option (drop (length marker)) (find (marked_line marker) ls)"

lemma hd_split_on: "hd (split_on 10 s) = first_line s"
  by (induction s) (auto simp: first_line_def split: list.splits)

lemma marked_first_line:
  assumes "10 \<notin> set marker"
  shows "starts_with marker s \<and> first_line (drop (length marker) s) \<noteq> [] \<longleftrightarrow> marked_line marker (first_line s)"
    and "starts_with marker s \<Longrightarrow> first_line (drop (length marker) s) = drop (length marker) (first_line s)"
proof -
  have along: "first_line (marker @ t) = marker @ first_line t" for t
    using assms by (induction marker) (auto simp: first_line_def)
  show rest: "first_line (drop (length marker) s) = drop (length marker) (first_line s)" if "starts_with marker s"
    using that along by (auto simp: starts_with_append)
  show "starts_with marker s \<and> first_line (drop (length marker) s) \<noteq> [] \<longleftrightarrow> marked_line marker (first_line s)"
  proof
    assume "starts_with marker s \<and> first_line (drop (length marker) s) \<noteq> []"
    then show "marked_line marker (first_line s)"
      using along by (auto simp: marked_line_def starts_with_append)
  next
    assume l: "marked_line marker (first_line s)"
    have "s = first_line s @ dropWhile (\<lambda>c. c \<noteq> 10) s" by (simp add: first_line_def)
    with l have "starts_with marker s" unfolding marked_line_def starts_with_append by (metis append.assoc)
    with l rest show "starts_with marker s \<and> first_line (drop (length marker) s) \<noteq> []"
      by (simp add: marked_line_def)
  qed
qed

lemma search_from_marked:
  assumes "10 \<notin> set marker"
  shows "(case re_search_from (marked_rx marker) pre s of None \<Rightarrow> None | Some m \<Rightarrow> re_group m 1) =
    marked_value marker (if pre = [] \<or> hd pre = 10 then split_on 10 s else tl (split_on 10 s))"
proof (induction s arbitrary: pre)
  case Nil
  then show ?case
    by (simp add: rx_match_marked marked_value_def marked_line_def first_line_def)
next
  case (Cons c s)
  obtain y ys where ys: "split_on 10 (c # s) = y # ys" by (metis neq_Nil_conv split_on_not_Nil)
  then have y: "y = first_line (c # s)" using hd_split_on [of "c # s"] by simp
  show ?case
  proof (cases "(pre = [] \<or> hd pre = 10) \<and> marked_line marker y")
    case True
    then have "starts_with marker (c # s)" "first_line (drop (length marker) (c # s)) \<noteq> []"
      using marked_first_line(1) [OF assms, of "c # s"] by (simp_all add: y)
    with True show ?thesis
      using marked_first_line(2) [OF assms, of "c # s"] unfolding ys
      by (simp add: rx_match_marked Let_def re_group_def marked_value_def y)
  next
    case False
    then have no_match: "rx_match (marked_rx marker) (pre, c # s, []) = []"
      using marked_first_line(1) [OF assms, of "c # s"] by (auto simp: rx_match_marked y)
    have "ys = (if c = 10 then split_on 10 s else tl (split_on 10 s))"
      using ys by (auto split: list.splits if_splits)
    with False show ?thesis
      unfolding ys by (auto simp: no_match Cons.IH marked_value_def)
  qed
qed

lemma search_marked:
  assumes "10 \<notin> set marker"
  shows "search_group (marked_rx marker) t = marked_value marker (split_on 10 t)"
  using search_from_marked [OF assms, of "[]" t] by (simp add: search_group_def re_search_def)

definition story_marker :: ustring where
  "story_marker = ascii ''- **Status:** ''"

definition lesson_marker :: ustring where
  "lesson_marker = ascii ''- **Lesson status:** ''"

lemma search_status:
  "search_group STORY_STATUS t = marked_value story_marker (split_on 10 t)"
  "search_group LESSON_STATUS t = marked_value lesson_marker (split_on 10 t)"
  using search_marked [of story_marker t] search_marked [of lesson_marker t]
  by (simp_all add: STORY_STATUS_def LESSON_STATUS_def marked_rx_def story_marker_def lesson_marker_def
      rx_text_def ascii_simps)

subsection \<open>Units and their files\<close>

definition unit_of :: "rx \<Rightarrow> path \<Rightarrow> ustring option" where
  "unit_of pattern p = map_option (\<lambda>m. py_upper (the (re_group m 1))) (re_fullmatch pattern (file_name_of p))"

definition unit_files :: "rx \<Rightarrow> path list \<Rightarrow> unit_index" where
  "unit_files pattern ps = List.map_filter (\<lambda>p. map_option (\<lambda>u. (u, p)) (unit_of pattern p)) ps"

text \<open>The index of \<open>metadata_files\<close>: the first file of each unit.\<close>

fun first_files :: "unit_index \<Rightarrow> unit_index \<Rightarrow> unit_index" where
  "first_files indexed [] = indexed"
| "first_files indexed ((u, p) # ups) =
     first_files (if dict_has indexed u then indexed else dict_set u p indexed) ups"

fun repeated :: "unit_index \<Rightarrow> unit_index \<Rightarrow> bool" where
  "repeated indexed [] = False"
| "repeated indexed ((u, p) # ups) = (dict_has indexed u \<or> repeated (dict_set u p indexed) ups)"

lemma unit_files_Cons:
  "unit_files pattern (p # ps) =
     (case unit_of pattern p of None \<Rightarrow> unit_files pattern ps | Some u \<Rightarrow> (u, p) # unit_files pattern ps)"
  by (simp add: unit_files_def List.map_filter_simps split: option.split)

lemma index_unit_cases:
  "index_unit pattern kind p (indexed, errors) =
     (case unit_of pattern p of None \<Rightarrow> (indexed, errors)
      | Some u \<Rightarrow>
          (case dict_get indexed u of None \<Rightarrow> (dict_set u p indexed, errors)
           | Some first \<Rightarrow> (indexed, errors @ [ascii ''duplicate '' @ ascii kind @ ascii '' ID: '' @ u @
               ascii '': '' @ as_posix first @ ascii '', '' @ as_posix p])))"
  by (simp add: index_unit_def unit_of_def Let_def report_def split: option.split)

lemma index_units:
  "\<exists>ms. \<forall>errors. fold (index_unit pattern kind) ps (indexed, errors) =
       (first_files indexed (unit_files pattern ps), errors @ ms) \<and>
     (ms = [] \<longleftrightarrow> \<not> repeated indexed (unit_files pattern ps))"
proof (induction ps arbitrary: indexed)
  case Nil
  then show ?case by (intro exI [of _ "[]"]) (simp add: unit_files_def List.map_filter_simps)
next
  case (Cons p ps)
  show ?case
  proof (cases "unit_of pattern p")
    case None
    with Cons show ?thesis by (simp add: index_unit_cases unit_files_Cons)
  next
    case (Some u)
    note unit_id = this
    show ?thesis
    proof (cases "dict_get indexed u")
      case None
      with unit_id Cons [of "dict_set u p indexed"] show ?thesis
        by (simp add: index_unit_cases unit_files_Cons dict_has_iff)
    next
      case (Some first)
      let ?m = "ascii ''duplicate '' @ ascii kind @ ascii '' ID: '' @ u @ ascii '': '' @ as_posix first @
        ascii '', '' @ as_posix p"
      obtain ms where "\<forall>errors. fold (index_unit pattern kind) ps (indexed, errors) =
          (first_files indexed (unit_files pattern ps), errors @ ms)"
        using Cons [of indexed] by blast
      with Some unit_id show ?thesis
        by (intro exI [of _ "?m # ms"]) (simp add: index_unit_cases unit_files_Cons dict_has_iff)
    qed
  qed
qed

lemma dict_set_fresh: "\<not> dict_has kvs k \<Longrightarrow> dict_set k v kvs = kvs @ [(k, v)]"
  by (induction kvs) (auto simp: dict_has_def)

lemma repeated_iff:
  "distinct (dict_keys indexed) \<Longrightarrow> \<not> repeated indexed ups \<longleftrightarrow> distinct (dict_keys (indexed @ ups))"
proof (induction ups arbitrary: indexed)
  case Nil
  then show ?case by simp
next
  case (Cons up ups)
  obtain u p where up: "up = (u, p)" by (cases up)
  show ?case
  proof (cases "dict_has indexed u")
    case True
    then show ?thesis by (auto simp: up dict_has_def)
  next
    case False
    with Cons.prems have "distinct (dict_keys (indexed @ [(u, p)]))" by (simp add: dict_has_def)
    from Cons.IH [OF this] False show ?thesis by (simp add: up dict_set_fresh)
  qed
qed

lemma first_files_distinct:
  "distinct (dict_keys (indexed @ ups)) \<Longrightarrow> first_files indexed ups = indexed @ ups"
proof (induction ups arbitrary: indexed)
  case Nil
  then show ?case by simp
next
  case (Cons up ups)
  obtain u p where up: "up = (u, p)" by (cases up)
  with Cons.prems have "\<not> dict_has indexed u" by (auto simp: dict_has_def)
  with Cons.IH [of "indexed @ [(u, p)]"] Cons.prems show ?case by (simp add: up dict_set_fresh)
qed

definition files_of_units :: "node \<Rightarrow> path \<Rightarrow> rx \<Rightarrow> unit_index" where
  "files_of_units repository directory pattern = unit_files pattern (sort (glob_units repository directory))"

lemma metadata_files_outcome:
  "\<exists>ms. \<forall>errors. metadata_files repository directory pattern kind errors =
       (first_files [] (files_of_units repository directory pattern), errors @ ms) \<and>
     (ms = [] \<longleftrightarrow> distinct (dict_keys (files_of_units repository directory pattern)))"
  using index_units [of pattern kind "sort (glob_units repository directory)" "[]"]
  by (simp add: metadata_files_def files_of_units_def repeated_iff)

lemma first_files_member:
  "(u, p) \<in> set (first_files indexed ups) \<Longrightarrow> (u, p) \<in> set indexed \<union> set ups"
proof (induction indexed ups rule: first_files.induct)
  case (1 indexed)
  then show ?case by simp
next
  case (2 indexed v q ups)
  have "(u, p) \<in> set indexed \<union> {(v, q)}" if "(u, p) \<in> set (dict_set v q indexed)"
    using that by (induction indexed) (auto split: if_splits)
  with 2 show ?case by (auto split: if_splits)
qed

lemma indexed_member:
  assumes "(u, p) \<in> set (fst (metadata_files n directory pattern kind errors))"
  shows "p \<in> set (glob_units n directory)"
proof -
  obtain ms where "metadata_files n directory pattern kind errors =
      (first_files [] (files_of_units n directory pattern), errors @ ms)"
    using metadata_files_outcome [of n directory pattern kind] by blast
  with assms have "(u, p) \<in> set (files_of_units n directory pattern)" by (auto dest: first_files_member)
  then show ?thesis by (auto simp: files_of_units_def unit_files_def List.map_filter_def)
qed

subsection \<open>What the texts of a unit must say\<close>

definition texts_agree :: "(nat \<times> nat) list \<Rightarrow> ustring \<Rightarrow> ustring \<Rightarrow> ustring \<Rightarrow> bool" where
  "texts_agree nd unit_id story_text lesson_text \<longleftrightarrow>
     (\<exists>status expected.
        marked_value story_marker (split_on 10 story_text) = Some status \<and>
        dict_get EXPECTED_LESSON_STATUS status = Some expected \<and>
        marked_value lesson_marker (split_on 10 lesson_text) = Some expected) \<and>
     search_group (LESSON_UNIT nd) lesson_text = Some unit_id \<and>
     (\<forall>label \<in> set story_labels. \<exists>u v. story_text = u @ label @ v) \<and>
     (\<forall>label \<in> set lesson_labels. \<exists>u v. lesson_text = u @ label @ v) \<and>
     question_numbers nd lesson_text = map ascii [''1'', ''2'', ''3'']"

lemma check_status_judges:
  "judges (\<lambda>errors. Inr (check_status unit_id story lesson story_text lesson_text errors))
     (\<exists>status expected.
        marked_value story_marker (split_on 10 story_text) = Some status \<and>
        dict_get EXPECTED_LESSON_STATUS status = Some expected \<and>
        marked_value lesson_marker (split_on 10 lesson_text) = Some expected)"
proof -
  let ?s = "marked_value story_marker (split_on 10 story_text)"
  let ?l = "marked_value lesson_marker (split_on 10 lesson_text)"
  let ?last = "\<lambda>errors. Inr (case (?s, ?l) of
      (Some s, Some l) \<Rightarrow>
        (case dict_get EXPECTED_LESSON_STATUS s of
           None \<Rightarrow> report (ascii ''unsupported story status: '' @ as_posix story @ ascii '': '' @ s) errors
         | Some expected \<Rightarrow>
             report_if (l \<noteq> expected)
               (ascii ''story/lesson status mismatch: '' @ unit_id @ ascii '': '' @ s @ ascii '' requires '' @ expected)
               errors)
    | _ \<Rightarrow> errors)"
  have last_judges: "judges ?last
      (\<forall>s l. ?s = Some s \<longrightarrow> ?l = Some l \<longrightarrow> dict_get EXPECTED_LESSON_STATUS s = Some l)"
  proof (cases ?s)
    case None
    then show ?thesis using judges_skip by simp
  next
    case (Some s)
    note story_status = this
    show ?thesis
    proof (cases ?l)
      case None
      with story_status show ?thesis using judges_skip by simp
    next
      case (Some l)
      note lesson_status = this
      show ?thesis
      proof (cases "dict_get EXPECTED_LESSON_STATUS s")
        case None
        with story_status lesson_status show ?thesis using judges_report by simp
      next
        case (Some expected)
        let ?m = "ascii ''story/lesson status mismatch: '' @ unit_id @ ascii '': '' @ s @ ascii '' requires '' @ expected"
        have "judges (\<lambda>errors. Inr (report_if (l \<noteq> expected) ?m errors)) (\<not> l \<noteq> expected)"
          by (rule judges_report_if)
        with Some story_status lesson_status show ?thesis by (auto elim: judges_iff)
      qed
    qed
  qed
  have "judges (\<lambda>errors. Inr (report_if (?l = None) (ascii ''lesson status missing: '' @ as_posix lesson) errors)) (\<not> ?l = None)"
    by (rule judges_report_if)
  from judges_then [OF this last_judges]
  have "judges (\<lambda>errors. ?last (report_if (?l = None) (ascii ''lesson status missing: '' @ as_posix lesson) errors))
      (\<not> ?l = None \<and> (\<forall>s l. ?s = Some s \<longrightarrow> ?l = Some l \<longrightarrow> dict_get EXPECTED_LESSON_STATUS s = Some l))" .
  from judges_then [OF judges_report_if this]
  show ?thesis
    unfolding check_status_def search_status Let_def by (rule judges_iff) auto
qed

lemma check_labels_judges:
  "judges (\<lambda>errors. Inr (check_labels kind p t labels errors)) (\<forall>label \<in> set labels. \<exists>u v. t = u @ label @ v)"
proof -
  have "judges (\<lambda>errors. Inr (check_labels kind p t labels errors)) (\<forall>label \<in> set labels. \<not> \<not> contains label t)"
    unfolding check_labels_def by (intro judges_fold judges_report_if)
  then show ?thesis by (simp add: contains_iff)
qed

lemma check_unit_texts_judges:
  "judges (\<lambda>errors. Inr (check_unit_texts nd unit_id story lesson story_text lesson_text errors))
     (texts_agree nd unit_id story_text lesson_text)"
proof -
  let ?status = "\<exists>status expected.
        marked_value story_marker (split_on 10 story_text) = Some status \<and>
        dict_get EXPECTED_LESSON_STATUS status = Some expected \<and>
        marked_value lesson_marker (split_on 10 lesson_text) = Some expected"
  have "judges (\<lambda>errors. Inr (check_unit_texts nd unit_id story lesson story_text lesson_text errors))
     (?status \<and> \<not> search_group (LESSON_UNIT nd) lesson_text \<noteq> Some unit_id \<and>
      (\<forall>label \<in> set story_labels. \<exists>u v. story_text = u @ label @ v) \<and>
      (\<forall>label \<in> set lesson_labels. \<exists>u v. lesson_text = u @ label @ v) \<and>
      \<not> question_numbers nd lesson_text \<noteq> map ascii [''1'', ''2'', ''3''] \<and> True)"
    unfolding check_unit_texts_def
    by (intro judges_perform_Cons judges_perform_Nil judges_report_if check_status_judges check_labels_judges)
  then show ?thesis unfolding texts_agree_def by (simp only: not_not simp_thms)
qed

text \<open>A file that is not UTF-8 ends the check of its unit in silence: the text hygiene reports it.\<close>

definition unit_agrees :: "(nat \<times> nat) list \<Rightarrow> node \<Rightarrow> ustring \<Rightarrow> path \<Rightarrow> path \<Rightarrow> bool" where
  "unit_agrees nd repository unit_id story lesson \<longleftrightarrow>
     read_text repository story = Inl ValueError \<or>
     (\<exists>story_text. read_text repository story = Inr story_text \<and>
        (read_text repository lesson = Inl ValueError \<or>
         (\<exists>lesson_text. read_text repository lesson = Inr lesson_text \<and>
            texts_agree nd unit_id story_text lesson_text)))"

lemma check_unit_judges:
  "judges (check_unit nd repository (unit_id, story, lesson)) (unit_agrees nd repository unit_id story lesson)"
proof -
  let ?texts = "bindR (read_text repository story) (\<lambda>s. bindR (read_text repository lesson) (\<lambda>l. Inr (s, l)))"
  show ?thesis
  proof (cases ?texts)
    case (Inl e)
    then have "unit_agrees nd repository unit_id story lesson \<longleftrightarrow> e = ValueError"
      by (auto simp: unit_agrees_def bindR_eq_Inl)
    moreover have "judges (check_unit nd repository (unit_id, story, lesson)) (e = ValueError)"
      using Inl judges_raise [of e] judges_skip
      by (cases e) (auto simp: check_unit_def intro: judges_cong)
    ultimately show ?thesis by (simp add: judges_iff)
  next
    case (Inr texts)
    obtain s l where "texts = (s, l)" by (cases texts)
    with Inr have agrees: "unit_agrees nd repository unit_id story lesson \<longleftrightarrow> texts_agree nd unit_id s l"
      and run: "check_unit nd repository (unit_id, story, lesson) errors =
        Inr (check_unit_texts nd unit_id story lesson s l errors)" for errors
      by (auto simp: unit_agrees_def check_unit_def bindR_eq_Inr)
    show ?thesis unfolding agrees using run check_unit_texts_judges by (rule judges_cong)
  qed
qed

subsection \<open>check_learning_metadata\<close>

definition stories :: "(nat \<times> nat) list \<Rightarrow> node \<Rightarrow> unit_index" where
  "stories nd repository = files_of_units repository (relative_path [''user-stories'']) (STORY_FILENAME nd)"

definition lessons :: "(nat \<times> nat) list \<Rightarrow> node \<Rightarrow> unit_index" where
  "lessons nd repository =
     files_of_units repository (relative_path [''docs'', ''lessons'']) (LESSON_FILENAME nd)"

text \<open>Every unit has exactly one story and one lesson, and they agree.\<close>

definition metadata_sound :: "(nat \<times> nat) list \<Rightarrow> node \<Rightarrow> bool" where
  "metadata_sound nd repository \<longleftrightarrow>
     distinct (dict_keys (stories nd repository)) \<and> distinct (dict_keys (lessons nd repository)) \<and>
     set (dict_keys (stories nd repository)) = set (dict_keys (lessons nd repository)) \<and>
     (\<forall>(u, story) \<in> set (stories nd repository). \<forall>(u', lesson) \<in> set (lessons nd repository).
        u = u' \<longrightarrow> unit_agrees nd repository u story lesson)"

lemma units_without_Nil: "units_without a b = [] \<longleftrightarrow> set (dict_keys a) \<subseteq> set (dict_keys b)"
proof -
  have "units_without a b = [] \<longleftrightarrow> filter (\<lambda>u. \<not> dict_has b u) (dict_keys a) = []"
    unfolding units_without_def by (metis set_empty2 set_sort)
  then show ?thesis by (auto simp: filter_empty_conv dict_has_def)
qed

lemma units_in_both_member:
  "(u, p, q) \<in> set (units_in_both a b) \<longleftrightarrow> dict_get a u = Some p \<and> dict_get b u = Some q"
proof -
  have both: "x \<in> set (sort (filter (dict_has b) (dict_keys a))) \<longleftrightarrow> dict_has a x \<and> dict_has b x" for x
    by (auto simp: dict_has_def)
  have "(u, p, q) \<in> set (map f xs) \<longleftrightarrow> (\<exists>x. x \<in> set xs \<and> f x = (u, p, q))"
    for f :: "ustring \<Rightarrow> ustring \<times> path \<times> path" and xs
    by (auto simp: image_iff intro: sym)
  note member = this
  show ?thesis unfolding units_in_both_def member both by (auto simp: dict_has_iff)
qed

lemma units_in_both_all:
  assumes "distinct (dict_keys a)" and "distinct (dict_keys b)"
  shows "(\<forall>(u, p, q) \<in> set (units_in_both a b). P u p q) \<longleftrightarrow>
    (\<forall>(u, p) \<in> set a. \<forall>(u', q) \<in> set b. u = u' \<longrightarrow> P u p q)"
proof -
  from assms have both: "(u, p, q) \<in> set (units_in_both a b) \<longleftrightarrow> (u, p) \<in> set a \<and> (u, q) \<in> set b" for u p q
    by (simp add: units_in_both_member map_of_eq_Some_iff)
  have "(\<forall>(u, p, q) \<in> set (units_in_both a b). P u p q) \<longleftrightarrow>
      (\<forall>u p q. (u, p, q) \<in> set (units_in_both a b) \<longrightarrow> P u p q)"
    by fast
  also have "\<dots> \<longleftrightarrow> (\<forall>(u, p) \<in> set a. \<forall>(u', q) \<in> set b. u = u' \<longrightarrow> P u p q)"
    unfolding both by fast
  finally show ?thesis .
qed

lemma check_learning_metadata_judges:
  "judges (check_learning_metadata nd repository) (metadata_sound nd repository)"
proof -
  let ?S = "first_files [] (stories nd repository)" and ?L = "first_files [] (lessons nd repository)"
  obtain ms where ms: "\<And>errors. metadata_files repository (relative_path [''user-stories'']) (STORY_FILENAME nd)
        ''story'' errors = (?S, errors @ ms)" "ms = [] \<longleftrightarrow> distinct (dict_keys (stories nd repository))"
    using metadata_files_outcome [of repository "relative_path [''user-stories'']" "STORY_FILENAME nd" "''story''"]
    unfolding stories_def by blast
  obtain ns where ns: "\<And>errors. metadata_files repository (relative_path [''docs'', ''lessons'']) (LESSON_FILENAME nd)
        ''lesson'' errors = (?L, errors @ ns)" "ns = [] \<longleftrightarrow> distinct (dict_keys (lessons nd repository))"
    using metadata_files_outcome [of repository "relative_path [''docs'', ''lessons'']" "LESSON_FILENAME nd" "''lesson''"]
    unfolding lessons_def by blast
  let ?noted = "ms @ ns @ map (\<lambda>u. ascii ''story has no matching lesson: '' @ u) (units_without ?S ?L) @
    map (\<lambda>u. ascii ''lesson has no matching story: '' @ u) (units_without ?L ?S)"
  have "judges (foldR (check_unit nd repository) (units_in_both ?S ?L))
      (\<forall>(u, story, lesson) \<in> set (units_in_both ?S ?L). unit_agrees nd repository u story lesson)"
    by (intro judges_foldR) (auto intro: check_unit_judges)
  from judges_then [OF judges_append_messages [of ?noted] this]
  have "judges (check_learning_metadata nd repository)
      (?noted = [] \<and> (\<forall>(u, story, lesson) \<in> set (units_in_both ?S ?L). unit_agrees nd repository u story lesson))"
    by (rule judges_cong [rotated]) (simp add: check_learning_metadata_def ms(1) ns(1) Let_def)
  moreover have "?noted = [] \<and> (\<forall>(u, story, lesson) \<in> set (units_in_both ?S ?L).
      unit_agrees nd repository u story lesson) \<longleftrightarrow> metadata_sound nd repository"
  proof (cases "distinct (dict_keys (stories nd repository)) \<and> distinct (dict_keys (lessons nd repository))")
    case True
    then have "?S = stories nd repository" "?L = lessons nd repository" by (simp_all add: first_files_distinct)
    with True show ?thesis
      unfolding metadata_sound_def
      by (auto simp: ms(2) ns(2) units_without_Nil units_in_both_all)
  next
    case False
    then show ?thesis by (auto simp: metadata_sound_def ms(2) ns(2))
  qed
  ultimately show ?thesis by (rule judges_iff)
qed

end
