(* ===== verification/RepoSpec.thy ===== *)
theory RepoSpec
  imports RepoCheck RepoPolicySpec RepoMetadataSpec
begin

text \<open>
  What \<open>scripts/check_repository.py\<close> demands of the repository as a whole, check by check, and the
  interpretations of \<open>check_pass\<close> for the checks that \<open>main\<close> runs in sequence.
\<close>

subsection \<open>Required files and the Go layout\<close>

definition regular_at :: "node \<Rightarrow> ustring list \<Rightarrow> bool" where
  "regular_at repository ps \<longleftrightarrow>
     (\<exists>n c. lstat repository ps = Inr (Some n) \<and> follow n = Some (RegularFile c))"

lemma is_file_eq:
  "is_file repository ps =
     bindR (lstat repository ps) (\<lambda>m. Inr (\<exists>n c. m = Some n \<and> follow n = Some (RegularFile c)))"
  by (cases "lstat repository ps") (auto simp: is_file_def split: option.split node.split)

lemma is_symlink_eq: "is_symlink repository ps = bindR (lstat repository ps) (\<lambda>m. Inr (\<exists>t. m = Some (Link t)))"
  by (cases "lstat repository ps") (auto simp: is_symlink_def split: option.split node.split)

lemma is_file_True: "is_file repository ps = Inr True \<longleftrightarrow> regular_at repository ps"
  by (cases "lstat repository ps") (auto simp: is_file_eq regular_at_def)

definition required_sound :: "node \<Rightarrow> bool" where
  "required_sound repository \<longleftrightarrow>
     (\<forall>relative \<in> set REQUIRED_PATHS. regular_at repository (path_parts (parse_path (ascii relative))))"

lemma check_required_paths_judges:
  "judges (check_required_paths repository) (required_sound repository)"
proof -
  have "judges (check_required_path repository relative)
      (\<exists>regular. is_file repository (path_parts (parse_path (ascii relative))) = Inr regular \<and> \<not> \<not> regular)" for relative
    unfolding check_required_path_def by (intro judges_ask judges_report_if)
  then have "judges (check_required_path repository relative)
      (regular_at repository (path_parts (parse_path (ascii relative))))" for relative
    by (rule judges_iff) (auto simp: is_file_True [symmetric])
  then show ?thesis unfolding check_required_paths_def required_sound_def by (rule judges_foldR)
qed

definition go_layout_sound :: "node \<Rightarrow> path list \<Rightarrow> bool" where
  "go_layout_sound repository files \<longleftrightarrow>
     lstat repository (path_parts root_manifest) = Inr (Some (RegularFile (Some EXPECTED_GO_MOD))) \<and>
     (\<forall>p \<in> set files. (file_name_of p = ascii ''go.mod'' \<longrightarrow> p = root_manifest) \<and>
        file_name_of p \<notin> set FORBIDDEN_GO_METADATA)"

lemma check_root_manifest_judges:
  "judges (check_root_manifest repository)
     (lstat repository (path_parts root_manifest) = Inr (Some (RegularFile (Some EXPECTED_GO_MOD))))"
proof (cases "lstat repository (path_parts root_manifest)")
  case (Inl e)
  have "check_root_manifest repository errors = Inl e" for errors
    by (simp add: check_root_manifest_def is_file_eq Inl)
  from judges_cong [OF this judges_raise] Inl show ?thesis by simp
next
  case (Inr found)
  let ?regular = "\<exists>m c. found = Some m \<and> follow m = Some (RegularFile c)"
  let ?link = "\<exists>t. found = Some (Link t)"
  have run: "check_root_manifest repository errors =
      Inr (if \<not> ?regular \<or> ?link then report (ascii ''missing regular root Go manifest: go.mod'') errors
        else case file_contents repository (path_parts root_manifest) of
            None \<Rightarrow> report (ascii ''unable to read root Go manifest: go.mod'') errors
          | Some manifest \<Rightarrow>
              report_if (manifest \<noteq> EXPECTED_GO_MOD) (ascii ''root go.mod does not match ADR 0004 exactly'') errors)"
    for errors
    by (cases ?regular) (auto simp: check_root_manifest_def is_file_eq is_symlink_eq Inr)
  show ?thesis
  proof (cases "?regular \<and> \<not> ?link")
    case False
    then have "check_root_manifest repository errors =
        Inr (report (ascii ''missing regular root Go manifest: go.mod'') errors)" for errors
      unfolding run by (simp only: de_Morgan_conj not_not if_True)
    from judges_cong [OF this judges_report] have "judges (check_root_manifest repository) False" .
    moreover have "found \<noteq> Some (RegularFile (Some EXPECTED_GO_MOD))" using False by auto
    ultimately show ?thesis by (simp add: Inr)
  next
    case True
    then obtain m c where m: "found = Some m" "follow m = Some (RegularFile c)" "\<And>t. m \<noteq> Link t" by blast
    then have c: "found = Some (RegularFile c)" by (cases m) auto
    then have contents: "file_contents repository (path_parts root_manifest) = c"
      using Inr by (simp add: file_contents_def)
    show ?thesis
    proof (cases c)
      case None
      with True contents have "check_root_manifest repository errors =
          Inr (report (ascii ''unable to read root Go manifest: go.mod'') errors)" for errors
        unfolding run by simp
      from judges_cong [OF this judges_report] show ?thesis by (simp add: Inr c None)
    next
      case (Some manifest)
      with True contents have "check_root_manifest repository errors =
          Inr (report_if (manifest \<noteq> EXPECTED_GO_MOD) (ascii ''root go.mod does not match ADR 0004 exactly'') errors)"
        for errors unfolding run by simp
      from judges_cong [OF this judges_report_if] show ?thesis by (simp add: Inr c Some)
    qed
  qed
qed

lemma check_go_layout_judges:
  "judges (check_go_layout repository files) (go_layout_sound repository files)"
proof -
  let ?step = "\<lambda>p errors. report_if (file_name_of p \<in> set FORBIDDEN_GO_METADATA)
      (ascii ''Go metadata is not allowed in ICGT-005: '' @ as_posix p)
      (report_if (file_name_of p = ascii ''go.mod'' \<and> p \<noteq> root_manifest)
        (ascii ''nested Go module is not allowed: '' @ as_posix p) errors)"
  have "judges (\<lambda>errors. Inr (?step p errors))
      (\<not> (file_name_of p = ascii ''go.mod'' \<and> p \<noteq> root_manifest) \<and> file_name_of p \<notin> set FORBIDDEN_GO_METADATA)" for p
    by (rule judges_then [where g = "\<lambda>errors. Inr (report_if (file_name_of p \<in> set FORBIDDEN_GO_METADATA)
          (ascii ''Go metadata is not allowed in ICGT-005: '' @ as_posix p) errors)"])
      (intro judges_report_if)+
  then have "judges (\<lambda>errors. Inr (fold ?step files errors))
      (\<forall>p \<in> set files. \<not> (file_name_of p = ascii ''go.mod'' \<and> p \<noteq> root_manifest) \<and>
         file_name_of p \<notin> set FORBIDDEN_GO_METADATA)"
    by (rule judges_fold)
  from judges_bind [OF check_root_manifest_judges [of repository] this]
  show ?thesis unfolding check_go_layout_def go_layout_sound_def by (rule judges_iff) blast
qed

subsection \<open>Environment files\<close>

text \<open>An entry below directories that are neither links nor ignored.\<close>

fun visible_entry :: "node \<Rightarrow> ustring list \<Rightarrow> node \<Rightarrow> bool" where
  "visible_entry (Directory es) [] m = False"
| "visible_entry (Directory es) [name] m = ((name, m) \<in> set es)"
| "visible_entry (Directory es) (name # next_name # ps) m =
     (name \<notin> set IGNORED_PARTS \<and> list_ex (\<lambda>(n, d). n = name \<and> visible_entry d (next_name # ps) m) es)"
| "visible_entry n ps m = False"

lemma visible_entry_not_Nil: "visible_entry n ps m \<Longrightarrow> ps \<noteq> []"
  by (cases n) auto

lemma visible_entry_Cons:
  "visible_entry (Directory es) (name # ps) m \<longleftrightarrow>
     ps = [] \<and> (name, m) \<in> set es \<or>
     name \<notin> set IGNORED_PARTS \<and> (\<exists>d. (name, d) \<in> set es \<and> visible_entry d ps m)"
  by (cases ps) (auto simp: list_ex_iff dest: visible_entry_not_Nil)

lemma environment_name:
  "ps \<noteq> [] \<Longrightarrow> is_environment_file (Path [] (base @ ps)) \<longleftrightarrow> is_environment_file (Path [] ps)"
  by (simp add: is_environment_file_def file_name_of_def)

lemma walk_environment_member:
  "q \<in> set (walk_environment base n) \<longleftrightarrow>
     (\<exists>ps m. q = Path [] (base @ ps) \<and> is_environment_file (Path [] ps) \<and> visible_entry n ps m \<and> \<not> is_dir_node m)"
proof (induction n arbitrary: base)
  case (Directory es)
  have IH: "q \<in> set (walk_environment base d) \<longleftrightarrow>
      (\<exists>ps m. q = Path [] (base @ ps) \<and> is_environment_file (Path [] ps) \<and> visible_entry d ps m \<and> \<not> is_dir_node m)"
    if "(name, d) \<in> set es" for name d base
    using Directory [OF that] by simp
  have "q \<in> set (walk_environment base (Directory es)) \<longleftrightarrow>
      (\<exists>name m. (name, m) \<in> set es \<and> \<not> is_dir_node m \<and> q = Path [] (base @ [name]) \<and> is_environment_file q) \<or>
      (\<exists>name d. (name, d) \<in> set es \<and> name \<notin> set IGNORED_PARTS \<and> q \<in> set (walk_environment (base @ [name]) d))"
    by (auto simp: image_iff split: if_splits) blast
  also have "\<dots> \<longleftrightarrow>
      (\<exists>name m. (name, m) \<in> set es \<and> \<not> is_dir_node m \<and> q = Path [] (base @ [name]) \<and>
         is_environment_file (Path [] [name])) \<or>
      (\<exists>name d ps m. (name, d) \<in> set es \<and> name \<notin> set IGNORED_PARTS \<and> q = Path [] (base @ name # ps) \<and>
         is_environment_file (Path [] (name # ps)) \<and> visible_entry d ps m \<and> \<not> is_dir_node m)"
  proof -
    have "is_environment_file (Path [] (name # ps)) \<longleftrightarrow> is_environment_file (Path [] ps)"
      if "visible_entry d ps m" for name ps d m
      using environment_name [of ps "[name]"] visible_entry_not_Nil [OF that] by simp
    then have "q \<in> set (walk_environment (base @ [name]) d) \<longleftrightarrow>
        (\<exists>ps m. q = Path [] (base @ name # ps) \<and> is_environment_file (Path [] (name # ps)) \<and>
           visible_entry d ps m \<and> \<not> is_dir_node m)"
      if "(name, d) \<in> set es" for name d
      using IH [OF that, of "base @ [name]"] by auto
    moreover have "is_environment_file (Path [] (base @ [name])) \<longleftrightarrow> is_environment_file (Path [] [name])" for name
      by (rule environment_name) simp
    ultimately show ?thesis by (intro arg_cong2 [where f = "(\<or>)"]) (metis, metis)
  qed
  also have "\<dots> \<longleftrightarrow> (\<exists>name ps m. q = Path [] (base @ name # ps) \<and> is_environment_file (Path [] (name # ps)) \<and>
      visible_entry (Directory es) (name # ps) m \<and> \<not> is_dir_node m)"
    unfolding visible_entry_Cons by blast
  also have "\<dots> \<longleftrightarrow> (\<exists>ps m. q = Path [] (base @ ps) \<and> is_environment_file (Path [] ps) \<and>
      visible_entry (Directory es) ps m \<and> \<not> is_dir_node m)"
    by (metis neq_Nil_conv visible_entry_not_Nil)
  finally show ?case .
qed simp_all

definition environment_sound :: "host \<Rightarrow> bool" where
  "environment_sound h \<longleftrightarrow>
     (\<forall>ps m n. follow (tree h) = Some n \<longrightarrow> visible_entry n ps m \<longrightarrow> \<not> is_dir_node m \<longrightarrow>
        is_environment_file (Path [] ps) \<longrightarrow> last ps = ascii ''.env.example'')"

lemma environment_files_set:
  "set (environment_files h) =
     {Path [] ps | ps. is_environment_file (Path [] ps) \<and>
        (\<exists>n m. follow (tree h) = Some n \<and> visible_entry n ps m \<and> \<not> is_dir_node m)}"
proof (cases "follow (tree h)")
  case None
  then show ?thesis by (simp add: environment_files_def)
next
  case (Some n)
  have "p \<in> set (environment_files h) \<longleftrightarrow> p \<in> set (walk_environment [] n)" for p
    by (simp add: environment_files_def Some)
  then show ?thesis by (auto simp: walk_environment_member Some)
qed

lemma check_secret_filenames_judges:
  "judges (\<lambda>errors. Inr (check_secret_filenames files errors))
     (\<forall>p \<in> set files. is_environment_file p \<longrightarrow> file_name_of p = ascii ''.env.example'')"
proof -
  have "judges (\<lambda>errors. Inr (check_secret_filenames files errors))
      (\<forall>p \<in> set files. \<not> (is_environment_file p \<and> file_name_of p \<noteq> ascii ''.env.example''))"
    unfolding check_secret_filenames_def by (intro judges_fold judges_report_if)
  then show ?thesis by simp
qed

lemma environment_judges:
  "judges (\<lambda>errors. Inr (check_secret_filenames (environment_files h) errors)) (environment_sound h)"
proof (rule judges_iff [OF check_secret_filenames_judges])
  have "file_name_of (Path [] ps) = last ps" if "visible_entry n ps m" for n ps m
    using visible_entry_not_Nil [OF that] by (simp add: file_name_of_def)
  then show "(\<forall>p \<in> set (environment_files h). is_environment_file p \<longrightarrow> file_name_of p = ascii ''.env.example'')
      \<longleftrightarrow> environment_sound h"
    unfolding environment_files_set environment_sound_def by fastforce
qed

subsection \<open>Markdown links\<close>

definition link_sound :: "host \<Rightarrow> path \<Rightarrow> ustring \<Rightarrow> bool" where
  "link_sound h p raw_target \<longleftrightarrow>
     (let target = markdown_destination raw_target;
          file_target = unquote (before_first [63] (before_first [35] target)) in
      ignored_target target \<or> file_target = [] \<or>
      (\<exists>destination.
         resolve_path h (join_path (join_path (ROOT h) (parent_path p)) (parse_path file_target)) = Inr destination \<and>
         is_under (ROOT h) destination \<and> path_exists h destination = Inr True))"

lemma check_link_judges: "judges (check_link h p (number, raw_target)) (link_sound h p raw_target)"
proof -
  let ?target = "markdown_destination raw_target"
  let ?file_target = "unquote (before_first [63] (before_first [35] ?target))"
  let ?place = "as_posix p @ ascii '':'' @ py_str_nat number @ ascii '': '' @ ?target"
  let ?resolved = "resolve_path h (join_path (join_path (ROOT h) (parent_path p)) (parse_path ?file_target))"
  let ?found = "\<lambda>destination errors. bindR (path_exists h destination) (\<lambda>found.
      Inr (report_if (\<not> found) (ascii ''broken local link: '' @ ?place) errors))"
  let ?at = "\<lambda>destination errors. if \<not> is_under (ROOT h) destination
      then Inr (report (ascii ''link escapes repository: '' @ ?place) errors) else ?found destination errors"
  have "judges (?found destination) (\<exists>found. path_exists h destination = Inr found \<and> \<not> \<not> found)" for destination
    by (intro judges_ask judges_report_if)
  then have "judges (?at destination)
      (if \<not> is_under (ROOT h) destination then False
       else \<exists>found. path_exists h destination = Inr found \<and> \<not> \<not> found)" for destination
    by (intro judges_if judges_report)
  then have "judges (\<lambda>errors. bindR ?resolved (\<lambda>destination. ?at destination errors))
      (\<exists>destination. ?resolved = Inr destination \<and>
         (if \<not> is_under (ROOT h) destination then False
          else \<exists>found. path_exists h destination = Inr found \<and> \<not> \<not> found))"
    by (rule judges_ask)
  then have "judges (\<lambda>errors. if ignored_target ?target \<or> ?file_target = [] then Inr errors
        else bindR ?resolved (\<lambda>destination. ?at destination errors))
      (if ignored_target ?target \<or> ?file_target = [] then True
       else \<exists>destination. ?resolved = Inr destination \<and>
         (if \<not> is_under (ROOT h) destination then False
          else \<exists>found. path_exists h destination = Inr found \<and> \<not> \<not> found))"
    by (intro judges_if judges_skip)
  then have "judges (check_link h p (number, raw_target))
      (if ignored_target ?target \<or> ?file_target = [] then True
       else \<exists>destination. ?resolved = Inr destination \<and>
         (if \<not> is_under (ROOT h) destination then False
          else \<exists>found. path_exists h destination = Inr found \<and> \<not> \<not> found))"
    by (rule judges_cong [rotated]) (simp add: check_link_def Let_def)
  then show ?thesis by (rule judges_iff) (auto simp: link_sound_def Let_def)
qed

definition links_sound :: "host \<Rightarrow> path \<Rightarrow> bool" where
  "links_sound h p \<longleftrightarrow>
     (\<exists>t. read_text (tree h) p = Inr t \<and>
        (\<forall>(number, raw_target) \<in> links_on (splitlines t). link_sound h p raw_target))"

lemma check_markdown_links_judges: "judges (check_markdown_links h p) (links_sound h p)"
proof -
  have "judges (foldR (check_link h p) links) (\<forall>(number, raw_target) \<in> set links. link_sound h p raw_target)" for links
    by (intro judges_foldR) (auto intro: check_link_judges)
  then have "judges (check_markdown_links h p)
      (\<exists>links. iter_markdown_links (tree h) p = Inr links \<and>
         (\<forall>(number, raw_target) \<in> set links. link_sound h p raw_target))"
    unfolding check_markdown_links_def by (intro judges_ask)
  then show ?thesis
    by (rule judges_iff) (auto simp: links_sound_def iter_markdown_links_set links_of_text [simplified])
qed

subsection \<open>One file\<close>

definition markdown_file :: "path \<Rightarrow> bool" where
  "markdown_file p \<longleftrightarrow> py_lower (py_suffix (file_name_of p)) = ascii ''.md''"

definition file_sound :: "host \<Rightarrow> path \<Rightarrow> bool" where
  "file_sound h p \<longleftrightarrow>
     (text_file p \<longrightarrow> clean_file (file_contents (tree h) (path_parts p))) \<and>
     (markdown_file p \<longrightarrow> links_sound h p)"

lemma markdown_is_text: "markdown_file p \<Longrightarrow> text_file p"
  by (simp add: markdown_file_def text_file_def TEXT_SUFFIXES_def)

lemma check_text_hygiene_cases:
  obtains (raised) e where "\<And>errors. check_text_hygiene repository p errors = Inl e"
  | (invalid) m where "\<And>errors. check_text_hygiene repository p errors = Inr (False, report m errors)"
  | (valid) f where "\<And>errors. check_text_hygiene repository p errors = Inr (True, f errors)"
proof (cases "text_file p")
  case False
  then show ?thesis by (intro valid [of id]) (simp add: check_text_hygiene_def text_file_def)
next
  case True
  note textual = this
  show ?thesis
  proof (cases "file_contents repository (path_parts p)")
    case None
    with textual show ?thesis by (intro raised [of OSError]) (simp add: check_text_hygiene_def text_file_def)
  next
    case (Some raw)
    note contents = this
    show ?thesis
    proof (cases "utf8_decode raw")
      case None
      with textual contents show ?thesis
        by (intro invalid) (simp add: check_text_hygiene_def text_file_def)
    next
      case (Some t)
      with textual contents show ?thesis
        by (intro valid) (simp add: check_text_hygiene_def text_file_def)
    qed
  qed
qed

lemma check_file_judges:
  "judges (check_file h p) (\<not> is_environment_file p \<longrightarrow> file_sound h p)"
proof (cases "is_environment_file p")
  case True
  then have "check_file h p errors = Inr errors" for errors by (simp add: check_file_def)
  from judges_cong [OF this judges_skip] True show ?thesis by simp
next
  case False
  let ?clean = "text_file p \<longrightarrow> clean_file (file_contents (tree h) (path_parts p))"
  note hygiene = check_text_hygiene_judges [of "tree h" p]
  have "judges (check_file h p) (file_sound h p)"
  proof (cases rule: check_text_hygiene_cases [of "tree h" p])
    case (raised e)
    with hygiene have "judges (\<lambda>errors. Inl e) ?clean" by simp
    moreover have "judges (\<lambda>errors. Inl e) False" by (rule judges_raise)
    ultimately have "\<not> ?clean" unfolding judges_def by blast
    moreover have "check_file h p errors = Inl e" for errors using False raised by (simp add: check_file_def)
    ultimately show ?thesis
      by (intro judges_cong [OF _ judges_iff [OF judges_raise]]) (auto simp: file_sound_def)
  next
    case (invalid m)
    with hygiene have "judges (\<lambda>errors. Inr (report m errors)) ?clean" by simp
    moreover have "judges (\<lambda>errors. Inr (report m errors)) False" by (rule judges_report)
    ultimately have "\<not> ?clean" unfolding judges_def by blast
    moreover have "check_file h p errors = Inr (report m errors)" for errors
      using False invalid by (simp add: check_file_def)
    ultimately show ?thesis
      by (intro judges_cong [OF _ judges_iff [OF judges_report]]) (auto simp: file_sound_def)
  next
    case (valid f)
    with hygiene have f: "judges (\<lambda>errors. Inr (f errors)) ?clean" by simp
    have run: "check_file h p errors = (if markdown_file p then check_markdown_links h p (f errors) else Inr (f errors))"
      for errors
      using False valid by (simp add: check_file_def markdown_file_def)
    show ?thesis
    proof (cases "markdown_file p")
      case True
      with judges_then [OF f check_markdown_links_judges]
      show ?thesis by (intro judges_cong [OF run]) (simp add: file_sound_def)
    next
      case False
      with f show ?thesis by (intro judges_cong [OF run]) (simp add: file_sound_def)
    qed
  qed
  with False show ?thesis by simp
qed

subsection \<open>The checks of main\<close>

definition ci_sound :: "node \<Rightarrow> bool" where
  "ci_sound repository \<longleftrightarrow>
     (\<forall>t. read_text repository workflow_path = Inr t \<longrightarrow>
        (\<exists>steps. workflow_steps t = Inr steps \<and> go_policy steps))"

interpretation required: check_pass "check_required_paths repository" "required_sound repository" for repository
  by unfold_locales (rule check_required_paths_judges)

interpretation secrets: check_pass "\<lambda>errors. Inr (check_secret_filenames (environment_files h) errors)"
    "environment_sound h" for h
  by unfold_locales (rule environment_judges)

interpretation go_layout: check_pass "check_go_layout repository files" "go_layout_sound repository files"
  for repository files
  by unfold_locales (rule check_go_layout_judges)

interpretation ci: check_pass "check_ci_go_policy repository" "ci_sound repository" for repository
  by unfold_locales (simp add: ci_sound_def check_ci_go_policy_judges)

interpretation each_file: check_pass "foldR (check_file h) files"
    "\<forall>p \<in> set files. \<not> is_environment_file p \<longrightarrow> file_sound h p" for h files
  by unfold_locales (intro judges_foldR check_file_judges)

interpretation metadata: check_pass "check_learning_metadata nd repository" "metadata_sound nd repository"
  for nd repository
  by unfold_locales (rule check_learning_metadata_judges)

definition clean_repository :: "(nat \<times> nat) list \<Rightarrow> host \<Rightarrow> path list \<Rightarrow> bool" where
  "clean_repository nd h files \<longleftrightarrow>
     required_sound (tree h) \<and> environment_sound h \<and> go_layout_sound (tree h) files \<and> ci_sound (tree h) \<and>
     (\<forall>p \<in> set files. \<not> is_environment_file p \<longrightarrow> file_sound h p) \<and> metadata_sound nd (tree h)"

lemma repository_errors_judges:
  "judges (\<lambda>errors. bindR (check_required_paths (tree h) errors) (\<lambda>errors.
     bindR (check_go_layout (tree h) files (check_secret_filenames (environment_files h) errors)) (\<lambda>errors.
     bindR (check_ci_go_policy (tree h) errors) (\<lambda>errors.
     bindR (foldR (check_file h) files errors) (\<lambda>errors.
     check_learning_metadata nd (tree h) errors)))))
   (clean_repository nd h files)"
proof -
  note each_file.pass_then [OF metadata.pass_judges [of nd "tree h"], of h files]
  note ci.pass_then [OF this, of "tree h"]
  note go_layout.pass_then [OF this, of "tree h" files]
  note secrets.pass_then [OF this, of h, unfolded bindR_simps]
  note required.pass_then [OF this, of "tree h"]
  then show ?thesis by (rule judges_iff) (simp add: clean_repository_def)
qed

interpretation whole: check_pass "\<lambda>errors. bindR (check_required_paths (tree h) errors) (\<lambda>errors.
     bindR (check_go_layout (tree h) files (check_secret_filenames (environment_files h) errors)) (\<lambda>errors.
     bindR (check_ci_go_policy (tree h) errors) (\<lambda>errors.
     bindR (foldR (check_file h) files errors) (\<lambda>errors.
     check_learning_metadata nd (tree h) errors))))" "clean_repository nd h files" for nd h files
  by unfold_locales (rule repository_errors_judges)

lemma repository_errors_empty: "repository_errors nd h files = Inr [] \<longleftrightarrow> clean_repository nd h files"
  unfolding repository_errors_def whole.pass_empty by simp

lemma filterR_Inr:
  "filterR f xs = Inr ys \<Longrightarrow> set ys = {x \<in> set xs. f x = Inr True}"
proof (induction xs arbitrary: ys)
  case (Cons x xs)
  from Cons.prems obtain b where b: "f x = Inr b" by (cases "f x") simp_all
  from Cons.prems b obtain zs where zs: "filterR f xs = Inr zs" by (cases "filterR f xs") simp_all
  have ys: "ys = (if b then x # zs else zs)" using Cons.prems b zs by simp
  have rest: "set zs = {y \<in> set xs. f y = Inr True}" using zs by (rule Cons.IH)
  have "y \<in> set ys \<longleftrightarrow> y \<in> set (x # xs) \<and> f y = Inr True" for y
    unfolding ys by (cases b; cases "y = x") (simp_all add: rest b)
  then show ?case by blast
qed simp

lemma main_repository_accepts:
  assumes "repository_files h = Inr (Inr files)"
  shows "(\<exists>r. main_repository nd h = Inr r \<and> status r = 0) \<longleftrightarrow> clean_repository nd h files"
proof (cases "repository_errors nd h files")
  case (Inl e)
  then show ?thesis using assms repository_errors_empty [of nd h files] by (simp add: main_repository_def)
next
  case (Inr errors)
  then show ?thesis using assms repository_errors_empty [of nd h files] by (simp add: main_repository_def)
qed

lemma main_repository_status:
  assumes "main_repository nd h = Inr r" and "status r = 0"
  shows "\<exists>files. repository_files h = Inr (Inr files) \<and> r = \<lparr>status = 0,
    stdout = [ascii ''Checked '' @ py_str_nat (length files) @ ascii '' repository files.''], stderr = []\<rparr>"
proof -
  obtain found where found: "repository_files h = Inr found"
    using assms(1) by (cases "repository_files h") (simp_all add: main_repository_def)
  show ?thesis
  proof (cases found)
    case (Inl m)
    with assms found show ?thesis by (auto simp: main_repository_def)
  next
    case (Inr files)
    with assms found show ?thesis
      by (cases "repository_errors nd h files") (auto simp: main_repository_def split: if_splits)
  qed
qed

end
