(* ===== verification/RepoSecrets.thy ===== *)
theory RepoSecrets
  imports RepoSpec
begin

text \<open>
  The contents of environment files play no part. \<open>without_secrets\<close> is what a tree shows besides them:
  every file, device or link with an environment name is kept, but nothing can be read through it.
  A link with another name keeps what it shows, whatever it leads to: what is read through such a link
  is public. Each check of \<open>scripts/check_repository.py\<close> gives the same result on the tree so changed,
  so a run on two trees that show the same ends in the same way.
\<close>

lemma ends_with_append: "ends_with p s \<longleftrightarrow> (\<exists>t. s = t @ p)"
  by (auto simp: ends_with_def) (metis append_take_drop_id)

definition secret_name :: "ustring \<Rightarrow> bool" where
  "secret_name name \<longleftrightarrow> is_environment_file (Path [] [name])"

fun withhold :: "bool \<Rightarrow> node \<Rightarrow> node" where
  "withhold secret (RegularFile c) = RegularFile (if secret then None else c)"
| "withhold secret (Directory es) = Directory (map (\<lambda>(name, m). (name, withhold (secret_name name) m)) es)"
| "withhold secret (Link t) =
     Link (if secret
       then (case follow (Link t) of
               Some (RegularFile c) \<Rightarrow> Some (RegularFile None)
             | Some (OtherNode c) \<Rightarrow> Some (OtherNode None)
             | _ \<Rightarrow> t)
       else t)"
| "withhold secret (OtherNode c) = OtherNode (if secret then None else c)"

definition without_secrets :: "node \<Rightarrow> node" where
  "without_secrets n = withhold False n"

subsection \<open>Looking up a path\<close>

definition last_secret :: "bool \<Rightarrow> ustring list \<Rightarrow> bool" where
  "last_secret secret ps = (if ps = [] then secret else secret_name (last ps))"

text \<open>What is found is the same node, withheld or not.\<close>

inductive seen_as :: "bool \<Rightarrow> node option result \<Rightarrow> node option result \<Rightarrow> bool" for secret where
  same: "seen_as secret r r"
| withheld: "seen_as secret (Inr (Some m)) (Inr (Some (withhold secret m)))"

lemma follow_directory_withhold:
  "follow (withhold secret (Link t)) = Some (Directory es) \<longleftrightarrow> follow (Link t) = Some (Directory es)"
  by (auto split: option.split node.split)

lemma map_of_withhold:
  "map_of (map (\<lambda>(name, m). (name, withhold (secret_name name) m)) es) p =
     map_option (withhold (secret_name p)) (map_of es p)"
  by (induction es) auto

lemma resolve_withhold: "seen_as (last_secret secret ps) (resolve n ps) (resolve (withhold secret n) ps)"
proof (induction ps arbitrary: n secret)
  case Nil
  then show ?case by (simp add: last_secret_def seen_as.withheld)
next
  case (Cons p ps)
  show ?case
  proof (cases n)
    case (Directory es)
    show ?thesis
    proof (cases "name_too_long p \<or> map_of es p = None")
      case True
      with Directory show ?thesis by (auto simp: map_of_withhold intro: seen_as.same)
    next
      case False
      then obtain m where m: "map_of es p = Some m" "\<not> name_too_long p" by auto
      have "last_secret (secret_name p) ps = last_secret secret (p # ps)" by (simp add: last_secret_def)
      with Cons [of "secret_name p" m] m Directory show ?thesis by (simp add: map_of_withhold)
    qed
  next
    case (Link t)
    have "(case follow (withhold secret (Link t)) of Some (Directory entries) \<Rightarrow> f entries | _ \<Rightarrow> Inr None) =
        (case follow (Link t) of Some (Directory entries) \<Rightarrow> f entries | _ \<Rightarrow> Inr None)"
      for f :: "(ustring \<times> node) list \<Rightarrow> node option result"
      using follow_directory_withhold [of secret t] by (auto split: option.splits node.splits)
    then show ?thesis unfolding Link resolve.simps by (simp only: seen_as.same)
  qed (simp_all add: seen_as.same)
qed

lemma lstat_withhold: "seen_as (last_secret secret ps) (lstat n ps) (lstat (withhold secret n) ps)"
  using resolve_withhold [of secret ps n] by (simp add: lstat_def seen_as.same)

lemma follow_kind_withhold:
  "follow (withhold secret m) = Some (RegularFile c) \<Longrightarrow> \<exists>d. follow m = Some (RegularFile d)"
  "follow m = Some (RegularFile d) \<Longrightarrow> \<exists>c. follow (withhold secret m) = Some (RegularFile c)"
  by (cases m; auto split: option.splits node.splits if_splits)+

lemma is_link_withhold: "(\<exists>t. withhold secret m = Link t) \<longleftrightarrow> (\<exists>t. m = Link t)"
  by (cases m) auto

lemma is_file_withhold [simp]: "is_file (without_secrets n) ps = is_file n ps"
  using lstat_withhold [of False ps n] follow_kind_withhold
  by (cases rule: seen_as.cases) (auto simp: is_file_eq without_secrets_def)

lemma is_symlink_withhold [simp]: "is_symlink (without_secrets n) ps = is_symlink n ps"
  using lstat_withhold [of False ps n] is_link_withhold
  by (cases rule: seen_as.cases) (auto simp: is_symlink_eq without_secrets_def)

lemma file_contents_withhold:
  assumes "\<not> last_secret False ps"
  shows "file_contents (without_secrets n) ps = file_contents n ps"
proof -
  have "(case follow (withhold False m) of Some (RegularFile c) \<Rightarrow> c | Some (OtherNode c) \<Rightarrow> c | _ \<Rightarrow> None) =
      (case follow m of Some (RegularFile c) \<Rightarrow> c | Some (OtherNode c) \<Rightarrow> c | _ \<Rightarrow> None)" for m
    by (cases m) simp_all
  note kind = this
  from lstat_withhold [of False ps n] show ?thesis using assms kind
    by (cases rule: seen_as.cases) (auto simp: file_contents_def without_secrets_def)
qed

lemma secret_path: "last_secret False (path_parts p) \<longleftrightarrow> is_environment_file p"
  by (simp add: last_secret_def secret_name_def is_environment_file_def file_name_of_def starts_with_def
      ends_with_def ascii_simps)

lemma read_text_withhold:
  "\<not> is_environment_file p \<Longrightarrow> read_text (without_secrets n) p = read_text n p"
  by (simp add: read_text_def file_contents_withhold secret_path)

lemma is_dir_node_withhold [simp]: "is_dir_node (withhold secret m) = is_dir_node m"
  using follow_directory_withhold by (cases m) (auto simp: is_dir_node_def split: option.splits node.splits)

lemma walk_environment_withhold: "walk_environment base (withhold secret n) = walk_environment base n"
proof (induction n arbitrary: base secret)
  case (Directory es)
  have here: "map (\<lambda>(name, m). Path [] (base @ [name]))
        (filter (\<lambda>(name, m). \<not> is_dir_node m) (map (\<lambda>(name, m). (name, withhold (secret_name name) m)) es)) =
      map (\<lambda>(name, m). Path [] (base @ [name])) (filter (\<lambda>(name, m). \<not> is_dir_node m) es)"
    by (induction es) auto
  have below: "map (\<lambda>(name, m). if name \<in> set IGNORED_PARTS then [] else walk_environment (base @ [name]) m)
        (map (\<lambda>(name, m). (name, withhold (secret_name name) m)) es) =
      map (\<lambda>(name, m). if name \<in> set IGNORED_PARTS then [] else walk_environment (base @ [name]) m) es"
    using Directory by (auto intro!: map_cong)
  show ?case unfolding withhold.simps walk_environment.simps here below ..
qed simp_all

subsection \<open>The checks\<close>

lemma glob_units_withhold: "glob_units (without_secrets n) directory = glob_units n directory"
proof -
  have names: "map (\<lambda>(name, _). f name) (filter (\<lambda>(name, _). P name)
        (map (\<lambda>(name, m). (name, withhold (secret_name name) m)) es)) =
      map (\<lambda>(name, _). f name) (filter (\<lambda>(name, _). P name) es)" for es and f :: "ustring \<Rightarrow> path" and P
    by (induction es) auto
  have "(case follow (withhold secret m) of
        Some (Directory entries) \<Rightarrow> map (\<lambda>(name, _). f name) (filter (\<lambda>(name, _). P name) entries) | _ \<Rightarrow> []) =
      (case follow m of
        Some (Directory entries) \<Rightarrow> map (\<lambda>(name, _). f name) (filter (\<lambda>(name, _). P name) entries) | _ \<Rightarrow> [])"
    for m :: node and secret and f :: "ustring \<Rightarrow> path" and P
  proof (cases m)
    case (Link t)
    then show ?thesis using follow_directory_withhold [of secret t]
      by (auto split: option.splits node.splits)
  qed (simp_all only: follow.simps withhold.simps option.simps node.simps names)
  note names_of = this
  from lstat_withhold [of False "path_parts directory" n] show ?thesis using names_of
    by (cases rule: seen_as.cases) (auto simp: glob_units_def without_secrets_def)
qed

lemma metadata_files_withhold:
  "metadata_files (without_secrets n) directory pattern kind errors = metadata_files n directory pattern kind errors"
  by (simp add: metadata_files_def glob_units_withhold)

text \<open>Unit files are named \<open>icgt-*.md\<close>, which is no environment name.\<close>

lemma glob_units_not_secret:
  assumes "p \<in> set (glob_units n directory)"
  shows "\<not> is_environment_file p"
proof -
  obtain name where p: "file_name_of p = name" "starts_with (ascii ''icgt-'') name" "ends_with (ascii ''.md'') name"
    using assms by (auto simp: glob_units_def file_name_of_def split: sum.splits option.splits node.splits)
  obtain t where "name = ascii ''icgt-'' @ t" using p(2) by (auto simp: starts_with_append)
  then have "hd name = 105" by (simp add: ascii_simps)
  moreover obtain v where "name = v @ ascii ''.md''" using p(3) by (auto simp: ends_with_append)
  then have "last name = 100" by (simp add: ascii_simps)
  ultimately show ?thesis using p(1)
    by (auto simp: is_environment_file_def Let_def starts_with_append ends_with_append ascii_simps)
qed

lemma indexed_not_secret:
  "(u, p) \<in> set (fst (metadata_files n directory pattern kind errors)) \<Longrightarrow> \<not> is_environment_file p"
  by (rule glob_units_not_secret [OF indexed_member])

lemma check_unit_withhold:
  "\<not> is_environment_file story \<Longrightarrow> \<not> is_environment_file lesson \<Longrightarrow>
     check_unit nd (without_secrets n) (u, story, lesson) errors = check_unit nd n (u, story, lesson) errors"
  by (simp add: check_unit_def read_text_withhold)

lemma check_learning_metadata_withhold:
  "check_learning_metadata nd (without_secrets n) errors = check_learning_metadata nd n errors"
proof -
  obtain S e1 where S: "metadata_files n (relative_path [''user-stories'']) (STORY_FILENAME nd) ''story'' errors = (S, e1)"
    by fastforce
  obtain L e2 where L: "metadata_files n (relative_path [''docs'', ''lessons'']) (LESSON_FILENAME nd) ''lesson'' e1 = (L, e2)"
    by fastforce
  have "check_unit nd (without_secrets n) x e = check_unit nd n x e" if "x \<in> set (units_in_both S L)" for x e
  proof -
    obtain u p q where x: "x = (u, p, q)" by (cases x)
    with that have pq: "dict_get S u = Some p" "dict_get L u = Some q" by (simp_all add: units_in_both_member)
    have "\<not> is_environment_file p"
      using indexed_not_secret [of u p n _ _ _ errors] S map_of_SomeD [OF pq(1)] by (metis fst_conv)
    moreover have "\<not> is_environment_file q"
      using indexed_not_secret [of u q n _ _ _ e1] L map_of_SomeD [OF pq(2)] by (metis fst_conv)
    ultimately show ?thesis by (simp add: x check_unit_withhold)
  qed
  then have "foldR (check_unit nd (without_secrets n)) (units_in_both S L) e = foldR (check_unit nd n) (units_in_both S L) e" for e
    by (intro foldR_cong) simp_all
  then show ?thesis by (simp add: check_learning_metadata_def metadata_files_withhold S L Let_def)
qed

abbreviation blind :: "host \<Rightarrow> host" where
  "blind h \<equiv> h\<lparr>tree := without_secrets (tree h)\<rparr>"

lemma repository_files_withhold: "repository_files (blind h) = repository_files h"
proof -
  have "is_file_or_link (without_secrets n) = is_file_or_link n" for n
    by (rule ext) (simp add: is_file_or_link_def cong: if_cong)
  then have "is_file_or_link (tree (blind h)) = is_file_or_link (tree h)" by simp
  moreover have "git_output (blind h) = git_output h" by simp
  ultimately show ?thesis by (simp only: repository_files_def)
qed

lemma environment_files_withhold: "environment_files (blind h) = environment_files h"
proof (cases "tree h")
  case (Directory es)
  have "follow (withhold False (Directory es)) = Some (withhold False (Directory es))" by simp
  then show ?thesis
    by (simp add: environment_files_def without_secrets_def Directory walk_environment_withhold
        del: walk_environment.simps withhold.simps)
qed (simp_all add: environment_files_def without_secrets_def)

lemma check_required_paths_withhold: "check_required_paths (without_secrets n) errors = check_required_paths n errors"
proof -
  have "check_required_path (without_secrets n) = check_required_path n"
    by (intro ext) (simp add: check_required_path_def)
  then show ?thesis by (simp add: check_required_paths_def)
qed

lemma check_go_layout_withhold: "check_go_layout (without_secrets n) files errors = check_go_layout n files errors"
proof -
  have "\<not> is_environment_file root_manifest"
    by (simp add: root_manifest_def relative_path_def is_environment_file_def file_name_of_def
        starts_with_def ends_with_def ascii_simps)
  then have "check_root_manifest (without_secrets n) = check_root_manifest n"
    by (intro ext) (simp add: check_root_manifest_def file_contents_withhold secret_path cong: if_cong)
  then show ?thesis by (simp add: check_go_layout_def)
qed

lemma check_ci_go_policy_withhold: "check_ci_go_policy (without_secrets n) errors = check_ci_go_policy n errors"
proof -
  have "\<not> is_environment_file workflow_path"
    by (simp add: workflow_path_def relative_path_def is_environment_file_def file_name_of_def
        starts_with_def ends_with_def ascii_simps)
  then show ?thesis by (simp add: check_ci_go_policy_def read_text_withhold)
qed

lemma check_file_withhold: "check_file (blind h) p errors = check_file h p errors"
proof (cases "is_environment_file p")
  case True
  then show ?thesis by (simp add: check_file_def)
next
  case False
  have "resolve_path (blind h) = resolve_path h" "ROOT (blind h) = ROOT h" "path_exists (blind h) = path_exists h"
    by simp_all
  then have "check_link (blind h) p = check_link h p" by (intro ext) (simp only: check_link_def)
  with False have "check_markdown_links (blind h) p = check_markdown_links h p"
    by (intro ext) (simp add: check_markdown_links_def iter_markdown_links_def read_text_withhold)
  moreover from False have "check_text_hygiene (without_secrets (tree h)) p = check_text_hygiene (tree h) p"
    by (intro ext) (simp add: check_text_hygiene_def file_contents_withhold secret_path)
  moreover have "tree (blind h) = without_secrets (tree h)" by simp
  ultimately show ?thesis by (simp only: check_file_def)
qed

lemma repository_errors_withhold: "repository_errors nd (blind h) files = repository_errors nd h files"
proof -
  have "check_file (blind h) = check_file h" by (intro ext) (rule check_file_withhold)
  moreover have "check_learning_metadata nd (without_secrets (tree h)) = check_learning_metadata nd (tree h)"
    by (intro ext) (rule check_learning_metadata_withhold)
  ultimately show ?thesis
    by (simp add: repository_errors_def check_required_paths_withhold check_go_layout_withhold
        check_ci_go_policy_withhold environment_files_withhold)
qed

lemma main_repository_withhold: "main_repository nd (blind h) = main_repository nd h"
  unfolding main_repository_def repository_files_withhold repository_errors_withhold ..

lemma main_repository_same_view:
  assumes "without_secrets (tree h) = without_secrets (tree h')" and "git_output h = git_output h'"
    and "ROOT h = ROOT h'" and "resolve_path h = resolve_path h'" and "path_exists h = path_exists h'"
  shows "main_repository nd h = main_repository nd h'"
proof -
  have "blind h = blind h'" using assms by simp
  then show ?thesis using main_repository_withhold [of nd h] main_repository_withhold [of nd h'] by metis
qed

end
