(* ===== verification/RepoErrors.thy ===== *)
theory RepoErrors
  imports RepoSpec
begin

text \<open>
  What \<open>scripts/check_repository.py\<close> can raise, when it must, and when a run returns: \<open>OSError\<close> comes from
  looking up a listed name or reading a listed text file or a unit, the rest from the host on resolving a
  link target or asking whether it exists. The bounds are stated for any set \<open>E\<close> of exceptions.
\<close>

subsection \<open>Lookups\<close>

lemma resolve_raises: "resolve n ps = Inl e \<Longrightarrow> e = OSError"
  by (induction ps arbitrary: n) (auto split: option.splits node.splits if_splits)

lemma lstat_raises: "lstat n ps = Inl e \<Longrightarrow> e = OSError"
  by (auto simp: lstat_def dest: resolve_raises split: if_splits)

lemma is_file_raises: "is_file n ps = Inl e \<Longrightarrow> e = OSError"
  by (auto simp: is_file_eq bindR_eq_Inl dest: lstat_raises)

lemma is_symlink_raises: "is_symlink n ps = Inl e \<Longrightarrow> e = OSError"
  by (auto simp: is_symlink_eq bindR_eq_Inl dest: lstat_raises)

lemma filterR_raises: "filterR f xs = Inl e \<Longrightarrow> \<exists>x \<in> set xs. f x = Inl e"
  by (induction xs) (auto simp: bindR_eq_Inl)

lemma repository_files_raises: "repository_files h = Inl e \<Longrightarrow> e = OSError"
  by (auto simp: repository_files_def bindR_eq_Inl is_file_or_link_def split: option.splits if_splits
      dest!: filterR_raises dest: is_file_raises is_symlink_raises)

definition short_parts :: "path \<Rightarrow> bool" where
  "short_parts p \<longleftrightarrow> list_all (\<lambda>part. \<not> name_too_long part) (path_parts p)"

definition readable :: "node \<Rightarrow> path \<Rightarrow> bool" where
  "readable repository p \<longleftrightarrow> file_contents repository (path_parts p) \<noteq> None"

lemma resolve_returns: "list_all (\<lambda>part. \<not> name_too_long part) ps \<Longrightarrow> \<exists>m. resolve n ps = Inr m"
  by (induction ps arbitrary: n) (auto split: option.split node.split)

lemma lookup_returns:
  assumes "short_parts p"
  shows "\<exists>b. is_file n (path_parts p) = Inr b" and "\<exists>b. is_symlink n (path_parts p) = Inr b"
    and "\<exists>b. is_file_or_link n p = Inr b"
proof -
  obtain m where "resolve n (path_parts p) = Inr m"
    using resolve_returns [of "path_parts p" n] assms by (auto simp: short_parts_def)
  then have "\<exists>m. lstat n (path_parts p) = Inr m" by (simp add: lstat_def)
  then obtain m where "lstat n (path_parts p) = Inr m" ..
  then show regular: "\<exists>b. is_file n (path_parts p) = Inr b" and link: "\<exists>b. is_symlink n (path_parts p) = Inr b"
    by (simp_all add: is_file_eq is_symlink_eq)
  from regular obtain b where "is_file n (path_parts p) = Inr b" ..
  with link show "\<exists>b. is_file_or_link n p = Inr b" by (cases b) (auto simp: is_file_or_link_def ex_bool_eq)
qed

lemma read_text_raises: "read_text n p = Inl e \<Longrightarrow> e = OSError \<and> \<not> readable n p \<or> e = ValueError"
  by (auto simp: read_text_def readable_def split: option.splits)

subsection \<open>The checks\<close>

lemma required_short: "\<forall>relative \<in> set REQUIRED_PATHS. short_parts (parse_path (ascii relative))"
  by (simp add: REQUIRED_PATHS_def short_parts_def name_too_long_def parse_path_def slashes_def utf8_encode_def
      utf8_char_def ascii_simps)

lemma manifest_short: "short_parts root_manifest"
  by (simp add: root_manifest_def relative_path_def short_parts_def name_too_long_def utf8_encode_def utf8_char_def
      ascii_simps)

lemma required_raises_only: "raises_only E (check_required_paths n)"
proof -
  have "raises_only E (check_required_path n relative)" if "relative \<in> set REQUIRED_PATHS" for relative
    using lookup_returns(1) [of "parse_path (ascii relative)" n] required_short that
    by (auto simp: raises_only_def check_required_path_def)
  then show ?thesis unfolding check_required_paths_def by (rule raises_only_foldR)
qed

lemma go_layout_raises_only: "raises_only E (check_go_layout n files)"
proof -
  obtain b c where "is_file n (path_parts root_manifest) = Inr b" "is_symlink n (path_parts root_manifest) = Inr c"
    using lookup_returns(1,2) [OF manifest_short] by blast
  then have "raises_only E (check_root_manifest n)" by (simp add: raises_only_def check_root_manifest_def)
  then show ?thesis unfolding check_go_layout_def by (intro raises_only_bind raises_only_pure)
qed

lemma ci_raises_only: "raises_only E (check_ci_go_policy n)"
proof -
  have "check_ci_go_policy n errors \<noteq> Inl e" for errors e
  proof (cases "read_text n workflow_path")
    case (Inr t)
    then show ?thesis using workflow_steps_keys [of t] by (auto simp: check_ci_go_policy_def)
  qed (simp add: check_ci_go_policy_def)
  then show ?thesis by (simp add: raises_only_def)
qed

lemma unit_raises_only:
  assumes "\<not> readable n story \<Longrightarrow> E OSError" and "\<not> readable n lesson \<Longrightarrow> E OSError"
  shows "raises_only E (check_unit nd n (u, story, lesson))"
proof -
  have "E e" if "check_unit nd n (u, story, lesson) errors = Inl e" for errors e
    using that assms by (auto simp: check_unit_def bindR_eq_Inl dest!: read_text_raises
        split: sum.splits exc.splits)
  then show ?thesis by (simp add: raises_only_def)
qed

definition unit_candidates :: "node \<Rightarrow> path list" where
  "unit_candidates n =
     glob_units n (relative_path [''user-stories'']) @ glob_units n (relative_path [''docs'', ''lessons''])"

lemma metadata_raises_only:
  assumes "\<And>p. p \<in> set (unit_candidates n) \<Longrightarrow> \<not> readable n p \<Longrightarrow> E OSError"
  shows "raises_only E (check_learning_metadata nd n)"
proof -
  have "E e" if run: "check_learning_metadata nd n errors = Inl e" for errors e
  proof -
    obtain S e1 where S: "metadata_files n (relative_path [''user-stories'']) (STORY_FILENAME nd) ''story'' errors = (S, e1)"
      by fastforce
    obtain L e2 where L: "metadata_files n (relative_path [''docs'', ''lessons'']) (LESSON_FILENAME nd) ''lesson'' e1 = (L, e2)"
      by fastforce
    have "raises_only E (check_unit nd n x)" if x: "x \<in> set (units_in_both S L)" for x
    proof -
      obtain u p q where u: "x = (u, p, q)" by (cases x)
      with x have "dict_get S u = Some p" "dict_get L u = Some q" by (simp_all add: units_in_both_member)
      then have "(u, p) \<in> set S" "(u, q) \<in> set L" by (simp_all add: map_of_SomeD)
      then have "p \<in> set (glob_units n (relative_path [''user-stories'']))"
          "q \<in> set (glob_units n (relative_path [''docs'', ''lessons'']))"
        using indexed_member [of u p n "relative_path [''user-stories'']" "STORY_FILENAME nd" "''story''" errors] S
          indexed_member [of u q n "relative_path [''docs'', ''lessons'']" "LESSON_FILENAME nd" "''lesson''" e1] L
        by simp_all
      then have "p \<in> set (unit_candidates n)" "q \<in> set (unit_candidates n)" by (simp_all add: unit_candidates_def)
      then show ?thesis unfolding u using assms by (intro unit_raises_only)
    qed
    then have "raises_only E (foldR (check_unit nd n) (units_in_both S L))" by (rule raises_only_foldR)
    with run show ?thesis by (auto simp: raises_only_def check_learning_metadata_def Let_def S L)
  qed
  then show ?thesis by (simp add: raises_only_def)
qed

lemma link_raises_only:
  assumes "\<And>q e. resolve_path h q = Inl e \<Longrightarrow> E e" and "\<And>q e. path_exists h q = Inl e \<Longrightarrow> E e"
  shows "raises_only E (check_link h p link)"
  using assms by (auto simp: raises_only_def check_link_def Let_def bindR_eq_Inl split: prod.splits if_splits)

text \<open>The links are read after the hygiene check has decoded the file, so decoding does not raise.\<close>

lemma read_text_total:
  assumes "check_text_hygiene n p errors = Inr (True, errors')" and "text_file p"
  shows "\<exists>t. read_text n p = Inr t"
  using assms by (auto simp: check_text_hygiene_def text_file_def read_text_def split: option.splits)

lemma file_raises_only:
  assumes "text_file p \<Longrightarrow> \<not> is_environment_file p \<Longrightarrow> \<not> readable (tree h) p \<Longrightarrow> E OSError"
    and "\<And>q e. resolve_path h q = Inl e \<Longrightarrow> E e" and "\<And>q e. path_exists h q = Inl e \<Longrightarrow> E e"
  shows "raises_only E (check_file h p)"
  unfolding raises_only_def
proof (intro allI impI)
  fix errors e
  assume "check_file h p errors = Inl e"
  then consider (hygiene) "\<not> is_environment_file p" "check_text_hygiene (tree h) p errors = Inl e"
    | (links) errors' where "check_text_hygiene (tree h) p errors = Inr (True, errors')" "markdown_file p"
        "check_markdown_links h p errors' = Inl e"
    by (auto simp: check_file_def markdown_file_def bindR_eq_Inl split: if_splits prod.splits)
  then show "E e"
  proof cases
    case hygiene
    then have "e = OSError" "text_file p" "\<not> readable (tree h) p"
      by (auto simp: check_text_hygiene_def text_file_def readable_def split: if_splits option.splits)
    with hygiene(1) assms(1) show ?thesis by simp
  next
    case links
    then obtain t where "read_text (tree h) p = Inr t"
      using read_text_total markdown_is_text by blast
    with links(3) obtain xs where "foldR (check_link h p) xs errors' = Inl e"
      by (auto simp: check_markdown_links_def iter_markdown_links_def)
    moreover have "raises_only E (foldR (check_link h p) xs)"
      using assms(2,3) by (intro raises_only_foldR link_raises_only)
    ultimately show ?thesis by (auto simp: raises_only_def)
  qed
qed

subsection \<open>The run\<close>

lemma repository_errors_raises_only:
  assumes "\<And>p. p \<in> set files \<Longrightarrow> text_file p \<Longrightarrow> \<not> is_environment_file p \<Longrightarrow> \<not> readable (tree h) p \<Longrightarrow> E OSError"
    and "\<And>p. p \<in> set (unit_candidates (tree h)) \<Longrightarrow> \<not> readable (tree h) p \<Longrightarrow> E OSError"
    and "\<And>q e. resolve_path h q = Inl e \<Longrightarrow> E e" and "\<And>q e. path_exists h q = Inl e \<Longrightarrow> E e"
    and "repository_errors nd h files = Inl e"
  shows "E e"
proof -
  have "raises_only E (check_file h p)" if "p \<in> set files" for p
    using assms(1) [OF that] assms(3,4) by (rule file_raises_only)
  then have files: "raises_only E (foldR (check_file h) files)" by (rule raises_only_foldR)
  have metadata: "raises_only E (check_learning_metadata nd (tree h))"
    using assms(2) by (rule metadata_raises_only)
  from assms(5) consider errors where "check_required_paths (tree h) errors = Inl e"
    | errors where "check_go_layout (tree h) files errors = Inl e"
    | errors where "check_ci_go_policy (tree h) errors = Inl e"
    | errors where "foldR (check_file h) files errors = Inl e"
    | errors where "check_learning_metadata nd (tree h) errors = Inl e"
    unfolding repository_errors_def bindR_eq_Inl by blast
  then show ?thesis
    using required_raises_only [of E "tree h"] go_layout_raises_only [of E "tree h" files]
      ci_raises_only [of E "tree h"] files metadata
    by cases (auto simp: raises_only_def)
qed

definition host_exception :: "host \<Rightarrow> exc \<Rightarrow> bool" where
  "host_exception h e \<longleftrightarrow> e = OSError \<or> (\<exists>p. resolve_path h p = Inl e) \<or> (\<exists>p. path_exists h p = Inl e)"

lemma repository_errors_raises: "repository_errors nd h files = Inl e \<Longrightarrow> host_exception h e"
  by (erule repository_errors_raises_only [rotated -1]) (auto simp: host_exception_def)

lemma main_repository_raises: "main_repository nd h = Inl e \<Longrightarrow> host_exception h e"
proof (cases "repository_files h")
  case (Inl e')
  assume "main_repository nd h = Inl e"
  with Inl show ?thesis using repository_files_raises by (simp add: main_repository_def host_exception_def)
next
  case (Inr found)
  assume "main_repository nd h = Inl e"
  with Inr show ?thesis
    by (cases found) (auto simp: main_repository_def bindR_eq_Inl intro: repository_errors_raises)
qed

subsection \<open>When the run must raise\<close>

lemma foldR_must_raise:
  assumes "x \<in> set xs" and "\<And>s. \<exists>e. f x s = Inl e"
  shows "\<exists>e. foldR f xs s = Inl e"
  using assms(1)
proof (induction xs arbitrary: s)
  case (Cons y ys)
  show ?case
  proof (cases "f y s")
    case (Inr s')
    with Cons assms(2) show ?thesis by (metis foldR.simps(2) bindR_simps(2) set_ConsD sum.distinct(1))
  qed simp
qed simp

lemma bindR_must_raise:
  "\<exists>e. m = Inl e \<Longrightarrow> \<exists>e. bindR m g = Inl e"
  "(\<And>x. \<exists>e. g x = Inl e) \<Longrightarrow> \<exists>e. bindR m g = Inl e"
  by (cases m; auto)+

lemma listed_file_must_raise:
  assumes "repository_files h = Inr (Inr files)" and "p \<in> set files"
    and "\<And>errors. \<exists>e. check_file h p errors = Inl e"
  shows "\<exists>e. main_repository nd h = Inl e"
proof -
  have "\<exists>e. foldR (check_file h) files errors = Inl e" for errors
    using assms(2,3) by (rule foldR_must_raise)
  note raised = this
  have "\<exists>e. repository_errors nd h files = Inl e"
    unfolding repository_errors_def
    by (rule bindR_must_raise(2), rule bindR_must_raise(2), rule bindR_must_raise(2),
      rule bindR_must_raise(1) [OF raised])
  with assms(1) show ?thesis by (auto simp: main_repository_def)
qed

lemma unreadable_text_must_raise:
  assumes "text_file p" and "\<not> is_environment_file p" and "file_contents (tree h) (path_parts p) = None"
  shows "check_file h p errors = Inl OSError"
  using assms by (simp add: check_file_def check_text_hygiene_def text_file_def)

lemma link_must_raise:
  assumes "markdown_file p" and "\<not> is_environment_file p"
    and "read_text (tree h) p = Inr t" and "(number, raw_target) \<in> links_on (splitlines t)"
    and "\<And>errors. \<exists>e. check_link h p (number, raw_target) errors = Inl e"
  shows "\<exists>e. check_file h p errors = Inl e"
proof -
  have "(number, raw_target) \<in> set (links_of_lines False (enumerate 1 (splitlines t)))"
    using assms(4) by (simp add: links_of_text [simplified])
  then have links: "\<exists>e. check_markdown_links h p errors' = Inl e" for errors'
    using foldR_must_raise [of "(number, raw_target)" _ "check_link h p"] assms(3,5)
    by (simp add: check_markdown_links_def iter_markdown_links_def)
  obtain raw where raw: "file_contents (tree h) (path_parts p) = Some raw" "utf8_decode raw \<noteq> None"
    using assms(3) by (auto simp: read_text_def split: option.splits)
  moreover have "text_file p" using assms(1) by (rule markdown_is_text)
  ultimately have "\<exists>errors'. check_text_hygiene (tree h) p errors = Inr (True, errors')"
    by (auto simp: check_text_hygiene_def text_file_def)
  with links show ?thesis using assms(1,2) by (auto simp: check_file_def markdown_file_def)
qed

subsection \<open>When the run returns\<close>

lemma filterR_returns: "(\<And>x. x \<in> set xs \<Longrightarrow> \<exists>b. f x = Inr b) \<Longrightarrow> \<exists>ys. filterR f xs = Inr ys \<and> set ys \<subseteq> set xs"
proof (induction xs)
  case (Cons x xs)
  then obtain b ys where "f x = Inr b" "filterR f xs = Inr ys" "set ys \<subseteq> set xs" by fastforce
  then show ?case by auto
qed simp

definition listed_paths :: "byte list \<Rightarrow> path list" where
  "listed_paths output = map (\<lambda>raw. parse_path (fsdecode raw)) (filter (\<lambda>raw. raw \<noteq> []) (split_bytes output))"

lemma main_repository_returns:
  assumes "git_output h = Some output" and "\<And>p. p \<in> set (listed_paths output) \<Longrightarrow> short_parts p"
    and "\<And>p. p \<in> set (listed_paths output) \<Longrightarrow> is_file_or_link (tree h) p = Inr True \<Longrightarrow> text_file p \<Longrightarrow>
      \<not> is_environment_file p \<Longrightarrow> readable (tree h) p"
    and "\<And>p. p \<in> set (unit_candidates (tree h)) \<Longrightarrow> readable (tree h) p"
    and "\<And>q. \<exists>r. resolve_path h q = Inr r" and "\<And>q. \<exists>b. path_exists h q = Inr b"
  shows "\<exists>r. main_repository nd h = Inr r"
proof -
  have "\<exists>ys. filterR (is_file_or_link (tree h)) (listed_paths output) = Inr ys \<and> set ys \<subseteq> set (listed_paths output)"
    using lookup_returns(3) assms(2) by (intro filterR_returns) blast
  then obtain ys where ys: "filterR (is_file_or_link (tree h)) (listed_paths output) = Inr ys"
      "set ys \<subseteq> set (listed_paths output)" by blast
  then have files: "repository_files h = Inr (Inr (sort ys))"
    using assms(1) by (simp add: repository_files_def listed_paths_def)
  have kept: "is_file_or_link (tree h) p = Inr True" if "p \<in> set ys" for p
    using filterR_Inr [OF ys(1)] that by simp
  have "\<exists>errors. repository_errors nd h (sort ys) = Inr errors"
  proof (cases "repository_errors nd h (sort ys)")
    case (Inl e)
    have False
    proof (rule repository_errors_raises_only [OF _ _ _ _ Inl, where E = "\<lambda>e. False"])
      show "False" if "p \<in> set (sort ys)" "text_file p" "\<not> is_environment_file p" "\<not> readable (tree h) p" for p
        using that ys(2) kept [of p] assms(3) [of p] by auto
      show "False" if "p \<in> set (unit_candidates (tree h))" "\<not> readable (tree h) p" for p
        using that assms(4) by blast
      show "False" if "resolve_path h q = Inl e" for q e using that assms(5) [of q] by simp
      show "False" if "path_exists h q = Inl e" for q e using that assms(6) [of q] by simp
    qed
    then show ?thesis ..
  qed simp
  then show ?thesis using files by (auto simp: main_repository_def)
qed

end
