(* ===== verification/RepoExposed.thy ===== *)
theory RepoExposed
  imports RepoErrors
begin

text \<open>
  What the diagnostics of \<open>scripts/check_repository.py\<close> tell of a listed file: a message of the text
  hygiene survives the rest of the run, so the printed lines show which lines of the file end in blanks.
\<close>

lemma judges_keeps:
  assumes "judges f P" and "f errors = Inr errors'"
  shows "set errors \<subseteq> set errors'"
  using judgesE [OF assms(1)] assms(2) by (auto simp: bindR_eq_Inr)

lemma foldR_keeps:
  assumes "\<And>x. x \<in> set xs \<Longrightarrow> judges (f x) (P x)" and "x \<in> set xs"
    and "\<And>errors errors'. f x errors = Inr errors' \<Longrightarrow> m \<in> set errors'" and "foldR f xs errors = Inr errors'"
  shows "m \<in> set errors'"
  using assms
proof (induction xs arbitrary: errors)
  case (Cons y ys)
  then obtain middle where middle: "f y errors = Inr middle" "foldR f ys middle = Inr errors'"
    by (auto simp: bindR_eq_Inr)
  show ?case
  proof (cases "x = y")
    case True
    have "judges (foldR f ys) (\<forall>x \<in> set ys. P x)" using Cons.prems(1) by (intro judges_foldR) simp
    from judges_keeps [OF this middle(2)] Cons.prems(3) middle(1) True show ?thesis by blast
  next
    case False
    with Cons.prems Cons.IH [OF _ _ _ middle(2)] show ?thesis by simp
  qed
qed simp

lemma fold_report_if:
  "fold (\<lambda>(number, line). report_if (P line) (message number)) lines errors =
     errors @ map (\<lambda>(number, line). message number) (filter (\<lambda>(number, line). P line) lines)"
  by (induction lines arbitrary: errors) (auto simp: report_if_def report_def)

lemma hygiene_names_blank_lines:
  assumes "text_file p" and "file_contents repository (path_parts p) = Some raw" and "utf8_decode raw = Some t"
    and "i < length (splitlines t)" and "trailing_blank (splitlines t ! i)"
  shows "\<exists>errors'. check_text_hygiene repository p errors = Inr (True, errors') \<and>
    ascii ''trailing whitespace: '' @ as_posix p @ ascii '':'' @ py_str_nat (Suc i) \<in> set errors'"
proof -
  have "(Suc i, splitlines t ! i) \<in> set (enumerate 1 (splitlines t))"
    using assms(4) by (auto simp: in_set_enumerate_eq)
  with assms show ?thesis
    by (simp add: check_text_hygiene_def text_file_def fold_report_if) (force simp: image_iff)
qed

lemma file_names_blank_lines:
  assumes "text_file p" and "\<not> is_environment_file p"
    and "file_contents (tree h) (path_parts p) = Some raw" and "utf8_decode raw = Some t"
    and "i < length (splitlines t)" and "trailing_blank (splitlines t ! i)"
    and "check_file h p errors = Inr errors'"
  shows "ascii ''trailing whitespace: '' @ as_posix p @ ascii '':'' @ py_str_nat (Suc i) \<in> set errors'"
proof -
  obtain middle where middle: "check_text_hygiene (tree h) p errors = Inr (True, middle)"
      "ascii ''trailing whitespace: '' @ as_posix p @ ascii '':'' @ py_str_nat (Suc i) \<in> set middle"
    using hygiene_names_blank_lines [OF assms(1,3-6)] by blast
  have "set middle \<subseteq> set errors'"
    using assms(2,7) middle(1) judges_keeps [OF check_markdown_links_judges]
    by (auto simp: check_file_def split: if_splits)
  with middle(2) show ?thesis by blast
qed

lemma run_names_blank_lines:
  assumes "repository_files h = Inr (Inr files)" and "p \<in> set files"
    and "text_file p" and "\<not> is_environment_file p"
    and "file_contents (tree h) (path_parts p) = Some raw" and "utf8_decode raw = Some t"
    and "i < length (splitlines t)" and "trailing_blank (splitlines t ! i)"
    and "main_repository nd h = Inr r"
  shows "status r = 1 \<and>
    ascii ''trailing whitespace: '' @ as_posix p @ ascii '':'' @ py_str_nat (Suc i) \<in> set (stderr r)"
proof -
  let ?m = "ascii ''trailing whitespace: '' @ as_posix p @ ascii '':'' @ py_str_nat (Suc i)"
  obtain errors where errors: "repository_errors nd h files = Inr errors"
    using assms(1,9) by (auto simp: main_repository_def bindR_eq_Inr)
  then obtain before after where run: "foldR (check_file h) files before = Inr after"
      and metadata: "check_learning_metadata nd (tree h) after = Inr errors"
    by (auto simp: repository_errors_def bindR_eq_Inr)
  have "?m \<in> set after"
  proof (rule foldR_keeps [OF check_file_judges assms(2) _ run])
    show "?m \<in> set errors'" if "check_file h p errors = Inr errors'" for errors errors'
      using that by (rule file_names_blank_lines [OF assms(3-8)])
  qed
  then have "?m \<in> set errors" using judges_keeps [OF check_learning_metadata_judges metadata] by blast
  moreover from this have "errors \<noteq> []" by auto
  ultimately show ?thesis using assms(1,9) errors by (auto simp: main_repository_def)
qed

end
