(* ===== verification/RepoRoundtrip.thy ===== *)
theory RepoRoundtrip
  imports RepoSpec
begin

text \<open>
  Inverses and exact readings behind \<open>scripts/check_repository.py\<close>: a percent-encoded link target is read
  as the path it encodes, \<open>dedent\<close> undoes indentation, the null-separated output of Git is split into its names, and every
  Markdown link found is a bracketed label followed by its target.
\<close>

subsection \<open>unquote\<close>

definition upper_hexdigit :: "nat \<Rightarrow> nat" where
  "upper_hexdigit n = (if n < 10 then 48 + n else 55 + n)"

definition percent :: "byte \<Rightarrow> ustring" where
  "percent b = [37, upper_hexdigit (unat b div 16), upper_hexdigit (unat b mod 16)]"

text \<open>\<open>urllib.parse.quote\<close> for a set of safe characters.\<close>

definition percent_quote :: "(nat \<Rightarrow> bool) \<Rightarrow> ustring \<Rightarrow> ustring" where
  "percent_quote safe t =
     concat (map (\<lambda>c. if safe c \<and> c < 128 \<and> c \<noteq> 37 then [c] else concat (map percent (utf8_char c))) t)"

lemma hex_digit_value_hexdigit: "n < 16 \<Longrightarrow> hex_digit_value (upper_hexdigit n) = Some n"
  by (simp add: hex_digit_value_def upper_hexdigit_def)

lemma unquote_percent: "unquote_to_bytes (percent b @ s) = b # unquote_to_bytes s"
proof -
  have "16 * (unat b div 16) + unat b mod 16 = unat b" by simp
  moreover have "unat b div 16 < 16" using unat_byte_less [of b] by (simp add: less_mult_imp_div_less)
  ultimately show ?thesis by (simp add: percent_def hex_digit_value_hexdigit)
qed

lemma unquote_percents: "unquote_to_bytes (concat (map percent bs) @ s) = bs @ unquote_to_bytes s"
  by (induction bs) (simp_all add: unquote_percent)

lemma unquote_quoted_bytes: "unquote_to_bytes (percent_quote safe t) = utf8_encode t"
proof (induction t)
  case Nil
  then show ?case by (simp add: percent_quote_def utf8_encode_def)
next
  case (Cons c t)
  have "percent_quote safe (c # t) =
      (if safe c \<and> c < 128 \<and> c \<noteq> 37 then [c] else concat (map percent (utf8_char c))) @ percent_quote safe t"
    by (simp add: percent_quote_def)
  moreover have "utf8_encode (c # t) = utf8_char c @ utf8_encode t" by (simp add: utf8_encode_def)
  ultimately show ?case using Cons
    by (simp add: unquote_percents unquote_percent utf8_char_def)
qed

lemma percent_chars:
  "c \<in> set (percent b) \<Longrightarrow> c = 37 \<or> 48 \<le> c \<and> c \<le> 57 \<or> 65 \<le> c \<and> c \<le> 70"
proof -
  have digit: "48 \<le> upper_hexdigit n \<and> upper_hexdigit n \<le> 57 \<or> 65 \<le> upper_hexdigit n \<and> upper_hexdigit n \<le> 70"
    if "n < 16" for n using that by (simp add: upper_hexdigit_def)
  have "unat b div 16 < 16" using unat_byte_less [of b] by (simp add: less_mult_imp_div_less)
  then show "c \<in> set (percent b) \<Longrightarrow> c = 37 \<or> 48 \<le> c \<and> c \<le> 57 \<or> 65 \<le> c \<and> c \<le> 70"
    using digit [of "unat b div 16"] digit [of "unat b mod 16"] by (auto simp: percent_def)
qed

lemma percent_quote_chars:
  "c \<in> set (percent_quote safe t) \<Longrightarrow>
     c < 128 \<and> (safe c \<or> c = 37 \<or> 48 \<le> c \<and> c \<le> 57 \<or> 65 \<le> c \<and> c \<le> 70)"
  by (auto simp: percent_quote_def split: if_splits dest!: percent_chars)

lemma utf8_replace_encode: "list_all scalar t \<Longrightarrow> utf8_replace (utf8_encode t) = t"
proof (induction t)
  case Nil
  then show ?case by (simp add: utf8_encode_def utf8_replace.simps)
next
  case (Cons c t)
  have "utf8_encode (c # t) = utf8_char c @ utf8_encode t" by (simp add: utf8_encode_def)
  with Cons show ?case by (simp add: utf8_replace.simps [of "utf8_char c @ _"] utf8_char_not_Nil utf8_next_char)
qed

lemma unquote_ascii: "\<forall>c \<in> set s. c < 128 \<Longrightarrow> unquote s = utf8_replace (unquote_to_bytes s)"
proof (cases s)
  case Nil
  then show ?thesis by (simp add: unquote.simps utf8_replace.simps)
next
  case (Cons c s')
  assume ascii_only: "\<forall>c \<in> set s. c < 128"
  then have whole: "takeWhile (\<lambda>x. x < 128) s = s" "dropWhile (\<lambda>x. x < 128) s = []" by simp_all
  have "unquote s = (if c < 128
      then utf8_replace (unquote_to_bytes (takeWhile (\<lambda>x. x < 128) s)) @ unquote (dropWhile (\<lambda>x. x < 128) s)
      else c # unquote s')"
    unfolding Cons by (simp only: unquote.simps [of "c # s'"] list.case)
  moreover have "c < 128" using ascii_only Cons by simp
  moreover have "unquote [] = []" by (simp add: unquote.simps)
  ultimately show ?thesis unfolding whole by simp
qed

lemma unquote_quote: "list_all scalar t \<Longrightarrow> unquote (percent_quote safe t) = t"
  using percent_quote_chars by (simp add: unquote_ascii unquote_quoted_bytes utf8_replace_encode)

subsection \<open>Encoded link targets\<close>

text \<open>A target without white space, fragment, query, scheme and angle bracket is taken as it stands.\<close>

definition plain_target :: "ustring \<Rightarrow> bool" where
  "plain_target u \<longleftrightarrow> u \<noteq> [] \<and> (\<forall>c \<in> set u. c \<notin> {35, 58, 60, 63} \<and> \<not> py_space c)"

lemma before_first_absent: "c \<notin> set u \<Longrightarrow> before_first [c] u = u"
proof -
  assume "c \<notin> set u"
  then have "\<not> contains [c] u" by (auto simp: contains_iff)
  then have "split_first [c] u = None" by (simp only: contains_def not_not)
  then show ?thesis by (simp add: before_first_def)
qed

lemma starts_with_member: "starts_with w u \<Longrightarrow> c \<in> set w \<Longrightarrow> c \<in> set u"
  by (auto simp: starts_with_append)

lemma plain_target_kept:
  assumes "plain_target u"
  shows "markdown_destination u = u" "before_first [63] (before_first [35] u) = u" "\<not> ignored_target u"
proof -
  have chars: "c \<notin> {35, 58, 60, 63}" "\<not> py_space c" if "c \<in> set u" for c
    using assms that by (auto simp: plain_target_def)
  have stripped: "dropWhile py_space v = v" if "set v = set u" for v
    using chars(2) that by (cases v) auto
  have "dropWhile py_space u = u" "dropWhile py_space (rev u) = rev u" by (simp_all add: stripped)
  moreover have "takeWhile (\<lambda>c. \<not> py_space c) u = u" using chars(2) by (simp add: takeWhile_eq_all_conv)
  moreover have "\<not> starts_with [60] u" using starts_with_member [of "[60]" u 60] chars(1) by auto
  ultimately show "markdown_destination u = u"
    by (simp add: markdown_destination_def py_strip_def lstrip_by_def rstrip_by_def)
  show "before_first [63] (before_first [35] u) = u"
  proof -
    have "35 \<notin> set u" "63 \<notin> set u" using chars(1) by blast+
    then show ?thesis by (simp add: before_first_absent)
  qed
  have "\<not> starts_with (ascii scheme) u" if "scheme \<in> {''#'', ''http://'', ''https://'', ''mailto:''}" for scheme
    using that starts_with_member [of "ascii scheme" u 35] starts_with_member [of "ascii scheme" u 58]
      chars(1) [of 35] chars(1) [of 58] by (auto simp: ascii_simps)
  then show "\<not> ignored_target u" using assms by (simp add: ignored_target_def plain_target_def)
qed

lemma quoted_plain_target:
  assumes "list_all scalar t" and "t \<noteq> []" and "\<And>c. safe c \<Longrightarrow> c \<notin> {35, 58, 60, 63} \<and> \<not> py_space c"
  shows "plain_target (percent_quote safe t)"
proof -
  have "unquote [] = []" by (simp add: unquote.simps)
  then have "percent_quote safe t \<noteq> []" using unquote_quote [OF assms(1), of safe] assms(2) by metis
  moreover have "\<not> py_space c" if "c = 37 \<or> 48 \<le> c \<and> c \<le> 57 \<or> 65 \<le> c \<and> c \<le> 70" for c
    using that by (auto simp: py_space_def in_class_def space_ranges_def)
  moreover have "c \<notin> {35, 58, 60, 63}" if "c = 37 \<or> 48 \<le> c \<and> c \<le> 57 \<or> 65 \<le> c \<and> c \<le> 70" for c :: nat
    using that by auto
  ultimately show ?thesis
    using percent_quote_chars assms(3) unfolding plain_target_def by metis
qed

lemma link_sound_quoted:
  assumes "list_all scalar t" and "t \<noteq> []" and "\<And>c. safe c \<Longrightarrow> c \<notin> {35, 58, 60, 63} \<and> \<not> py_space c"
  shows "link_sound h p (percent_quote safe t) \<longleftrightarrow>
    (\<exists>destination. resolve_path h (join_path (join_path (ROOT h) (parent_path p)) (parse_path t)) = Inr destination \<and>
       is_under (ROOT h) destination \<and> path_exists h destination = Inr True)"
  using plain_target_kept [OF quoted_plain_target [OF assms]] assms(2)
  by (simp add: link_sound_def unquote_quote [OF assms(1)])

subsection \<open>dedent\<close>

text \<open>\<open>textwrap.indent\<close>: the margin in front of every line that is not empty.\<close>

definition indent_text :: "ustring \<Rightarrow> ustring \<Rightarrow> ustring" where
  "indent_text margin t = join_with [10] (map (\<lambda>l. if l = [] then [] else margin @ l) (split_on 10 t))"

text \<open>Lines of blanks only are empty, and some line starts at the left margin.\<close>

definition flush_left :: "ustring \<Rightarrow> bool" where
  "flush_left t \<longleftrightarrow> list_all (\<lambda>l. list_all blank l \<longrightarrow> l = []) (split_on 10 t) \<and>
     list_ex (\<lambda>l. l \<noteq> [] \<and> \<not> blank (hd l)) (split_on 10 t)"

lemma common_prefix_Nil: "common_prefix xs [] = []"
  by (cases xs) simp_all

lemma common_prefix_append: "common_prefix (margin @ xs) (margin @ ys) = margin @ common_prefix xs ys"
  by (induction margin) simp_all

lemma fold_common_prefix_append:
  "fold common_prefix (map ((@) margin) xs) (margin @ y) = margin @ fold common_prefix xs y"
  by (induction xs arbitrary: y) (simp_all add: common_prefix_append)

lemma fold_common_prefix_Nil: "[] \<in> set (y # xs) \<Longrightarrow> fold common_prefix xs y = []"
proof (induction xs arbitrary: y)
  case (Cons x xs)
  then have "[] \<in> set (common_prefix x y # xs)" by (auto simp: common_prefix_Nil)
  with Cons.IH show ?case by simp
qed simp

lemma dedent_indent:
  assumes margin: "list_all blank margin" and t: "flush_left t"
  shows "dedent (indent_text margin t) = t"
proof -
  let ?f = "\<lambda>l. if l = [] then [] else margin @ l"
  let ?ls = "split_on 10 t"
  have "10 \<notin> set margin" using margin by (auto simp: list_all_iff blank_def)
  then have "\<forall>l \<in> set (map ?f ?ls). 10 \<notin> set l" using split_on_parts by auto
  then have lines: "split_on 10 (indent_text margin t) = map ?f ?ls"
    unfolding indent_text_def by (intro split_join) simp_all
  have kept: "map (\<lambda>line. if list_all blank line then [] else line) (map ?f ?ls) = map ?f ?ls"
    using t margin by (auto simp: flush_left_def list_all_iff)
  let ?tails = "map (takeWhile blank) (filter (\<lambda>l. l \<noteq> []) ?ls)"
  have filtered: "filter (\<lambda>l. l \<noteq> []) (map ?f xs) = map ((@) margin) (filter (\<lambda>l. l \<noteq> []) xs)" for xs
    by (induction xs) simp_all
  have all_blank: "takeWhile blank (margin @ l) = margin @ takeWhile blank l" for l
    using margin by (induction margin) simp_all
  have indents: "map (takeWhile blank) (filter (\<lambda>line. line \<noteq> []) (map ?f ?ls)) = map ((@) margin) ?tails"
    unfolding filtered by (simp add: all_blank)
  have "[] \<in> set ?tails"
  proof -
    obtain l where "l \<in> set ?ls" "l \<noteq> []" "\<not> blank (hd l)" using t by (auto simp: flush_left_def list_ex_iff)
    then have "takeWhile blank l = []" by (simp add: takeWhile_eq_Nil_iff)
    with \<open>l \<in> set ?ls\<close> \<open>l \<noteq> []\<close> show ?thesis by (force simp: image_iff)
  qed
  then obtain y ys where tails: "?tails = y # ys" and empty: "[] \<in> set (y # ys)" by (cases ?tails) auto
  have margin_found: "(case map ((@) margin) ?tails of [] \<Rightarrow> [] | i # is \<Rightarrow> fold common_prefix is i) = margin"
    unfolding tails using empty by (simp add: fold_common_prefix_append fold_common_prefix_Nil)
  have stripped: "map (\<lambda>line. if starts_with margin line then drop (length margin) line else line) (map ?f ?ls) = ?ls"
    unfolding map_map by (rule map_idI) (auto simp: starts_with_append)
  show ?thesis
    unfolding dedent_def Let_def lines kept indents margin_found stripped by (rule join_split)
qed

subsection \<open>The output of Git\<close>

definition null_separated :: "byte list list \<Rightarrow> byte list" where
  "null_separated names = concat (map (\<lambda>name. name @ [0]) names)"

lemma split_bytes_name: "0 \<notin> set name \<Longrightarrow> split_bytes (name @ 0 # rest) = name # split_bytes rest"
  by (induction name) auto

lemma split_null_separated:
  "\<forall>name \<in> set names. 0 \<notin> set name \<Longrightarrow> split_bytes (null_separated names) = names @ [[]]"
  by (induction names) (simp_all add: null_separated_def split_bytes_name)

lemma repository_files_set:
  assumes "git_output h = Some (null_separated names)" and "\<forall>name \<in> set names. name \<noteq> [] \<and> 0 \<notin> set name"
    and "repository_files h = Inr (Inr files)"
  shows "sorted files \<and> (\<forall>p. p \<in> set files \<longleftrightarrow>
    (\<exists>name \<in> set names. p = parse_path (fsdecode name)) \<and> is_file_or_link (tree h) p = Inr True)"
proof -
  have "filter (\<lambda>raw. raw \<noteq> []) (split_bytes (null_separated names)) = names"
    using assms(2) by (simp add: split_null_separated filter_id_conv)
  then obtain paths where paths: "filterR (is_file_or_link (tree h)) (map (\<lambda>raw. parse_path (fsdecode raw)) names) = Inr paths"
      "files = sort paths"
    using assms(1,3) by (auto simp: repository_files_def bindR_eq_Inr)
  then show ?thesis using filterR_Inr [OF paths(1)] by auto
qed

subsection \<open>Markdown links\<close>

lemma plain_match:
  "plain r \<Longrightarrow> (pre', rest', caps') \<in> set (rx_match r (pre, rest, caps)) \<Longrightarrow>
     \<exists>u. u \<in> rx_lang r \<and> rest = u @ rest' \<and> pre' = rev u @ pre"
  using rx_match_lang [of r pre rest caps] by (auto simp: ends_def splits_def set_eq_iff)

lemma finditer_from_match:
  assumes "plain r"
  shows "m \<in> set (finditer_from r pre s) \<Longrightarrow>
     \<exists>pre' s'. rev pre' @ s' = rev pre @ s \<and> m \<in> set (rx_match r (pre', s', []))"
proof (induction "length s" arbitrary: pre s rule: less_induct)
  case less
  from less.prems consider "m \<in> set (rx_match r (pre, s, []))"
    | c s' where "s = c # s'" "m \<in> set (finditer_from r (c # pre) s')"
    | q qs where "rx_match r (pre, s, []) = q # qs" "length (fst (snd q)) < length s"
        "m \<in> set (finditer_from r (fst q) (fst (snd q)))"
    by (subst (asm) finditer_from.simps) (auto split: list.splits if_splits)
  then show ?case
  proof cases
    case 1
    then show ?thesis by (intro exI [of _ pre] exI [of _ s]) simp
  next
    case 2
    with less.hyps [of s' "c # pre"] show ?thesis by simp
  next
    case 3
    obtain pre' s' caps where q: "q = (pre', s', caps)" by (cases q)
    with 3(1) have "(pre', s', caps) \<in> set (rx_match r (pre, s, []))" by simp
    then obtain u where "s = u @ s'" "pre' = rev u @ pre" using plain_match [OF assms] by blast
    with 3(2,3) q less.hyps [of s' pre'] show ?thesis by simp
  qed
qed

text \<open>The link text may be anything without a closing bracket, the target anything without a parenthesis.\<close>

definition link_text :: "ustring \<Rightarrow> ustring \<Rightarrow> ustring" where
  "link_text label target = [91] @ label @ [93, 40] @ target @ [41]"

lemma not_class_word:
  "u \<in> rx_lang (Rep lo None (Cls True [(c, c)])) \<Longrightarrow> c \<notin> set u \<and> lo \<le> length u"
proof -
  have "rx_lang (Cls True [(c, c)]) = {[x] | x. x \<noteq> c}" by (auto simp: in_class_def)
  then show "u \<in> rx_lang (Rep lo None (Cls True [(c, c)])) \<Longrightarrow> c \<notin> set u \<and> lo \<le> length u"
    by (auto simp: lang_pow_class count_ok_def)
qed

lemma rx_seq_step:
  "m \<in> set (rx_match (rx_seq (a # b # rs)) p) \<Longrightarrow>
     \<exists>pre s caps. (pre, s, caps) \<in> set (rx_match a p) \<and> m \<in> set (rx_match (rx_seq (b # rs)) (pre, s, caps))"
  by auto

lemma rx_chr_step:
  "(pre', s', caps') \<in> set (rx_match (Chr c) (pre, s, caps)) \<Longrightarrow> s = c # s' \<and> pre' = c # pre \<and> caps' = caps"
  by (cases s) (auto split: if_splits)

lemma rx_group_step:
  "(pre', s', caps') \<in> set (rx_match (Grp g r) (pre, s, caps)) \<Longrightarrow>
     \<exists>more_caps. (pre', s', more_caps) \<in> set (rx_match r (pre, s, caps)) \<and>
       caps' = (g, take (length s - length s') s) # more_caps"
  by auto

lemma markdown_link_shape:
  assumes "m \<in> set (finditer MARKDOWN_LINK line)"
  shows "\<exists>u label target v. line = u @ link_text label target @ v \<and> re_group m 1 = Some target \<and>
    93 \<notin> set label \<and> 41 \<notin> set target \<and> target \<noteq> []"
proof -
  let ?bang = "Rep 0 (Some 1) (Chr 33)" and ?label = "Rep 0 None (Cls True [(93, 93)])"
  let ?target = "Rep 1 None (Cls True [(41, 41)])"
  have "plain MARKDOWN_LINK" by (simp add: MARKDOWN_LINK_def)
  from finditer_from_match [OF this] assms obtain pre s where
    line: "rev pre @ s = line" and m: "m \<in> set (rx_match MARKDOWN_LINK (pre, s, []))"
    unfolding finditer_def by (metis append_Nil rev.simps(1))
  note m = m [unfolded MARKDOWN_LINK_def]
  obtain p1 s1 c1 where m1: "(p1, s1, c1) \<in> set (rx_match ?bang (pre, s, []))"
      and m: "m \<in> set (rx_match (rx_seq [Chr 91, ?label, Chr 93, Chr 40, Grp 1 ?target, Chr 41]) (p1, s1, c1))"
    using rx_seq_step [OF m] by blast
  obtain p2 s2 c2 where m2: "(p2, s2, c2) \<in> set (rx_match (Chr 91) (p1, s1, c1))"
      and m: "m \<in> set (rx_match (rx_seq [?label, Chr 93, Chr 40, Grp 1 ?target, Chr 41]) (p2, s2, c2))"
    using rx_seq_step [OF m] by blast
  obtain p3 s3 c3 where m3: "(p3, s3, c3) \<in> set (rx_match ?label (p2, s2, c2))"
      and m: "m \<in> set (rx_match (rx_seq [Chr 93, Chr 40, Grp 1 ?target, Chr 41]) (p3, s3, c3))"
    using rx_seq_step [OF m] by blast
  obtain p4 s4 c4 where m4: "(p4, s4, c4) \<in> set (rx_match (Chr 93) (p3, s3, c3))"
      and m: "m \<in> set (rx_match (rx_seq [Chr 40, Grp 1 ?target, Chr 41]) (p4, s4, c4))"
    using rx_seq_step [OF m] by blast
  obtain p5 s5 c5 where m5: "(p5, s5, c5) \<in> set (rx_match (Chr 40) (p4, s4, c4))"
      and m: "m \<in> set (rx_match (rx_seq [Grp 1 ?target, Chr 41]) (p5, s5, c5))"
    using rx_seq_step [OF m] by blast
  obtain p6 s6 c6 where g6: "(p6, s6, c6) \<in> set (rx_match (Grp 1 ?target) (p5, s5, c5))"
      and m: "m \<in> set (rx_match (rx_seq [Chr 41]) (p6, s6, c6))"
    using rx_seq_step [OF m] by blast
  obtain caps where m6: "(p6, s6, caps) \<in> set (rx_match ?target (p5, s5, c5))"
      and c6: "c6 = (1, take (length s5 - length s6) s5) # caps"
    using rx_group_step [OF g6] by blast
  obtain p7 s7 c7 where m7: "m = (p7, s7, c7)" by (cases m)
  with m have "(p7, s7, c7) \<in> set (rx_match (Chr 41) (p6, s6, c6))" by (simp only: rx_seq.simps)
  then have end_of_link: "s6 = 41 # s7" "c7 = c6" using rx_chr_step [of p7 s7 c7 41 p6 s6 c6] by blast+
  have group: "re_group m 1 = Some (take (length s5 - length s6) s5)"
    by (simp add: re_group_def m7 end_of_link(2) c6)
  have brackets: "s1 = 91 # s2" "s3 = 93 # s4" "s4 = 40 # s5"
    using rx_chr_step [OF m2] rx_chr_step [OF m4] rx_chr_step [OF m5] by simp_all
  obtain u1 where u1: "s = u1 @ s1" using plain_match [OF _ m1] by auto
  obtain label where label: "s2 = label @ s3" "93 \<notin> set label"
    using plain_match [OF _ m3] not_class_word [of _ 0 93] by auto
  obtain target where target: "s5 = target @ s6" "41 \<notin> set target" "target \<noteq> []"
    using plain_match [OF _ m6] not_class_word [of _ 1 41] by fastforce
  have "line = (rev pre @ u1) @ link_text label target @ s7"
    using line u1 brackets label(1) target(1) end_of_link(1) by (simp add: link_text_def)
  moreover have "re_group m 1 = Some target" using group target(1) by simp
  ultimately show ?thesis using target(2,3) label(2) by blast
qed

end
