(* ===== verification/RepoExamples.thy ===== *)
theory RepoExamples
  imports RepoRoundtrip RepoErrors
begin

text \<open>
  Concrete hosts and workflows, and what the simplifier needs to run the checks of
  \<open>scripts/check_repository.py\<close> on them: a repository that is accepted, one without entries, one whose
  listed link leads to an environment file, and a workflow whose gate step is a block scalar.
\<close>

subsection \<open>Evaluating the patterns\<close>

lemma dot_rep_to_end:
  "length rest \<le> n \<Longrightarrow> 10 \<notin> set rest \<Longrightarrow>
     filter (\<lambda>q. fst (snd q) = []) (rx_rep (rx_match (Cls True [(10, 10)])) n 0 None (pre, rest, caps)) =
       [(rev rest @ pre, [], caps)]"
proof (induction n arbitrary: pre rest)
  case (Suc n)
  then show ?case by (cases rest) (auto simp: in_class_def)
qed simp

lemma no_line_feed_rep:
  "10 \<notin> set rest \<Longrightarrow> q \<in> set (rx_rep (rx_match (Cls True [(10, 10)])) n 0 None (pre, rest, caps)) \<Longrightarrow>
     10 \<notin> set (fst (snd q))"
proof (induction n arbitrary: pre rest)
  case (Suc n)
  then show ?case by (cases rest) (auto simp: in_class_def)
qed simp

lemma dot_to_end:
  assumes "10 \<notin> set rest"
  shows "rx_match (Seq (Grp g (Rep 0 None (Cls True [(10, 10)]))) Eol) (pre, rest, caps) =
    [(rev rest @ pre, [], (g, rest) # caps)]"
proof -
  let ?qs = "rx_rep (rx_match (Cls True [(10, 10)])) (length rest) 0 None (pre, rest, caps)"
  let ?f = "\<lambda>(pre', rest', caps'). (pre', rest', (g, take (length rest - length rest') rest) # caps')"
  have "concat (map (rx_match Eol) (map ?f qs)) = map ?f (filter (\<lambda>q. fst (snd q) = []) qs)"
    if "\<forall>q \<in> set qs. 10 \<notin> set (fst (snd q))" for qs
    using that by (induction qs) auto
  moreover have "\<forall>q \<in> set ?qs. 10 \<notin> set (fst (snd q))" using no_line_feed_rep assms by blast
  ultimately show ?thesis using dot_rep_to_end [OF order.refl assms, of pre caps] by simp
qed

lemmas rx_heads = rx_match.simps(4) [of Bol] rx_match.simps(4) [of "Chr c" for c] rx_match.simps(4) [of "Cls b rs" for b rs]
  rx_match.simps(4) [of "Rep lo hi r" for lo hi r] rx_match.simps(4) [of "Grp 1 r" for r, simplified One_nat_def]
  rx_match.simps(4) [of "Grp 2 r" for r] rx_match.simps(4) [of "Seq r r'" for r r']

lemmas matching_simps = re_match_def re_search_def re_fullmatch_def re_group_def group_of_def in_class_def
  WORKFLOW_STEP_START_def WORKFLOW_STEPS_KEY_def WORKFLOW_MAPPING_KEY_def WORKFLOW_BLOCK_SCALAR_def
  WORKFLOW_BLOCK_SCALAR_VALUE_def scalar_mark_def rx_spaces_def rx_comment_def key_class_def rx_dot_def rx_text_def
  space_ranges_def

lemmas workflow_simps = matching_simps workflow_steps_def splitlines_keepends_def line_break_def Let_def bare_line_def
  py_strip_def lstrip_by_def rstrip_by_def py_space_def indent_of_def block_steps_def parse_workflow_step_def
  lines_from_def yaml_scalar_def ends_with_def starts_with_def contains_def before_first_def line_position_def
  read_field_def blank_def dedent_def

text \<open>A host for examples: nothing exists below \<open>ROOT\<close> but the given entries, and resolving is literal.\<close>

definition bare_host :: "byte list option \<Rightarrow> (ustring \<times> node) list \<Rightarrow> host" where
  "bare_host output entries =
     \<lparr>git_output = output, tree = Directory entries, ROOT = Path [47] [ascii ''r''],
      resolve_path = (\<lambda>p. if list_ex (\<lambda>part. 0 \<in> set part) (path_parts p) then Inl ValueError else Inr p),
      path_exists = (\<lambda>p. Inr False)\<rparr>"

lemmas listing_simps = fsdecode.simps parse_path_def slashes_def is_file_or_link_def is_file_def is_symlink_def
  lstat_def name_too_long_def utf8_encode_def utf8_char_def

subsection \<open>A gate step\<close>

definition gate_in_scalar :: "ustring \<Rightarrow> ustring" where
  "gate_in_scalar start =
     ascii ''steps:'' @ [10] @ start @ [10] @ ascii ''      ./scripts/check'' @ [10] @ ascii ''    if: false'' @ [10]"

lemma gate_in_dash_scalar:
  "workflow_steps (gate_in_scalar (ascii ''  - run: |'')) =
     Inr [\<lparr>step_position = 7, steps_block = 0, step_fields = [(ascii ''run'', ascii ''|'')], with_fields = [],
       run_script = Some (ascii ''./scripts/check'')\<rparr>]"
  by (simp add: gate_in_scalar_def workflow_simps dot_to_end rx_heads ascii_simps del: rx_match.simps(4))

subsection \<open>An accepted repository\<close>

definition accepted_workflow :: ustring where
  "accepted_workflow = concat (map (\<lambda>line. ascii line @ [10])
     [''steps:'', ''  - run: python3 scripts/check_repository.py'',
      ''  - uses: actions/setup-go@924ae3a1cded613372ab5595356fb5720e22ba16'', ''    with:'',
      ''      go-version-file: go.mod'', ''      cache: false'',
      ''  - run: GOTOOLCHAIN=local go env GOVERSION'', ''  - run: ./scripts/check''])"

text \<open>The steps before the gate, and the gate by its fields.\<close>

definition provisioning_steps :: "workflow_step list" where
  "provisioning_steps =
     [\<lparr>step_position = 7, steps_block = 0,
       step_fields = [(ascii ''run'', ascii ''python3 scripts/check_repository.py'')], with_fields = [],
       run_script = Some (ascii ''python3 scripts/check_repository.py'')\<rparr>,
      \<lparr>step_position = 52, steps_block = 0,
       step_fields = [(ascii ''uses'', ascii ''actions/setup-go@924ae3a1cded613372ab5595356fb5720e22ba16''),
         (ascii ''with'', [])],
       with_fields = [(ascii ''go-version-file'', ascii ''go.mod''), (ascii ''cache'', ascii ''false'')],
       run_script = None\<rparr>,
      \<lparr>step_position = 179, steps_block = 0,
       step_fields = [(ascii ''run'', ascii ''GOTOOLCHAIN=local go env GOVERSION'')], with_fields = [],
       run_script = Some (ascii ''GOTOOLCHAIN=local go env GOVERSION'')\<rparr>]"

definition gate_step :: "(ustring \<times> ustring) list \<Rightarrow> workflow_step" where
  "gate_step kvs = \<lparr>step_position = 223, steps_block = 0, step_fields = kvs, with_fields = [],
     run_script = Some (ascii ''./scripts/check'')\<rparr>"

lemma accepted_workflow_steps:
  "workflow_steps accepted_workflow =
     Inr (provisioning_steps @ [gate_step [(ascii ''run'', ascii ''./scripts/check'')]])"
  by (simp add: accepted_workflow_def provisioning_steps_def gate_step_def dot_to_end rx_heads workflow_simps
      ascii_simps del: rx_match.simps(4))

definition empty_files :: "string list \<Rightarrow> (ustring \<times> node) list" where
  "empty_files names = map (\<lambda>name. (ascii name, RegularFile (Some []))) names"

definition folder :: "string \<Rightarrow> (ustring \<times> node) list \<Rightarrow> ustring \<times> node" where
  "folder name entries = (ascii name, Directory entries)"

definition readme_text :: ustring where
  "readme_text = ascii ''[a](AGENTS.md)'' @ [10]"

definition accepted_tree :: node where
  "accepted_tree = Directory
     (empty_files [''.editorconfig'', ''.gitattributes'', ''.gitignore'', ''AGENTS.md''] @
      [(ascii ''README.md'', RegularFile (Some (utf8_encode readme_text))),
       (ascii ''go.mod'', RegularFile (Some EXPECTED_GO_MOD)),
       folder ''.github'' [folder ''workflows'' [(ascii ''check.yml'',
         RegularFile (Some (utf8_encode accepted_workflow)))]],
       folder ''scripts'' (empty_files [''check'', ''check_contract.py'', ''check_repository.py'']),
       folder ''tests'' (empty_files [''test_check_contract.py'', ''test_check_repository.py'']),
       folder ''control-plane'' (empty_files [''README.md'']),
       folder ''fleet-simulator'' (empty_files [''README.md'']),
       folder ''latency-lab'' (empty_files [''README.md'']),
       folder ''model-operator'' (empty_files [''README.md'']),
       folder ''docs'' (empty_files [''project-brief.md'', ''architecture.md'', ''pr-review-checklist.md'',
           ''roadmap.md'', ''troubleshooting.md''] @
         [folder ''adr'' (empty_files [''README.md'']),
          folder ''lessons'' (empty_files [''AGENTS.md'', ''README.md''])]),
       folder ''user-stories'' (empty_files [''AGENTS.md'', ''README.md'']),
       folder ''gateway'' (empty_files [''README.md'', ''AGENTS.md''] @
         [folder ''contracts'' [folder ''model-turn'' [folder ''v1''
            (empty_files [''README.md'', ''harness-mapping.md''] @
             [folder ''schema'' (empty_files [''request.schema.json'', ''success.schema.json'', ''failure.schema.json'']),
              folder ''fixtures'' (empty_files [''cases.json''])])]],
          folder ''cmd'' [folder ''fastgate'' (empty_files [''main.go''])],
          folder ''internal'' [folder ''service'' (empty_files [''service.go'', ''service_test.go''])]])])"

definition accepted_host :: host where
  "accepted_host =
     \<lparr>git_output = Some (null_separated [[82, 69, 65, 68, 77, 69, 46, 109, 100]]), tree = accepted_tree,
      ROOT = Path [47] [ascii ''r''], resolve_path = (\<lambda>p. Inr p), path_exists = (\<lambda>p. Inr (p = Path [47] [ascii ''r'', ascii ''AGENTS.md'']))\<rparr>"

lemmas lookup_simps = regular_at_def lstat_def name_too_long_def utf8_encode_def utf8_char_def parse_path_def slashes_def
  empty_files_def folder_def

lemma accepted_required: "required_sound accepted_tree"
  by (simp add: required_sound_def REQUIRED_PATHS_def accepted_tree_def lookup_simps ascii_simps)

lemma accepted_environment: "environment_sound accepted_host"
proof -
  have "environment_files accepted_host = []"
    by (simp add: environment_files_def accepted_host_def accepted_tree_def empty_files_def folder_def
        is_dir_node_def is_environment_file_def file_name_of_def starts_with_def ends_with_def IGNORED_PARTS_def
        EXPECTED_GO_MOD_def ascii_simps)
  then have "check_secret_filenames (environment_files accepted_host) [] = []"
    by (simp add: check_secret_filenames_def)
  with judges_silent [OF environment_judges, of accepted_host "[]"] show ?thesis by simp
qed

lemma accepted_go_layout: "go_layout_sound accepted_tree [relative_path [''README.md'']]"
  by (simp add: go_layout_sound_def accepted_tree_def lookup_simps root_manifest_def relative_path_def
      file_name_of_def FORBIDDEN_GO_METADATA_def ascii_simps)

lemma accepted_policy:
  assumes "\<not> dict_has kvs (ascii ''if'')" and "dict_get kvs (ascii ''uses'') = None"
  shows "go_policy (provisioning_steps @ [gate_step kvs])"
proof -
  have "commit_sha (ascii ''924ae3a1cded613372ab5595356fb5720e22ba16'')" by (simp add: commit_sha_def ascii_simps)
  then obtain m where "re_fullmatch IMMUTABLE_ACTION_REF (ascii ''924ae3a1cded613372ab5595356fb5720e22ba16'') = Some m"
    using commit_sha_iff by blast
  moreover have "\<not> dict_has kvs [105, 102]" "dict_get kvs [117, 115, 101, 115] = None"
    using assms by (simp_all add: ascii_simps)
  ultimately have "check_go_steps (provisioning_steps @ [gate_step kvs]) [] = []"
    by (simp add: provisioning_steps_def gate_step_def check_go_steps_def check_setup_step_def setup_uses_def
        run_steps_def unconditional_def dict_has_def EXPECTED_GOVERSION_SCRIPTS_def setup_prefix_def starts_with_def
        only_position_def report_if_def perform_def py_lower_def Let_def ascii_simps)
  with judges_silent [OF check_go_steps_judges, of "provisioning_steps @ [gate_step kvs]" "[]"]
  show ?thesis by simp
qed

lemma accepted_ci: "ci_sound accepted_tree"
proof -
  have "file_contents accepted_tree (path_parts workflow_path) = Some (utf8_encode accepted_workflow)"
    by (simp add: file_contents_def accepted_tree_def lookup_simps workflow_path_def relative_path_def ascii_simps)
  moreover have "utf8_decode (utf8_encode accepted_workflow) = Some accepted_workflow"
    by (rule utf8_decode_encode) (simp add: scalar_def accepted_workflow_def ascii_simps)
  moreover have "universal_newlines accepted_workflow = accepted_workflow"
    by (simp add: accepted_workflow_def ascii_simps)
  ultimately have "read_text accepted_tree workflow_path = Inr accepted_workflow" by (simp add: read_text_def)
  moreover have "go_policy (provisioning_steps @ [gate_step [(ascii ''run'', ascii ''./scripts/check'')]])"
    by (rule accepted_policy) (simp_all add: dict_has_def ascii_simps)
  ultimately show ?thesis using accepted_workflow_steps by (simp add: ci_sound_def)
qed

text \<open>The one link of the listed file leads to a file below \<open>ROOT\<close>.\<close>

lemma readme_lines: "splitlines readme_text = [ascii ''[a](AGENTS.md)'']"
  by (simp add: readme_text_def splitlines_def line_break_def ascii_simps)

lemma readme_line: "line_targets (ascii ''[a](AGENTS.md)'') = [ascii ''AGENTS.md'']"
  by (simp add: line_targets_def finditer_def MARKDOWN_LINK_def finditer_from.simps in_class_def re_group_def
      py_strip_def lstrip_by_def rstrip_by_def py_space_def space_ranges_def ascii_simps)

lemma readme_links:
  "open_line (splitlines readme_text) i \<longleftrightarrow> i = 0"
  "line_targets (splitlines readme_text ! 0) = [ascii ''AGENTS.md'']"
proof -
  have "\<not> fence_line (ascii ''[a](AGENTS.md)'')"
    by (simp add: fence_line_def starts_with_def lstrip_by_def py_space_def space_ranges_def in_class_def ascii_simps)
  then show "open_line (splitlines readme_text) i \<longleftrightarrow> i = 0"
    by (cases i) (simp_all add: readme_lines open_line_def)
  show "line_targets (splitlines readme_text ! 0) = [ascii ''AGENTS.md'']"
    unfolding readme_lines by (simp only: nth_Cons_0 readme_line)
qed

lemma readme_target:
  "markdown_destination (ascii ''AGENTS.md'') = ascii ''AGENTS.md''"
  "unquote (before_first [63] (before_first [35] (ascii ''AGENTS.md''))) = ascii ''AGENTS.md''"
  "\<not> ignored_target (ascii ''AGENTS.md'')"
  "join_path (join_path (ROOT accepted_host) (parent_path (relative_path [''README.md'']))) (parse_path (ascii ''AGENTS.md'')) =
     parse_path (ascii ''/r/AGENTS.md'')"
  by (simp_all add: markdown_destination_def py_strip_def lstrip_by_def rstrip_by_def py_space_def space_ranges_def
      in_class_def starts_with_def before_first_def unquote.simps utf8_replace.simps Let_def unat_byte_of
      ignored_target_def join_path_def parent_path_def relative_path_def accepted_host_def is_absolute_def
      parse_path_def slashes_def ascii_simps)

lemma readme_contents:
  "file_contents accepted_tree (path_parts (relative_path [''README.md''])) = Some (utf8_encode readme_text)"
  by (simp add: file_contents_def accepted_tree_def lookup_simps relative_path_def ascii_simps)

lemma readme_scalars: "list_all scalar readme_text"
  by (simp add: scalar_def readme_text_def ascii_simps)

lemma readme_read: "read_text (tree accepted_host) (relative_path [''README.md'']) = Inr readme_text"
proof -
  have "universal_newlines readme_text = readme_text" by (simp add: readme_text_def ascii_simps)
  then show ?thesis using utf8_decode_encode [OF readme_scalars] readme_contents
    by (simp add: read_text_def accepted_host_def)
qed

lemma accepted_readme: "file_sound accepted_host (relative_path [''README.md''])"
proof -
  have "clean_text readme_text"
    by (simp add: clean_text_def no_blank_ends_def blank_def line_break_def readme_text_def ascii_simps)
  with readme_scalars have "clean_file (Some (utf8_encode readme_text))" unfolding clean_file_def by blast
  moreover have "links_on (splitlines readme_text) = {(1, ascii ''AGENTS.md'')}"
    by (auto simp: links_on_def readme_links)
  moreover have "link_sound accepted_host (relative_path [''README.md'']) (ascii ''AGENTS.md'')"
    unfolding link_sound_def readme_target Let_def
    by (simp add: accepted_host_def parse_path_def slashes_def is_under_def ascii_simps)
  moreover have "tree accepted_host = accepted_tree" by (simp add: accepted_host_def)
  ultimately show ?thesis using readme_read by (simp add: file_sound_def links_sound_def readme_contents)
qed

lemma accepted_units:
  "glob_units accepted_tree (relative_path [''user-stories'']) = []"
  "glob_units accepted_tree (relative_path [''docs'', ''lessons'']) = []"
  by (simp_all add: glob_units_def accepted_tree_def lookup_simps relative_path_def starts_with_def ascii_simps)

lemma accepted_metadata: "metadata_sound nd accepted_tree"
proof -
  have "stories nd accepted_tree = []" "lessons nd accepted_tree = []"
    by (simp_all add: stories_def lessons_def files_of_units_def unit_files_def List.map_filter_simps accepted_units)
  then show ?thesis by (simp add: metadata_sound_def)
qed

lemma accepted_files: "repository_files accepted_host = Inr (Inr [relative_path [''README.md'']])"
proof -
  let ?name = "[82, 69, 65, 68, 77, 69, 46, 109, 100] :: byte list"
  have "parse_path (fsdecode ?name) = relative_path [''README.md'']"
    by (simp add: fsdecode.simps parse_path_def slashes_def relative_path_def ascii_simps)
  moreover have "is_file_or_link accepted_tree (relative_path [''README.md'']) = Inr True"
    by (simp add: is_file_or_link_def is_file_def accepted_tree_def lookup_simps relative_path_def ascii_simps)
  moreover have "filter (\<lambda>raw. raw \<noteq> []) (split_bytes (null_separated [?name])) = [?name]"
    by (simp add: split_null_separated)
  ultimately show ?thesis by (simp add: repository_files_def accepted_host_def)
qed

lemma accepted_clean: "clean_repository nd accepted_host [relative_path [''README.md'']]"
proof -
  have "tree accepted_host = accepted_tree" by (simp add: accepted_host_def)
  then show ?thesis
    using accepted_required accepted_environment accepted_go_layout accepted_ci accepted_readme accepted_metadata
    by (simp add: clean_repository_def)
qed

subsection \<open>A listed link to an environment file\<close>

definition leaking_host :: host where
  "leaking_host = (bare_host (Some (null_separated [[97]]))
     [(ascii ''.env'', RegularFile (Some (utf8_encode [88, 32, 10]))),
      ([97], Link (Some (RegularFile (Some (utf8_encode [88, 32, 10])))))])\<lparr>resolve_path := Inr\<rparr>"

lemma leaking_host_git: "git_output leaking_host = Some (null_separated [[97]])"
  by (simp add: leaking_host_def bare_host_def)

lemma leaking_host_link:
  "lstat (tree leaking_host) (path_parts (Path [] [[97]])) =
     Inr (Some (Link (Some (RegularFile (Some (utf8_encode [88, 32, 10]))))))"
  by (simp add: leaking_host_def bare_host_def lstat_def name_too_long_def utf8_encode_def utf8_char_def ascii_simps)

lemma leaking_host_returns: "\<exists>r. main_repository nd leaking_host = Inr r"
proof (rule main_repository_returns [OF leaking_host_git])
  have name: "parse_path (fsdecode [97]) = Path [] [[97]]" by (simp add: listing_simps)
  have "filter (\<lambda>raw. raw \<noteq> []) (split_bytes (null_separated [[97]])) = [[97]]" by (simp add: split_null_separated)
  then have listed: "listed_paths (null_separated [[97]]) = [Path [] [[97]]]" by (simp add: listed_paths_def name)
  show "short_parts p" if "p \<in> set (listed_paths (null_separated [[97]]))" for p
    using that unfolding listed by (simp add: short_parts_def name_too_long_def utf8_encode_def utf8_char_def)
  show "readable (tree leaking_host) p" if "p \<in> set (listed_paths (null_separated [[97]]))" for p
    using that leaking_host_link unfolding listed by (simp add: readable_def file_contents_def)
  have "unit_candidates (tree leaking_host) = []"
    by (simp add: unit_candidates_def glob_units_def leaking_host_def bare_host_def lookup_simps relative_path_def
        starts_with_def ascii_simps)
  then show "readable (tree leaking_host) p" if "p \<in> set (unit_candidates (tree leaking_host))" for p
    using that by simp
qed (auto simp: leaking_host_def bare_host_def)

end
