(* ===== verification/RepoHidden.thy ===== *)
theory RepoHidden
  imports RepoExamples
begin

text \<open>
  The fields of a workflow step whose dash line opens a block scalar: \<open>workflow_steps\<close> takes every
  deeper line for a line of the scalar, so no further field of the step is read.
\<close>

subsection \<open>Groups and columns\<close>

fun groups :: "rx \<Rightarrow> nat set" where
  "groups (Seq r s) = groups r \<union> groups s"
| "groups (Alt r s) = groups r \<union> groups s"
| "groups (Rep lo hi r) = groups r"
| "groups (Grp g r) = insert g (groups r)"
| "groups r = {}"

definition captured :: "nat set \<Rightarrow> (nat \<times> ustring) list \<Rightarrow> (nat \<times> ustring) list \<Rightarrow> bool" where
  "captured G caps caps' \<longleftrightarrow> (\<exists>new. caps' = new @ caps \<and> fst ` set new \<subseteq> G)"

lemma captured_refl: "captured G caps caps"
  by (simp add: captured_def)

lemma captured_trans:
  assumes "captured G a b" and "captured H b c"
  shows "captured (G \<union> H) a c"
proof -
  obtain new new' where "b = new @ a" "fst ` set new \<subseteq> G" "c = new' @ b" "fst ` set new' \<subseteq> H"
    using assms unfolding captured_def by blast
  then show ?thesis unfolding captured_def by (intro exI [of _ "new' @ new"]) auto
qed

lemma captured_mono: "captured G a b \<Longrightarrow> G \<subseteq> H \<Longrightarrow> captured H a b"
  unfolding captured_def by blast

lemma rx_rep_captured:
  assumes "\<And>p q. q \<in> set (step p) \<Longrightarrow> captured G (snd (snd p)) (snd (snd q))"
  shows "q \<in> set (rx_rep step n lo hi p) \<Longrightarrow> captured G (snd (snd p)) (snd (snd q))"
proof (induction n arbitrary: lo hi p)
  case 0
  then show ?case by (auto simp: captured_refl split: if_splits)
next
  case (Suc n)
  from Suc.prems consider "q = p"
    | p' lo' hi' where "p' \<in> set (step p)" "q \<in> set (rx_rep step n lo' hi' p')"
    by (auto split: if_splits)
  then show ?case
  proof cases
    case 1
    then show ?thesis by (simp add: captured_refl)
  next
    case 2
    from captured_trans [OF assms [OF 2(1)] Suc.IH [OF 2(2)]] show ?thesis by simp
  qed
qed

lemma rx_match_captured: "q \<in> set (rx_match r p) \<Longrightarrow> captured (groups r) (snd (snd p)) (snd (snd q))"
proof (induction r arbitrary: p q)
  case (Seq r s)
  then obtain p' where "p' \<in> set (rx_match r p)" "q \<in> set (rx_match s p')" by auto
  from captured_trans [OF Seq.IH(1) [OF this(1)] Seq.IH(2) [OF this(2)]] show ?case by simp
next
  case (Alt r s)
  from Alt.prems consider "q \<in> set (rx_match r p)" | "q \<in> set (rx_match s p)" by auto
  then show ?case
  proof cases
    case 1
    from captured_mono [OF Alt.IH(1) [OF this]] show ?thesis by simp
  next
    case 2
    from captured_mono [OF Alt.IH(2) [OF this]] show ?thesis by simp
  qed
next
  case (Rep lo hi r)
  then show ?case using rx_rep_captured [of "rx_match r" "groups r"] by simp
next
  case (Grp g r)
  obtain pre s caps where p: "p = (pre, s, caps)" by (cases p)
  with Grp.prems obtain pre' s' caps' v where q: "(pre', s', caps') \<in> set (rx_match r p)" "q = (pre', s', (g, v) # caps')"
    by auto
  from Grp.IH [OF q(1)] obtain new where "caps' = new @ caps" "fst ` set new \<subseteq> groups r"
    by (auto simp: captured_def p)
  then show ?case unfolding captured_def q(2) p by (intro exI [of _ "(g, v) # new"]) auto
next
  case (Chr c)
  then show ?case by (cases p) (auto simp: captured_refl split: list.splits if_splits)
next
  case (Cls b rs)
  then show ?case by (cases p) (auto simp: captured_refl split: list.splits if_splits)
qed (auto simp: captured_refl split: if_splits prod.splits)

text \<open>The indentation of an item is that of its line: the dash is its first character but spaces.\<close>

lemma item_line_shape:
  assumes "item_indent line = Some d"
  shows "\<not> skippable line \<and> (\<exists>rest. bare_line line = replicate d 32 @ 45 # rest)"
proof -
  obtain m where m: "re_match WORKFLOW_STEP_START (bare_line line) = Some m" "d = length (group_of m 1)"
      "\<not> skippable line"
    using assms by (auto simp: item_indent_def split: if_splits)
  let ?line = "bare_line line"
  let ?tail = "[Rep 1 None (Cls False space_ranges), Grp 2 (Rep 1 None key_class), Chr 58, rx_spaces,
      Grp 3 (Rep 0 None rx_dot), Eol]"
  have "m \<in> set (rx_match WORKFLOW_STEP_START ([], ?line, []))"
    using m(1) by (auto simp: re_match_def split: list.splits)
  then have "m \<in> set (rx_match (rx_seq (Bol # Grp 1 (Rep 0 None (Chr 32)) # Chr 45 # ?tail)) ([], ?line, []))"
    by (simp only: WORKFLOW_STEP_START_def)
  then have "m \<in> set (rx_match (rx_seq (Grp 1 (Rep 0 None (Chr 32)) # Chr 45 # ?tail)) ([], ?line, []))"
    using rx_seq_step [of m Bol "Grp 1 (Rep 0 None (Chr 32))" "Chr 45 # ?tail" "([], ?line, [])"] by auto
  then obtain p1 s1 c1 where g1: "(p1, s1, c1) \<in> set (rx_match (Grp 1 (Rep 0 None (Chr 32))) ([], ?line, []))"
      and rest: "m \<in> set (rx_match (rx_seq (Chr 45 # ?tail)) (p1, s1, c1))"
    using rx_seq_step by blast
  obtain caps where spaces: "(p1, s1, caps) \<in> set (rx_match (Rep 0 None (Chr 32)) ([], ?line, []))"
      and c1: "c1 = (1, take (length ?line - length s1) ?line) # caps"
    using rx_group_step [OF g1] by blast
  obtain p2 s2 c2 where dash: "(p2, s2, c2) \<in> set (rx_match (Chr 45) (p1, s1, c1))"
      and tail: "m \<in> set (rx_match (rx_seq ?tail) (p2, s2, c2))"
    using rx_seq_step [OF rest] by blast
  have s1: "s1 = 45 # s2" "c2 = c1" using rx_chr_step [OF dash] by simp_all
  obtain u where u: "u \<in> rx_lang (Rep 0 None (Chr 32))" "?line = u @ s1"
    using plain_match [OF _ spaces] by auto
  have "lang_pow {[32]} k = {replicate k (32 :: nat)}" for k by (induction k) auto
  then have "u = replicate (length u) 32" using u(1) by auto
  moreover have "d = length u"
  proof -
    have "groups (rx_seq ?tail) = {2, 3}" by (simp add: rx_spaces_def key_class_def rx_dot_def insert_commute)
    then obtain new where "snd (snd m) = new @ c2" "fst ` set new \<subseteq> {2, 3}"
      using rx_match_captured [OF tail] by (auto simp: captured_def)
    moreover from this(2) have "map_of new 1 = None" by (auto simp: map_of_eq_None_iff)
    ultimately have "map_of (snd (snd m)) 1 = map_of c2 1" by (simp add: map_add_def)
    then have "group_of m 1 = u" using u(2) by (simp add: group_of_def re_group_def s1(2) c1)
    then show ?thesis by (simp add: m(2))
  qed
  ultimately show ?thesis using m(3) u(2) s1(1) by metis
qed

lemma item_indent_column:
  assumes "item_indent line = Some d"
  shows "indent_of (bare_line line) = d"
proof -
  obtain rest where "bare_line line = replicate d 32 @ 45 # rest" using item_line_shape [OF assms] by blast
  moreover have "dropWhile (\<lambda>c. c = 32) (replicate d 32 @ 45 # rest) = 45 # rest" by (induction d) simp_all
  ultimately show ?thesis by (simp add: indent_of_def lstrip_by_def)
qed

subsection \<open>Where a step comes from\<close>

lemma mapR_member: "mapR f xs = Inr ys \<Longrightarrow> y \<in> set ys \<Longrightarrow> \<exists>x \<in> set xs. f x = Inr y"
  by (induction xs arbitrary: ys) (auto simp: bindR_eq_Inr)

lemma foldR_collected:
  assumes "\<And>x s t. f x s = Inr t \<Longrightarrow> \<exists>found. t = s @ found \<and> (\<forall>y \<in> set found. P x y)"
  shows "foldR f xs s = Inr t \<Longrightarrow> y \<in> set t \<Longrightarrow> y \<in> set s \<or> (\<exists>x \<in> set xs. P x y)"
proof (induction xs arbitrary: s)
  case (Cons x xs)
  then obtain s' where s': "f x s = Inr s'" "foldR f xs s' = Inr t" by (auto simp: bindR_eq_Inr)
  from Cons.IH [OF s'(2) Cons.prems(2)] assms [OF s'(1)] show ?case by auto
qed simp

text \<open>The end of an item is no later than the next item or the end of the block.\<close>

lemma next_start:
  fixes e :: nat
  assumes "sorted_wrt (<) ns" and "\<forall>n \<in> set ns. n < e" and "(a, s) \<in> set (zip ns (tl ns @ [e]))"
  shows "s \<le> e \<and> (\<forall>m \<in> set ns. a < m \<longrightarrow> s \<le> m)"
  using assms
proof (induction ns)
  case (Cons n ns)
  show ?case
  proof (cases ns)
    case Nil
    with Cons.prems show ?thesis by simp
  next
    case (Cons n' ns')
    from Cons.prems(3) Cons consider "a = n" "s = n'" | "(a, s) \<in> set (zip ns (tl ns @ [e]))" by auto
    then show ?thesis
    proof cases
      case 1
      with Cons Cons.prems(1,2) show ?thesis by (auto intro: less_imp_le)
    next
      case 2
      then have "a \<in> set ns" by (rule set_zip_leftD)
      then have "n < a" using Cons.prems(1) by simp
      with Cons.IH [OF _ _ 2] Cons.prems(1,2) show ?thesis by auto
    qed
  qed
qed simp

definition step_from :: "ustring list \<Rightarrow> ustring list \<Rightarrow> nat \<Rightarrow> workflow_step \<Rightarrow> bool" where
  "step_from raws ls i step \<longleftrightarrow>
     (\<exists>start stop. start \<in> set (block_items ls i) \<and> stop \<le> length ls \<and>
        (\<forall>m \<in> set (block_items ls i). start < m \<longrightarrow> stop \<le> m) \<and>
        parse_workflow_step raws ls (line_position raws start) (line_position raws i) start stop = Inr step)"

lemma block_steps_from:
  assumes "i < length ls" and "block_steps raws ls (i, ls ! i) steps = Inr t"
  shows "\<exists>found. t = steps @ found \<and> (\<forall>step \<in> set found. step_from raws ls i step)"
proof (cases "re_match WORKFLOW_STEPS_KEY (bare_line (ls ! i))")
  case None
  with assms(2) show ?thesis by (simp add: block_steps_def)
next
  case (Some m)
  let ?b = "length (group_of m 1)" and ?items = "block_items ls i"
  let ?stop = "Suc i + length (block_lines ?b (drop (Suc i) ls))"
  let ?parse = "\<lambda>(start, stop). parse_workflow_step raws ls (line_position raws start) (line_position raws i) start stop"
  have items: "scan_steps ?b None (i + 1) (drop (i + 1) ls) = (?items, ?stop)"
    using Some by (simp add: scan_steps_exact block_items_def steps_indent_def)
  then obtain found where found: "mapR ?parse (zip ?items (tl ?items @ [?stop])) = Inr found" "t = steps @ found"
    using assms(2) Some by (auto simp: block_steps_def bindR_eq_Inr)
  have bound: "?stop \<le> length ls"
    using assms(1) length_takeWhile_le [of "block_line ?b" "drop (Suc i) ls"] by (simp add: block_lines_def)
  have before: "\<forall>n \<in> set ?items. n < ?stop"
    using Some by (auto simp: block_items_def steps_indent_def item_numbers_member)
  have "step_from raws ls i step" if member: "step \<in> set found" for step
  proof -
    obtain start stop where pair: "(start, stop) \<in> set (zip ?items (tl ?items @ [?stop]))"
        "?parse (start, stop) = Inr step"
      using mapR_member [OF found(1) member] by auto
    have "start \<in> set ?items" using pair(1) by (rule set_zip_leftD)
    moreover have "stop \<le> ?stop \<and> (\<forall>m \<in> set ?items. start < m \<longrightarrow> stop \<le> m)"
      by (rule next_start [OF sorted_block_items before pair(1)])
    moreover from this bound have "stop \<le> length ls" by linarith
    ultimately show ?thesis using pair(2) unfolding step_from_def prod.case by blast
  qed
  with found(2) show ?thesis by blast
qed

lemma workflow_step_from:
  assumes "workflow_steps w = Inr steps" and "step \<in> set steps"
  shows "\<exists>i < length (splitlines_keepends w).
    step_from (splitlines_keepends w) (structure_of None (splitlines_keepends w)) i step"
proof -
  let ?raws = "splitlines_keepends w"
  let ?ls = "structure_of None ?raws"
  let ?P = "\<lambda>x step. fst x < length ?ls \<longrightarrow> snd x = ?ls ! fst x \<longrightarrow> step_from ?raws ?ls (fst x) step"
  have collected: "\<exists>found. t = s @ found \<and> (\<forall>y \<in> set found. ?P x y)" if "block_steps ?raws ?ls x s = Inr t" for x s t
  proof (cases "fst x < length ?ls \<and> snd x = ?ls ! fst x")
    case True
    then show ?thesis using block_steps_from [of "fst x" ?ls ?raws s t] that by (metis prod.collapse)
  next
    case False
    obtain index line where "x = (index, line)" by (cases x)
    then have "\<exists>found. t = s @ found"
      using that by (auto simp: block_steps_def bindR_eq_Inr split: option.splits prod.splits)
    with False show ?thesis by blast
  qed
  have "foldR (block_steps ?raws ?ls) (enumerate 0 ?ls) [] = Inr steps"
    using assms(1) by (simp add: workflow_steps_def Let_def)
  from foldR_collected [where P = ?P, OF collected this assms(2)] obtain x where
    x: "x \<in> set (enumerate 0 ?ls)" "?P x step" by auto
  then have "fst x < length ?ls" "snd x = ?ls ! fst x" by (auto simp: in_set_enumerate_eq)
  with x(2) show ?thesis by auto
qed

subsection \<open>Hidden fields\<close>

lemma no_mapping_key: "re_match WORKFLOW_MAPPING_KEY [] = None"
  by (simp add: re_match_def WORKFLOW_MAPPING_KEY_def)

lemma blank_bare_line: "bare_line (blanked raw) = []"
  by (auto simp: blanked_def bare_line_def rstrip_by_def)

lemma read_fields_blanked:
  "\<forall>(k, line) \<in> set xs. bare_line line = [] \<Longrightarrow> fold (read_field field_indent) xs state = state"
proof (induction xs arbitrary: state)
  case (Cons x xs)
  obtain k line where x: "x = (k, line)" by (cases x)
  obtain found field_lines where state: "state = (found, field_lines)" by (cases state)
  have "read_field field_indent x state = state"
    using Cons.prems by (simp add: x state read_field_def no_mapping_key)
  with Cons show ?case by simp
qed simp

lemma read_with_blanked: "\<forall>line \<in> set ls. bare_line line = [] \<Longrightarrow> read_with field_indent known ls found = found"
  by (induction ls) (simp_all add: py_strip_def lstrip_by_def rstrip_by_def)

lemma lines_from_member:
  "(k, line) \<in> set (lines_from start stop xs) \<Longrightarrow> start \<le> k \<and> k < stop \<and> k < length xs \<and> line = xs ! k"
proof -
  assume "(k, line) \<in> set (lines_from start stop xs)"
  then have k: "start \<le> k" "k < min (length xs) stop - start + start" "line = drop start (take stop xs) ! (k - start)"
    by (auto simp: lines_from_def in_set_enumerate_eq)
  then have "k < min (length xs) stop" by linarith
  with k show ?thesis by (simp add: nth_drop)
qed

lemma parse_blanked:
  assumes "parse_workflow_step raws ls offset block start stop = Inr step"
    and "\<forall>k. start < k \<longrightarrow> k < stop \<longrightarrow> k < length ls \<longrightarrow> bare_line (ls ! k) = []"
  shows "\<exists>key scalar_value. step_fields step = [(key, scalar_value)] \<and> with_fields step = []"
proof -
  obtain m where m: "re_match WORKFLOW_STEP_START (bare_line (ls ! start)) = Some m"
    using assms(1) by (auto simp: parse_workflow_step_def split: option.splits)
  have lines: "\<forall>(k, line) \<in> set (lines_from (start + 1) stop ls). bare_line line = []"
    using assms(2) by (auto dest!: lines_from_member)
  then have below: "\<forall>line \<in> set (map snd (lines_from (start + 1) stop ls)). bare_line line = []" by auto
  let ?key = "group_of m 2" and ?scalar = "yaml_scalar (group_of m 3)"
  have "step_fields step = [(?key, ?scalar)] \<and> with_fields step =
      (case dict_get [(?key, start)] (ascii ''with'') of None \<Rightarrow> []
       | Some with_line \<Rightarrow> read_with (length (group_of m 1) + 2) None
           (map snd (lines_from (with_line + 1) stop ls)) [])"
    using assms(1) unfolding parse_workflow_step_def m option.case Let_def read_fields_blanked [OF lines] prod.case
      sum.inject by auto
  moreover have "read_with (length (group_of m 1) + 2) None (map snd (lines_from (start + 1) stop ls)) [] = []"
    using below by (rule read_with_blanked)
  ultimately show ?thesis by (auto split: if_splits)
qed

text \<open>The lines between the dash line and the line \<open>m\<close> that ends the item are deeper than the dash.\<close>

definition step_extent :: "ustring list \<Rightarrow> nat \<Rightarrow> nat \<Rightarrow> bool" where
  "step_extent raws n m \<longleftrightarrow> n < m \<and> (\<forall>k \<in> {n<..<m}. deeper (indent_of (bare_line (raws ! n))) (raws ! k)) \<and>
     (m = length raws \<or> m < length raws \<and> item_indent (raws ! m) = item_indent (raws ! n))"

lemma between_hidden:
  assumes "opens_scalar (raws ! n)" and "step_extent raws n m" and "k \<in> {n<..<m}"
  shows "in_scalar raws k"
  using assms unfolding in_scalar_def step_extent_def by fastforce

lemma next_item_visible:
  assumes "step_extent raws n m" and "opens_scalar (raws ! n)" and "m < length raws" and "\<not> in_scalar raws n"
    and "item_indent (raws ! n) = Some d"
  shows "\<not> in_scalar raws m"
proof
  assume "in_scalar raws m"
  then obtain p where p: "p < m" "opens_scalar (raws ! p)"
      "\<forall>k \<in> {p<..m}. deeper (indent_of (bare_line (raws ! p))) (raws ! k)"
    unfolding in_scalar_def by blast
  have m: "item_indent (raws ! m) = Some d" using assms(1,3,5) by (simp add: step_extent_def)
  have column: "indent_of (bare_line (raws ! m)) = d" "indent_of (bare_line (raws ! n)) = d"
    using m assms(5) by (simp_all add: item_indent_column)
  have "\<not> skippable (raws ! m)" using item_line_shape [OF m] by blast
  then have "py_strip (bare_line (raws ! m)) \<noteq> []" by (simp add: skippable_def)
  with p(1,3) column(1) have inner: "indent_of (bare_line (raws ! p)) < d" by (auto simp: deeper_def)
  consider "p < n" | "p = n" | "n < p" by linarith
  then show False
  proof cases
    case 1
    with p assms(1) have "in_scalar raws n" unfolding in_scalar_def step_extent_def by (intro exI [of _ p]) auto
    with assms(4) show ?thesis by simp
  next
    case 2
    with inner column show ?thesis by simp
  next
    case 3
    with p(1) assms(1) have "deeper d (raws ! p)" by (auto simp: step_extent_def column(2))
    with opens_scalar_not_blank [OF p(2)] inner show ?thesis by (simp add: deeper_def)
  qed
qed

lemma next_item:
  assumes "item_of (structure_of None raws) i n" and "opens_scalar (raws ! n)" and "step_extent raws n m"
    and "m < length raws"
  shows "item_of (structure_of None raws) i m"
proof -
  have n: "step_line raws i n" using assms(1) by (simp add: item_of_structure)
  then obtain b d f where line: "steps_indent (raws ! i) = Some b" "item_indent (raws ! n) = Some d"
      "\<forall>k \<in> {i<..n}. in_scalar raws k \<or> block_line b (raws ! k)" "f \<in> {i<..n}" "\<not> in_scalar raws f"
      "item_indent (raws ! f) = Some d" "\<forall>k \<in> {i<..<f}. in_scalar raws k \<or> item_indent (raws ! k) = None"
      "\<not> in_scalar raws n" "\<not> in_scalar raws i" "i < n"
    unfolding step_line_def by blast
  have item: "item_indent (raws ! m) = Some d" "n < m"
    using assms(3,4) line(2) by (simp_all add: step_extent_def)
  have "\<not> skippable (raws ! n)" using item_line_shape [OF line(2)] by blast
  then have "b < d" using line(3,8,10) item_indent_column [OF line(2)] by (auto simp: block_line_def)
  then have end_line: "block_line b (raws ! m)" using item_indent_column [OF item(1)] by (simp add: block_line_def)
  have "in_scalar raws k \<or> block_line b (raws ! k)" if "k \<in> {i<..m}" for k
  proof -
    from that consider "k \<in> {i<..n}" | "k \<in> {n<..<m}" | "k = m" by force
    then show ?thesis using line(3) between_hidden [OF assms(2,3)] end_line by cases auto
  qed
  moreover have "\<not> in_scalar raws m" using next_item_visible [OF assms(3,2,4) line(8,2)] .
  ultimately have "step_line raws i m"
    unfolding step_line_def using assms(4) item line
    by (intro conjI exI [of _ b] exI [of _ d] exI [of _ f]) auto
  then show ?thesis by (simp add: item_of_structure)
qed

lemma dash_scalar_fields:
  assumes "workflow_steps w = Inr steps" and "step \<in> set steps"
    and "step_position step = line_position (splitlines_keepends w) n" and "n < length (splitlines_keepends w)"
    and "opens_scalar (splitlines_keepends w ! n)" and "step_extent (splitlines_keepends w) n m"
  shows "\<exists>key scalar_value. step_fields step = [(key, scalar_value)] \<and> with_fields step = []"
proof -
  let ?raws = "splitlines_keepends w"
  let ?ls = "structure_of None ?raws"
  have not_Nil: "\<forall>raw \<in> set ?raws. raw \<noteq> []" using splitlines_keepends_not_Nil by blast
  obtain i where i: "i < length ?ls" "step_from ?raws ?ls i step"
    using workflow_step_from [OF assms(1,2)] by auto
  then obtain start stop where step: "start \<in> set (block_items ?ls i)" "stop \<le> length ?ls"
      "\<forall>m \<in> set (block_items ?ls i). start < m \<longrightarrow> stop \<le> m"
      "parse_workflow_step ?raws ?ls (line_position ?raws start) (line_position ?raws i) start stop = Inr step"
    unfolding step_from_def by blast
  have "step_position step = line_position ?raws start"
    using step(4) by (auto simp: parse_workflow_step_def Let_def split: option.splits prod.splits)
  moreover have item: "item_of ?ls i start" using step(1) i(1) by (simp add: block_items_member)
  then have "start < length ?raws" by (simp add: item_of_def)
  ultimately have start: "start = n"
    using assms(3,4) line_position_inject [of start ?raws n] not_Nil by simp
  have "stop \<le> m"
  proof (cases "m < length ?raws")
    case True
    have "item_of ?ls i m" using next_item [OF _ assms(5,6) True] item start by simp
    then have "m \<in> set (block_items ?ls i)" using i(1) by (simp add: block_items_member)
    then show ?thesis using step(3) assms(6) start by (simp add: step_extent_def)
  next
    case False
    then show ?thesis using step(2) by simp
  qed
  then have "bare_line (?ls ! k) = []" if "start < k" "k < stop" "k < length ?ls" for k
  proof -
    have "in_scalar ?raws k" using between_hidden [OF assms(5,6)] that \<open>stop \<le> m\<close> start by simp
    then show ?thesis using structure_lines_nth [of k ?raws] that by (simp add: blank_bare_line)
  qed
  then show ?thesis by (intro parse_blanked [OF step(4)]) blast
qed

subsection \<open>A gate that never runs\<close>

definition disabled_gate_lines :: "ustring list" where
  "disabled_gate_lines = map (\<lambda>line. ascii line @ [10])
     [''steps:'', ''  - run: python3 scripts/check_repository.py'',
      ''  - uses: actions/setup-go@924ae3a1cded613372ab5595356fb5720e22ba16'', ''    with:'',
      ''      go-version-file: go.mod'', ''      cache: false'',
      ''  - run: GOTOOLCHAIN=local go env GOVERSION'', ''  - run: |'', ''      ./scripts/check'', ''    if: false'']"

lemma disabled_gate_raws: "splitlines_keepends (concat disabled_gate_lines) = disabled_gate_lines"
  by (simp add: disabled_gate_lines_def splitlines_keepends_def line_break_def ascii_simps)

lemma disabled_gate_steps:
  "workflow_steps (concat disabled_gate_lines) = Inr (provisioning_steps @ [gate_step [(ascii ''run'', ascii ''|'')]])"
  by (simp add: disabled_gate_lines_def provisioning_steps_def gate_step_def dot_to_end rx_heads workflow_simps
      ascii_simps del: rx_match.simps(4))

lemma disabled_gate_accepted: "go_policy (provisioning_steps @ [gate_step [(ascii ''run'', ascii ''|'')]])"
  by (rule accepted_policy) (simp_all add: dict_has_def ascii_simps)

text \<open>The dash line of the gate is line 7; the script and the condition below it are lines 8 and 9.\<close>

lemma disabled_gate_extent:
  "opens_scalar (disabled_gate_lines ! 7)" "step_extent disabled_gate_lines 7 10"
  "line_position disabled_gate_lines 7 = 223" "disabled_gate_lines ! 9 = ascii ''    if: false'' @ [10]"
proof -
  show "opens_scalar (disabled_gate_lines ! 7)"
    by (simp add: disabled_gate_lines_def opens_scalar_def workflow_simps ascii_simps)
  have "{7 <..< 10 :: nat} = {8, 9}" by auto
  then show "step_extent disabled_gate_lines 7 10"
    by (simp add: step_extent_def disabled_gate_lines_def deeper_def indent_of_def bare_line_def py_strip_def
        lstrip_by_def rstrip_by_def py_space_def space_ranges_def in_class_def ascii_simps)
  show "line_position disabled_gate_lines 7 = 223" "disabled_gate_lines ! 9 = ascii ''    if: false'' @ [10]"
    by (simp_all add: line_position_def disabled_gate_lines_def ascii_simps)
qed

end
