(* ===== verification/RepoProperties.thy ===== *)
theory RepoProperties
  imports RepoSecrets RepoExposed RepoHidden
begin

text \<open>
  The properties of \<open>scripts/check_repository.py\<close>: what a run accepts, what each check is silent on,
  what it never reads, and what it raises.
\<close>

subsection \<open>The whole run\<close>

text \<open>C3: A run ends with exit status 0 exactly when Git lists the files and the repository is clean, and
  then it prints how many files were checked.\<close>

theorem repository_accepts_iff:
  "main_repository nd h = Inr r \<and> status r = 0 \<longleftrightarrow>
     (\<exists>files. repository_files h = Inr (Inr files) \<and> clean_repository nd h files \<and>
        r = \<lparr>status = 0, stdout = [ascii ''Checked '' @ py_str_nat (length files) @ ascii '' repository files.''],
          stderr = []\<rparr>)"
proof
  assume run: "main_repository nd h = Inr r \<and> status r = 0"
  then show "\<exists>files. repository_files h = Inr (Inr files) \<and> clean_repository nd h files \<and>
      r = \<lparr>status = 0, stdout = [ascii ''Checked '' @ py_str_nat (length files) @ ascii '' repository files.''],
        stderr = []\<rparr>"
    using main_repository_status [of nd h r] main_repository_accepts [of h _ nd] by blast
next
  assume "\<exists>files. repository_files h = Inr (Inr files) \<and> clean_repository nd h files \<and>
      r = \<lparr>status = 0, stdout = [ascii ''Checked '' @ py_str_nat (length files) @ ascii '' repository files.''],
        stderr = []\<rparr>"
  then obtain files where files: "repository_files h = Inr (Inr files)" "clean_repository nd h files"
      "r = \<lparr>status = 0, stdout = [ascii ''Checked '' @ py_str_nat (length files) @ ascii '' repository files.''],
        stderr = []\<rparr>" by blast
  then obtain r' where run: "main_repository nd h = Inr r'" "status r' = 0"
    using main_repository_accepts [OF files(1)] by blast
  from main_repository_status [OF run] files(1,3) have "r' = r" by auto
  with run show "main_repository nd h = Inr r \<and> status r = 0" by simp
qed

theorem repository_accepts_iff_witness:
  "main_repository [] accepted_host =
     Inr \<lparr>status = 0, stdout = [ascii ''Checked 1 repository files.''], stderr = []\<rparr>"
proof -
  have "ascii ''Checked 1 repository files.'' =
      ascii ''Checked '' @ py_str_nat (length [relative_path [''README.md'']]) @ ascii '' repository files.''"
    by (simp add: py_str_nat_def digits10.simps ascii_simps)
  then show ?thesis
    using repository_accepts_iff [THEN iffD2, OF exI [of _ "[relative_path [''README.md'']]"],
        OF conjI [OF accepted_files conjI [OF accepted_clean refl]], THEN conjunct1, of "[]"] by simp
qed

text \<open>C17: A run ends with exit status 0, one line of output and no diagnostics, or with exit status 1
  and diagnostics only, or it raises \<open>OSError\<close> or what the host raises on a link target.
\<close>

theorem repository_outcome:
  "case main_repository nd h of
     Inl e \<Rightarrow> e = OSError \<or> (\<exists>p. resolve_path h p = Inl e) \<or> (\<exists>p. path_exists h p = Inl e)
   | Inr r \<Rightarrow> if status r = 0 then stderr r = [] \<and> length (stdout r) = 1
       else status r = 1 \<and> stdout r = [] \<and> stderr r \<noteq> []"
proof (cases "main_repository nd h")
  case (Inl e)
  with main_repository_raises show ?thesis unfolding host_exception_def by simp
next
  case (Inr r)
  then obtain found where found: "repository_files h = Inr found"
    by (cases "repository_files h") (simp_all add: main_repository_def)
  show ?thesis
  proof (cases found)
    case (Inl m)
    with Inr found show ?thesis by (auto simp: main_repository_def)
  next
    case files: (Inr files)
    with Inr found show ?thesis
      by (cases "repository_errors nd h files") (auto simp: main_repository_def split: if_splits)
  qed
qed

text \<open>C11: The contents of environment files play no part in a run: two hosts that differ only in what their
  files, devices and links with environment names contain get the same result. A link with another name
  belongs to what must agree, with everything it shows.\<close>

theorem environment_contents_never_inspected:
  assumes "without_secrets (tree h) = without_secrets (tree h')" and "git_output h = git_output h'"
    and "ROOT h = ROOT h'" and "resolve_path h = resolve_path h'" and "path_exists h = path_exists h'"
  shows "main_repository nd h = main_repository nd h'"
  using assms by (rule main_repository_same_view)

theorem environment_contents_never_inspected_witness:
  "main_repository [] (bare_host (Some []) [(ascii ''.env'', RegularFile (Some [1])), (ascii ''a'', RegularFile (Some []))]) =
     main_repository [] (bare_host (Some []) [(ascii ''.env'', RegularFile (Some [2])), (ascii ''a'', RegularFile (Some []))])"
  by (rule environment_contents_never_inspected)
    (simp_all add: bare_host_def without_secrets_def secret_name_def is_environment_file_def file_name_of_def
      starts_with_def ends_with_def ascii_simps)

text \<open>C35: A listed link with the name of a text file is read, whatever file it leads to, an environment file
  included: a run that returns prints the numbers of the lines of that file that end in blanks.\<close>

theorem listed_link_target_is_read:
  assumes "git_output h = Some (null_separated names)" and "\<forall>name \<in> set names. name \<noteq> [] \<and> 0 \<notin> set name"
    and "name \<in> set names" and "text_file (parse_path (fsdecode name))"
    and "\<not> is_environment_file (parse_path (fsdecode name))"
    and "lstat (tree h) (path_parts (parse_path (fsdecode name))) = Inr (Some (Link t))"
    and "follow (Link t) = Some (RegularFile (Some raw))" and "utf8_decode raw = Some content"
    and "i < length (splitlines content)" and "trailing_blank (splitlines content ! i)"
    and "main_repository nd h = Inr r"
  shows "status r = 1 \<and> ascii ''trailing whitespace: '' @ as_posix (parse_path (fsdecode name)) @ ascii '':'' @
    py_str_nat (Suc i) \<in> set (stderr r)"
proof -
  let ?p = "parse_path (fsdecode name)"
  obtain files where files: "repository_files h = Inr (Inr files)"
    using assms(1,11) by (auto simp: main_repository_def repository_files_def bindR_eq_Inr)
  have "is_file_or_link (tree h) ?p = Inr True" using assms(6,7) by (auto simp: is_file_or_link_def is_file_eq)
  then have listed: "?p \<in> set files" using repository_files_set [OF assms(1,2) files] assms(3) by blast
  have "file_contents (tree h) (path_parts ?p) = Some raw" using assms(6,7) by (simp add: file_contents_def)
  from run_names_blank_lines [OF files listed assms(4,5) this assms(8-11)] show ?thesis .
qed

theorem listed_link_target_is_read_witness:
  "\<exists>r. main_repository [] leaking_host = Inr r \<and> status r = 1 \<and>
     ascii ''trailing whitespace: a:1'' \<in> set (stderr r)"
proof -
  have name: "parse_path (fsdecode [97]) = Path [] [[97]]" by (simp add: listing_simps)
  have names: "\<forall>name \<in> set [[97 :: byte]]. name \<noteq> [] \<and> 0 \<notin> set name" "[97] \<in> set [[97 :: byte]]" by simp_all
  have textual: "text_file (Path [] [[97]])" "\<not> is_environment_file (Path [] [[97]])"
    by (simp_all add: text_file_def file_name_of_def py_suffix_def TEXT_SUFFIXES_def py_lower_def
        is_environment_file_def starts_with_def ends_with_def ascii_simps)
  have target: "follow (Link (Some (RegularFile (Some (utf8_encode [88, 32, 10]))))) =
      Some (RegularFile (Some (utf8_encode [88, 32, 10])))" by simp
  have content: "utf8_decode (utf8_encode [88, 32, 10]) = Some [88, 32, 10]"
    by (rule utf8_decode_encode) (simp add: scalar_def)
  have blank: "0 < length (splitlines [88, 32, 10])" "trailing_blank (splitlines [88, 32, 10] ! 0)"
    by (simp_all add: splitlines_def line_break_def trailing_blank_def rstrip_by_def blank_def)
  obtain r where run: "main_repository [] leaking_host = Inr r" using leaking_host_returns by blast
  have "as_posix (Path [] [[97]]) = ascii ''a''" by (simp add: as_posix_def ascii_simps)
  with listed_link_target_is_read [OF leaking_host_git names, unfolded name,
      OF textual leaking_host_link target content blank run] run
  show ?thesis by (simp add: py_str_nat_def digits10.simps ascii_simps)
qed

text \<open>C30: Exactly the files are listed that Git names and that are files or links, in order.\<close>

theorem repository_files_exact:
  assumes "git_output h = Some (null_separated names)" and "\<forall>name \<in> set names. name \<noteq> [] \<and> 0 \<notin> set name"
    and "repository_files h = Inr (Inr files)"
  shows "sorted files \<and> (\<forall>p. p \<in> set files \<longleftrightarrow>
    (\<exists>name \<in> set names. p = parse_path (fsdecode name)) \<and> is_file_or_link (tree h) p = Inr True)"
  using assms by (rule repository_files_set)

theorem repository_files_exact_witness:
  "\<exists>files. repository_files (bare_host (Some (null_separated [[97], [98]])) [([97], RegularFile (Some []))]) =
       Inr (Inr files) \<and> Path [] [[97]] \<in> set files \<and> Path [] [[98]] \<notin> set files"
proof -
  let ?h = "bare_host (Some (null_separated [[97], [98]])) [([97], RegularFile (Some []))]"
  obtain files where run: "repository_files ?h = Inr (Inr files)"
    by (simp add: repository_files_def bare_host_def null_separated_def listing_simps)
  have git: "git_output ?h = Some (null_separated [[97], [98]])" by (simp add: bare_host_def)
  have listed: "p \<in> set files \<longleftrightarrow> (\<exists>name \<in> set [[97], [98]]. p = parse_path (fsdecode name)) \<and>
      is_file_or_link (tree ?h) p = Inr True" for p
    using repository_files_exact [OF git _ run] by simp
  have "Path [] [[97]] \<in> set files" unfolding listed by (simp add: bare_host_def listing_simps)
  moreover have "Path [] [[98]] \<notin> set files" unfolding listed by (simp add: bare_host_def listing_simps)
  ultimately show ?thesis using run by blast
qed

text \<open>C14: The environment files found are exactly those reached without an ignored directory.\<close>

theorem environment_files_exact:
  "sorted (environment_files h) \<and>
   set (environment_files h) =
     {Path [] ps | ps. is_environment_file (Path [] ps) \<and>
        (\<exists>n m. follow (tree h) = Some n \<and> visible_entry n ps m \<and> \<not> is_dir_node m)}"
  by (simp add: environment_files_set) (simp add: environment_files_def)

subsection \<open>Single checks\<close>

text \<open>C31: Text hygiene is silent exactly on clean UTF-8 text.\<close>

theorem hygiene_silent_iff:
  assumes "text_file p"
  shows "check_text_hygiene repository p errors = Inr (True, errors) \<longleftrightarrow>
     clean_file (file_contents repository (path_parts p))"
proof -
  have silent: "bindR (check_text_hygiene repository p errors) (\<lambda>(valid, errors). Inr errors) = Inr errors \<longleftrightarrow>
      clean_file (file_contents repository (path_parts p))"
    using judges_silent [OF check_text_hygiene_judges, of repository p errors] assms by simp
  show ?thesis
  proof (cases rule: check_text_hygiene_cases [of repository p])
    case (raised e)
    with silent show ?thesis by simp
  next
    case (invalid m)
    with silent show ?thesis by (simp add: report_def)
  next
    case (valid f)
    with silent show ?thesis by simp
  qed
qed

theorem hygiene_silent_iff_witness:
  "check_text_hygiene (Directory [(ascii ''a.md'', RegularFile (Some (utf8_encode [35, 32, 233, 10])))])
     (relative_path [''a.md'']) [] = Inr (True, [])"
proof -
  let ?n = "Directory [(ascii ''a.md'', RegularFile (Some (utf8_encode [35, 32, 233, 10])))]"
  have textual: "text_file (relative_path [''a.md''])"
    by (simp add: text_file_def relative_path_def file_name_of_def py_suffix_def TEXT_SUFFIXES_def py_lower_def ascii_simps)
  have "clean_text [35, 32, 233, 10]" by (simp add: clean_text_def no_blank_ends_def blank_def line_break_def)
  then have "clean_file (file_contents ?n (path_parts (relative_path [''a.md''])))"
    by (simp add: clean_file_def file_contents_def lstat_def relative_path_def name_too_long_def utf8_encode_def
        utf8_char_def ascii_simps) (intro exI [of _ "[35, 32, 233, 10]"], simp add: scalar_def utf8_char_def)
  then show ?thesis using hygiene_silent_iff [OF textual, of ?n "[]"] by simp
qed

text \<open>C10: The checks of the Go policy report nothing exactly on the policy.\<close>

theorem ci_policy_silent_iff:
  "check_ci_go_policy repository errors = Inr errors \<longleftrightarrow> ci_sound repository"
  by (rule ci.pass_silent)

text \<open>C15: In an accepted repository every link of a listed Markdown file, outside fenced code, is no local
  link or resolves to something that exists below \<open>ROOT\<close>.\<close>

theorem accepted_links_resolve:
  assumes "main_repository nd h = Inr r" and "status r = 0" and "repository_files h = Inr (Inr files)"
    and "p \<in> set files" and "markdown_file p" and "\<not> is_environment_file p"
  shows "\<exists>t. read_text (tree h) p = Inr t \<and>
    (\<forall>i raw_target. open_line (splitlines t) i \<longrightarrow> raw_target \<in> set (line_targets (splitlines t ! i)) \<longrightarrow>
       (let target = markdown_destination raw_target;
            file_target = unquote (before_first [63] (before_first [35] target)) in
        ignored_target target \<or> file_target = [] \<or>
        (\<exists>destination.
           resolve_path h (join_path (join_path (ROOT h) (parent_path p)) (parse_path file_target)) = Inr destination \<and>
           is_under (ROOT h) destination \<and> path_exists h destination = Inr True)))"
proof -
  have "clean_repository nd h files" using main_repository_accepts assms(1-3) by blast
  then have "links_sound h p" using assms(4-6) by (simp add: clean_repository_def file_sound_def)
  then show ?thesis unfolding links_sound_def links_on_def link_sound_def [symmetric] by fast
qed

theorem accepted_links_resolve_witness:
  "\<exists>destination. resolve_path accepted_host (parse_path (ascii ''/r/AGENTS.md'')) = Inr destination \<and>
     is_under (ROOT accepted_host) destination \<and> path_exists accepted_host destination = Inr True"
proof -
  let ?p = "relative_path [''README.md'']"
  have "\<exists>r. main_repository [] accepted_host = Inr r \<and> status r = 0"
    using main_repository_accepts accepted_files accepted_clean by blast
  then obtain r where r: "main_repository [] accepted_host = Inr r" "status r = 0" by blast
  have "markdown_file ?p" "\<not> is_environment_file ?p" "?p \<in> set [relative_path [''README.md'']]"
    by (simp_all add: markdown_file_def relative_path_def file_name_of_def py_suffix_def py_lower_def
        is_environment_file_def starts_with_def ends_with_def ascii_simps)
  from accepted_links_resolve [OF r accepted_files this(3,1,2)] readme_read readme_links
  have "let target = markdown_destination (ascii ''AGENTS.md'');
            file_target = unquote (before_first [63] (before_first [35] target)) in
        ignored_target target \<or> file_target = [] \<or>
        (\<exists>destination.
           resolve_path accepted_host (join_path (join_path (ROOT accepted_host) (parent_path ?p)) (parse_path file_target)) =
             Inr destination \<and>
           is_under (ROOT accepted_host) destination \<and> path_exists accepted_host destination = Inr True)"
    by (metis Inr_inject list.set_intros(1))
  moreover have "ascii ''AGENTS.md'' \<noteq> []" by (simp add: ascii_simps)
  ultimately show ?thesis unfolding Let_def readme_target using readme_target(3) by blast
qed

text \<open>C16: The metadata check is silent exactly when stories and lessons match.\<close>

theorem learning_metadata_silent_iff:
  "check_learning_metadata nd repository errors = Inr errors \<longleftrightarrow> metadata_sound nd repository"
  by (rule metadata.pass_silent)

subsection \<open>The workflow\<close>

text \<open>C9: The steps found are exactly the items of the step blocks that stand outside block scalars, in order;
  the search always ends.\<close>

theorem workflow_steps_exact:
  "\<exists>steps. workflow_steps w = Inr steps \<and> sorted_wrt earlier (map step_key steps) \<and>
     set (map step_key steps) =
       {(line_position (splitlines_keepends w) i, line_position (splitlines_keepends w) n) | i n.
          step_line (splitlines_keepends w) i n}"
  using workflow_steps_keys [of w] sorted_item_keys [of w] item_keys_set [of w] unfolding item_of_structure by metis

text \<open>C32: A step never starts inside a block scalar, and its position is that of its line.\<close>

theorem workflow_steps_outside_scalars:
  assumes "workflow_steps w = Inr steps" and "step \<in> set steps"
  shows "\<exists>n < length (splitlines_keepends w). step_position step = line_position (splitlines_keepends w) n \<and>
    \<not> in_scalar (splitlines_keepends w) n \<and> item_indent (splitlines_keepends w ! n) \<noteq> None \<and>
    take (length (splitlines_keepends w ! n)) (drop (step_position step) w) = splitlines_keepends w ! n"
proof -
  let ?raws = "splitlines_keepends w"
  have "step_key step \<in> set (item_keys w)"
    using workflow_steps_keys [of w] assms by (metis Inr_inject image_eqI list.set_map)
  then obtain i n where n: "step_position step = line_position ?raws n" "item_of (structure_of None ?raws) i n"
    unfolding item_keys_set by (auto simp: step_key_def)
  note outside = item_outside_scalar [OF n(2)]
  have "item_indent (?raws ! n) \<noteq> None" using n(2) outside unfolding item_of_def by auto
  moreover have "take (length (?raws ! n)) (drop (line_position ?raws n) w) = ?raws ! n"
    using line_at_position [of n ?raws] outside by (simp add: splitlines_keepends_concat)
  ultimately show ?thesis using outside n(1) by metis
qed

theorem workflow_steps_outside_scalars_witness:
  "\<exists>steps step n. workflow_steps (gate_in_scalar (ascii ''  - run: |'')) = Inr steps \<and> step \<in> set steps \<and>
     step_position step = line_position (splitlines_keepends (gate_in_scalar (ascii ''  - run: |''))) n \<and>
     \<not> in_scalar (splitlines_keepends (gate_in_scalar (ascii ''  - run: |''))) n"
proof -
  from workflow_steps_outside_scalars [OF gate_in_dash_scalar list.set_intros(1)] obtain n where
    "7 = line_position (splitlines_keepends (gate_in_scalar (ascii ''  - run: |''))) n"
    "\<not> in_scalar (splitlines_keepends (gate_in_scalar (ascii ''  - run: |''))) n" by auto
  then show ?thesis unfolding gate_in_dash_scalar by auto
qed



subsection \<open>Links and text\<close>

text \<open>C34: Whatever the name of a file, the percent-encoded form of its path is a link to it: the link is
  accepted exactly when that path resolves to something that exists below \<open>ROOT\<close>. It suffices that no
  white space and none of \<open># : < ?\<close> is left unencoded.\<close>

theorem encoded_link_reaches_file:
  assumes "list_all scalar t" and "t \<noteq> []" and "\<And>c. safe c \<Longrightarrow> c \<notin> {35, 58, 60, 63} \<and> \<not> py_space c"
  shows "check_link h p (number, percent_quote safe t) errors = Inr errors \<longleftrightarrow>
    (\<exists>destination. resolve_path h (join_path (join_path (ROOT h) (parent_path p)) (parse_path t)) = Inr destination \<and>
       is_under (ROOT h) destination \<and> path_exists h destination = Inr True)"
  using judges_silent [OF check_link_judges] link_sound_quoted [OF assms] by blast

theorem encoded_link_reaches_file_witness:
  "check_link accepted_host (relative_path [''README.md'']) (1, percent_quote (\<lambda>c. c = 47) (ascii ''AGENTS.md'')) [] = Inr []"
proof -
  have scalars: "list_all scalar (ascii ''AGENTS.md'')" by (simp add: scalar_def ascii_simps)
  have named: "ascii ''AGENTS.md'' \<noteq> []" by (simp add: ascii_simps)
  have safe: "c \<notin> {35, 58, 60, 63} \<and> \<not> py_space c" if "c = 47" for c
    using that by (simp add: py_space_def in_class_def space_ranges_def)
  have "\<exists>destination. resolve_path accepted_host (parse_path (ascii ''/r/AGENTS.md'')) = Inr destination \<and>
      is_under (ROOT accepted_host) destination \<and> path_exists accepted_host destination = Inr True"
    by (simp add: accepted_host_def parse_path_def slashes_def is_under_def ascii_simps)
  then have "\<exists>destination. resolve_path accepted_host (join_path (join_path (ROOT accepted_host)
        (parent_path (relative_path [''README.md'']))) (parse_path (ascii ''AGENTS.md''))) = Inr destination \<and>
      is_under (ROOT accepted_host) destination \<and> path_exists accepted_host destination = Inr True"
    unfolding readme_target .
  then show ?thesis
    using encoded_link_reaches_file [where safe = "\<lambda>c. c = 47", OF scalars named safe] by blast
qed

text \<open>C37: The links of a file are the targets of its link texts outside fenced code.\<close>

theorem markdown_links_exact:
  assumes "read_text repository p = Inr t"
  shows "\<exists>links. iter_markdown_links repository p = Inr links \<and>
    (\<forall>n target. (n, target) \<in> set links \<longleftrightarrow>
       (\<exists>i. n = Suc i \<and> open_line (splitlines t) i \<and> target \<in> set (line_targets (splitlines t ! i)))) \<and>
    (\<forall>(n, target) \<in> set links. \<exists>u label inner v. splitlines t ! (n - 1) = u @ link_text label inner @ v \<and>
       target = py_strip inner \<and> 93 \<notin> set label \<and> 41 \<notin> set inner)"
proof -
  let ?links = "links_of_lines False (enumerate 1 (splitlines t))"
  have run: "iter_markdown_links repository p = Inr ?links" using assms by (simp add: iter_markdown_links_set)
  have found: "(n, target) \<in> set ?links \<longleftrightarrow>
      (\<exists>i. n = Suc i \<and> open_line (splitlines t) i \<and> target \<in> set (line_targets (splitlines t ! i)))" for n target
    unfolding links_of_text by (simp add: links_on_def)
  have "\<exists>u label inner v. line = u @ link_text label inner @ v \<and> target = py_strip inner \<and>
      93 \<notin> set label \<and> 41 \<notin> set inner" if target: "target \<in> set (line_targets line)" for target line
  proof -
    obtain m where m: "m \<in> set (finditer MARKDOWN_LINK line)" "target = py_strip (the (re_group m 1))"
      using target unfolding line_targets_def set_map by blast
    from markdown_link_shape [OF m(1)] obtain u label inner v where "line = u @ link_text label inner @ v"
        "re_group m 1 = Some inner" "93 \<notin> set label" "41 \<notin> set inner" by blast
    with m(2) show ?thesis by (intro exI [of _ u] exI [of _ label] exI [of _ inner] exI [of _ v]) simp
  qed
  then have "\<exists>u label inner v. splitlines t ! (n - 1) = u @ link_text label inner @ v \<and> target = py_strip inner \<and>
      93 \<notin> set label \<and> 41 \<notin> set inner" if "(n, target) \<in> set ?links" for n target
    using that unfolding found by auto
  then show ?thesis using run found by (intro exI [of _ ?links]) blast
qed

theorem markdown_links_exact_witness:
  "\<exists>links. iter_markdown_links (Directory [(ascii ''a.md'', RegularFile (Some (utf8_encode (ascii ''[a](b.md)'' @ [10]))))])
      (relative_path [''a.md'']) = Inr links \<and> (1, ascii ''b.md'') \<in> set links"
proof -
  let ?n = "Directory [(ascii ''a.md'', RegularFile (Some (utf8_encode (ascii ''[a](b.md)'' @ [10]))))]"
  let ?p = "relative_path [''a.md'']"
  let ?t = "ascii ''[a](b.md)'' @ [10]"
  have "file_contents ?n (path_parts ?p) = Some (utf8_encode ?t)"
    by (simp add: file_contents_def lstat_def relative_path_def name_too_long_def utf8_encode_def utf8_char_def ascii_simps)
  moreover have "utf8_decode (utf8_encode ?t) = Some ?t" by (rule utf8_decode_encode) (simp add: scalar_def ascii_simps)
  ultimately have "read_text ?n ?p = Inr ?t" by (simp add: read_text_def ascii_simps)
  from markdown_links_exact [OF this] obtain links where links: "iter_markdown_links ?n ?p = Inr links"
      "\<And>n target. (n, target) \<in> set links \<longleftrightarrow>
         (\<exists>i. n = Suc i \<and> open_line (splitlines ?t) i \<and> target \<in> set (line_targets (splitlines ?t ! i)))" by blast
  have lines: "splitlines ?t = [ascii ''[a](b.md)'']" by (simp add: splitlines_def line_break_def ascii_simps)
  have "line_targets (ascii ''[a](b.md)'') = [ascii ''b.md'']"
    by (simp add: line_targets_def finditer_def MARKDOWN_LINK_def finditer_from.simps in_class_def re_group_def
        py_strip_def lstrip_by_def rstrip_by_def py_space_def space_ranges_def ascii_simps)
  moreover have "open_line [ascii ''[a](b.md)''] 0"
    by (simp add: open_line_def fence_line_def starts_with_def lstrip_by_def py_space_def space_ranges_def
        in_class_def ascii_simps)
  ultimately have "\<exists>i. (1 :: nat) = Suc i \<and> open_line (splitlines ?t) i \<and>
      ascii ''b.md'' \<in> set (line_targets (splitlines ?t ! i))"
    unfolding lines by (intro exI [of _ 0]) simp
  with links show ?thesis by blast
qed

subsection \<open>Runs that raise\<close>

lemma listed_name_must_raise:
  assumes "git_output h = Some (null_separated names)" and "\<forall>name \<in> set names. name \<noteq> [] \<and> 0 \<notin> set name"
    and "name \<in> set names" and "is_file_or_link (tree h) (parse_path (fsdecode name)) = Inr True"
    and "\<And>errors. \<exists>e. check_file h (parse_path (fsdecode name)) errors = Inl e"
  shows "\<exists>e. main_repository nd h = Inl e"
proof (cases "repository_files h")
  case (Inl e)
  then show ?thesis by (simp add: main_repository_def)
next
  case (Inr found)
  then obtain files where files: "repository_files h = Inr (Inr files)"
    using assms(1) by (auto simp: repository_files_def bindR_eq_Inr)
  from repository_files_set [OF assms(1,2) this] assms(3,4) have "parse_path (fsdecode name) \<in> set files" by blast
  from listed_file_must_raise [OF files this assms(5)] show ?thesis .
qed

text \<open>C38: A listed link that is broken or leads to a directory makes the run raise, when its name is that
  of a text file.\<close>

theorem listed_broken_link_raises:
  assumes "git_output h = Some (null_separated names)" and "\<forall>name \<in> set names. name \<noteq> [] \<and> 0 \<notin> set name"
    and "name \<in> set names" and "text_file (parse_path (fsdecode name))"
    and "\<not> is_environment_file (parse_path (fsdecode name))"
    and "lstat (tree h) (path_parts (parse_path (fsdecode name))) = Inr (Some (Link t))"
    and "follow (Link t) = None \<or> (\<exists>entries. follow (Link t) = Some (Directory entries))"
  shows "\<exists>e. main_repository nd h = Inl e"
proof (rule listed_name_must_raise [OF assms(1,2,3)])
  let ?p = "parse_path (fsdecode name)"
  show "is_file_or_link (tree h) ?p = Inr True"
    using assms(6,7) by (auto simp: is_file_or_link_def is_file_eq is_symlink_eq)
  have "file_contents (tree h) (path_parts ?p) = None"
    using assms(6,7) by (auto simp: file_contents_def split: option.split node.split)
  from unreadable_text_must_raise [OF assms(4,5) this]
  show "\<exists>e. check_file h ?p errors = Inl e" for errors by blast
qed

theorem listed_broken_link_raises_witness:
  "\<exists>e. main_repository [] (bare_host (Some (null_separated [[97]])) [([97], Link None)]) = Inl e"
proof -
  let ?h = "bare_host (Some (null_separated [[97]])) [([97], Link None)]"
  have name: "parse_path (fsdecode [97]) = Path [] [[97]]" by (simp add: listing_simps)
  have "git_output ?h = Some (null_separated [[97]])" by (simp add: bare_host_def)
  moreover have "text_file (Path [] [[97]])" "\<not> is_environment_file (Path [] [[97]])"
    by (simp_all add: text_file_def file_name_of_def py_suffix_def TEXT_SUFFIXES_def py_lower_def
        is_environment_file_def starts_with_def ends_with_def ascii_simps)
  moreover have "lstat (tree ?h) [[97]] = Inr (Some (Link None))"
    by (simp add: bare_host_def lstat_def name_too_long_def utf8_encode_def utf8_char_def)
  ultimately show ?thesis
    using listed_broken_link_raises [of ?h "[[97]]" "[97]" None "[]", unfolded name] by simp
qed

lemma split_on_covers: "x \<in> set s \<Longrightarrow> x \<noteq> c \<Longrightarrow> \<exists>part \<in> set (split_on c s). x \<in> set part"
  by (induction s) (auto split: list.splits)

lemma parse_path_null: "0 \<in> set s \<Longrightarrow> \<exists>part \<in> set (path_parts (parse_path s)). 0 \<in> set part"
  using split_on_covers [of 0 s 47] by (auto simp: parse_path_def)

text \<open>C39: A link whose target contains an encoded null byte makes the run raise.\<close>

theorem null_byte_link_raises:
  assumes "git_output h = Some (null_separated names)" and "\<forall>name \<in> set names. name \<noteq> [] \<and> 0 \<notin> set name"
    and "name \<in> set names" and p: "p = parse_path (fsdecode name)" and "markdown_file p"
    and "\<not> is_environment_file p" and "regular_at (tree h) (path_parts p)"
    and "read_text (tree h) p = Inr t" and "(number, raw_target) \<in> links_on (splitlines t)"
    and "\<not> ignored_target (markdown_destination raw_target)"
    and "0 \<in> set (unquote (before_first [63] (before_first [35] (markdown_destination raw_target))))"
    and resolving: "\<And>q. list_ex (\<lambda>part. 0 \<in> set part) (path_parts q) \<Longrightarrow> resolve_path h q = Inl ValueError"
  shows "\<exists>e. main_repository nd h = Inl e"
proof (rule listed_name_must_raise [OF assms(1,2,3)])
  show "is_file_or_link (tree h) (parse_path (fsdecode name)) = Inr True"
    using assms(7) unfolding p is_file_True [symmetric] by (simp add: is_file_or_link_def)
  let ?target = "unquote (before_first [63] (before_first [35] (markdown_destination raw_target)))"
  obtain part where part: "part \<in> set (path_parts (parse_path ?target))" "0 \<in> set part"
    using parse_path_null assms(11) by blast
  then have "list_ex (\<lambda>part. 0 \<in> set part)
      (path_parts (join_path (join_path (ROOT h) (parent_path p)) (parse_path ?target)))"
    by (auto simp: join_path_def list_ex_iff)
  from resolving [OF this] have "check_link h p (number, raw_target) errors = Inl ValueError" for errors
    using assms(10,11) by (auto simp: check_link_def Let_def)
  then show "\<exists>e. check_file h (parse_path (fsdecode name)) errors = Inl e" for errors
    unfolding p [symmetric] using assms(5,6,8,9) by (intro link_must_raise) auto
qed

theorem null_byte_link_raises_witness:
  "\<exists>e. main_repository [] (bare_host (Some (null_separated [[97, 46, 109, 100]]))
     [([97, 46, 109, 100], RegularFile (Some (utf8_encode [91, 93, 40, 37, 48, 48, 41, 10])))]) = Inl e"
proof -
  let ?h = "bare_host (Some (null_separated [[97, 46, 109, 100]]))
     [([97, 46, 109, 100], RegularFile (Some (utf8_encode [91, 93, 40, 37, 48, 48, 41, 10])))]"
  let ?p = "Path [] [[97, 46, 109, 100]]"
  have name: "?p = parse_path (fsdecode [97, 46, 109, 100])" by (simp add: listing_simps)
  have at_path: "lstat (tree ?h) (path_parts ?p) = Inr (Some (RegularFile (Some (utf8_encode [91, 93, 40, 37, 48, 48, 41, 10]))))"
    by (simp add: bare_host_def lstat_def name_too_long_def utf8_encode_def utf8_char_def)
  have markdown: "markdown_file ?p" "\<not> is_environment_file ?p"
    by (simp_all add: markdown_file_def file_name_of_def py_suffix_def py_lower_def
        is_environment_file_def starts_with_def ends_with_def ascii_simps)
  have regular: "regular_at (tree ?h) (path_parts ?p)"
    using at_path by (simp add: regular_at_def)
  have "utf8_decode (utf8_encode [91, 93, 40, 37, 48, 48, 41, 10]) = Some [91, 93, 40, 37, 48, 48, 41, 10]"
    by (rule utf8_decode_encode) (simp add: scalar_def)
  then have contents: "read_text (tree ?h) ?p = Inr [91, 93, 40, 37, 48, 48, 41, 10]"
    using at_path by (simp add: read_text_def file_contents_def)
  have lines: "splitlines [91, 93, 40, 37, 48, 48, 41, 10] = [[91, 93, 40, 37, 48, 48, 41]]"
    by (simp add: splitlines_def line_break_def)
  have "line_targets [91, 93, 40, 37, 48, 48, 41] = [[37, 48, 48]]"
    by (simp add: line_targets_def finditer_def MARKDOWN_LINK_def finditer_from.simps in_class_def re_group_def
        py_strip_def lstrip_by_def rstrip_by_def py_space_def space_ranges_def)
  moreover have "open_line [[91, 93, 40, 37, 48, 48, 41]] 0"
    by (simp add: open_line_def fence_line_def starts_with_def lstrip_by_def py_space_def space_ranges_def
        in_class_def ascii_simps)
  ultimately have link: "(1, [37, 48, 48]) \<in> links_on (splitlines [91, 93, 40, 37, 48, 48, 41, 10])"
    unfolding lines links_on_def by (auto intro!: exI [of _ 0])
  have target: "markdown_destination [37, 48, 48] = [37, 48, 48]"
    by (simp add: markdown_destination_def py_strip_def lstrip_by_def rstrip_by_def py_space_def space_ranges_def
        in_class_def starts_with_def)
  have local: "\<not> ignored_target (markdown_destination [37, 48, 48])"
    unfolding target by (simp add: ignored_target_def starts_with_def ascii_simps)
  have null: "0 \<in> set (unquote (before_first [63] (before_first [35] (markdown_destination [37, 48, 48]))))"
    unfolding target
    by (simp add: before_first_def starts_with_def unquote.simps utf8_replace.simps hex_digit_value_def Let_def unat_byte_of)
  have git: "git_output ?h = Some (null_separated [[97, 46, 109, 100]])" by (simp add: bare_host_def)
  have names: "\<forall>name \<in> set [[97 :: byte, 46, 109, 100]]. name \<noteq> [] \<and> 0 \<notin> set name"
    and listed: "[97, 46, 109, 100] \<in> set [[97 :: byte, 46, 109, 100]]" by simp_all
  have "resolve_path ?h q = Inl ValueError" if "list_ex (\<lambda>part. 0 \<in> set part) (path_parts q)" for q
    using that by (simp add: bare_host_def)
  from null_byte_link_raises [OF git names listed name markdown regular contents link local null this]
  show ?thesis .
qed

subsection \<open>Runs that return\<close>



end
