(* ===== verification/Spec2Isabelle.thy ===== *)
theory Spec2Isabelle
  imports FingerprintProperties CheckerProperties RepoProperties
begin

text \<open>
  A verification library for the two Python checkers of the repository: \<open>scripts/check_contract.py\<close>,
  which checks the model-turn contract of the gateway (schemas, fixtures and the manifest of cases),
  and \<open>scripts/check_repository.py\<close>, which checks the repository around it (required files, secrets,
  Go layout, CI workflow, text files, Markdown links, stories and lessons). Both run in the gate
  \<open>scripts/check\<close>; their verdicts are what the rest of the project relies on. This theory holds no
  definitions of its own; it brings the parts together.

  \<^bold>\<open>Conventions.\<close> A Python string is a list of code points (\<open>Prelude\<close>), a dictionary an association
  list in insertion order, an exception a value of \<open>exc + 'a\<close> chained by \<open>bindR\<close>, a list of diagnostics
  a value threaded through the checks. Functions keep the names of the source; a nested Python function
  or a stretch of a long one has a definition of its own, and the manifest names its lines.

  \<^bold>\<open>Ground.\<close> \<open>PyNumbers\<close> (exact comparison of int, float and Decimal), \<open>PyText\<close> (split, join, repr),
  \<open>PyValues\<close> (JSON values, \<open>matches_type\<close>, \<open>json_equal\<close>), \<open>Regex\<close> (the patterns of \<open>re\<close> as syntax
  trees, a backtracking matcher, its language), \<open>Utf8\<close>, \<open>Sha256\<close>, \<open>FileTree\<close> (\<open>pathlib\<close> and \<open>os.walk\<close>
  on a tree of files, directories and links).

  \<^bold>\<open>scripts/check_contract.py\<close>
  \<^item> \<open>ContractTables\<close>, \<open>JsonPointer\<close>: the limits, tables and patterns; \<open>pointer_join\<close> against RFC 6901.
  \<^item> \<open>SchemaProfile\<close> is \<open>schema_issues\<close>. \<open>SchemaSpec\<close> states the closed profile on JSON values and shows
    that the walk is silent exactly on it; \<open>SchemaOutput\<close> bounds what it prints.
  \<^item> \<open>InstanceValidation\<close> is \<open>validate_instance\<close>. \<open>ValidationSpec\<close> states the JSON Schema semantics of the
    keywords as a list of violations and shows that the walk reports exactly these, up to the bound.
    \<open>ContractProperties\<close> holds the properties of these parts.
  \<^item> \<open>Fingerprint\<close> is \<open>schema_validation_fingerprint\<close>. \<open>FingerprintText\<close>, \<open>FingerprintSpec\<close>, \<open>SameRules\<close>
    and \<open>FingerprintRules\<close> show that the hashed text determines the rules of a schema and is determined
    by them; \<open>FingerprintProperties\<close> concludes that it pins validation. Nothing is assumed of SHA-256;
    the properties speak of the text it is applied to.
  \<^item> \<open>JsonScanner\<close>, \<open>JsonScannerFacts\<close>: \<open>json.loads\<close> with the hooks of \<open>strict_json\<close>. \<open>StrictJson\<close> is
    \<open>strict_json\<close> with \<open>require_unicode_scalars\<close>; \<open>LoaderProperties\<close> holds their properties.
  \<^item> \<open>ContractFiles\<close> is \<open>safe_file\<close>, \<open>load_canonical_schemas\<close> and the checks it calls. \<open>FileSafety\<close> and
    \<open>Inventory\<close> say which paths are admitted and what the walk over a folder finds; \<open>SchemaInventory\<close>
    says which schema files are accepted.
  \<^item> \<open>ContractCheck\<close> is \<open>check_contract\<close> and \<open>main\<close>. \<open>CaseSpec\<close> says what one case promises, \<open>Acceptance\<close>
    what a sound corpus is and that \<open>check_contract\<close> accepts exactly these, \<open>ContractOutput\<close> bounds the
    diagnostics, and \<open>CheckerProperties\<close> holds the properties of the whole.

  \<^bold>\<open>scripts/check_repository.py\<close>
  \<^item> \<open>RepoText\<close>: \<open>check_text_hygiene\<close>, \<open>iter_markdown_links\<close>, \<open>markdown_destination\<close>, \<open>section_body\<close>.
    \<open>RepoTextSpec\<close> says which files are clean and on which lines links are found.
  \<^item> \<open>RepoWorkflow\<close>: \<open>workflow_steps\<close>, \<open>parse_workflow_step\<close>, \<open>yaml_scalar\<close>, \<open>check_ci_go_policy\<close>.
    \<open>RepoWorkflowSpec\<close> says, over the lines of the workflow, what lies in a block scalar and what an item
    of a steps block is; \<open>RepoPolicySpec\<close> states the Go policy on the steps found.
  \<^item> \<open>RepoMetadata\<close>: \<open>metadata_files\<close>, \<open>check_learning_metadata\<close>; \<open>RepoMetadataSpec\<close> says when stories and
    lessons match.
  \<^item> \<open>RepoCheck\<close>: \<open>repository_files\<close>, \<open>environment_files\<close>, \<open>check_required_paths\<close>, \<open>check_go_layout\<close>,
    \<open>check_markdown_links\<close> and \<open>main\<close>. \<open>RepoSpec\<close> states what a clean repository is, check by check.
  \<^item> \<open>RepoSecrets\<close>: the contents of what has an environment name play no part; a link under another name is
    read whatever it leads to, and \<open>RepoExposed\<close> shows what the diagnostics then tell of its target.
    \<open>RepoErrors\<close>: what a run can raise, when it must, and when it returns. \<open>RepoRoundtrip\<close>: percent-encoded
    link targets, \<open>dedent\<close> against indentation, the shape of a Markdown link. \<open>RepoExamples\<close>: concrete
    hosts and workflows, among them a repository that is accepted. \<open>RepoHidden\<close>: the fields that a block
    scalar on the line of the dash hides from the policy. \<open>RepoProperties\<close> holds the properties.

  \<^bold>\<open>Interfaces.\<close> \<open>bounded_log\<close> in \<open>Prelude\<close> is the contract of the two bounded lists of
  \<open>check_contract.py\<close>, interpreted for \<open>add_issue\<close> and \<open>add_violation\<close>; \<open>ordered_dict\<close> and
  \<open>equivalence_on\<close> in \<open>PyValues\<close> are those of dictionaries and of \<open>json_equal\<close>. \<open>check_pass\<close> in \<open>RepoLog\<close>
  is the contract of one check of \<open>check_repository.py\<close>: it only appends, and it is silent exactly when
  its specification holds; it is interpreted for each check that \<open>main\<close> runs and for their composition.

  \<^bold>\<open>Bounds and fuel.\<close> The scanner of \<open>json.loads\<close> recurses on twice the number of characters plus two,
  which is shown never to run out; the repetition of a pattern on the number of characters left, since
  every round consumes one. The other loops are structural or end by a measure on the rest of the input.
  The limits of the source (bytes, depth, issues, violations, path length) are constants with their values.

  \<^bold>\<open>Parameters.\<close> What is not in the source: the printable characters of the Unicode version (for \<open>repr\<close>),
  its decimal digits (for the digit class of a pattern, \<open>nd\<close>), the recursion limits of the interpreter,
  and the record \<open>host\<close>: the output of \<open>git ls-files\<close>, the tree below \<open>ROOT\<close>, and the resolution and
  existence of absolute paths. Of these nothing is assumed, but in one property that resolving a path
  with a null byte raises \<open>ValueError\<close>, and in another that every question is answered. The tree does
  not change during a run; directories are readable and searchable; a device or a pipe is given by what
  reading it yields, so a read that never ends is not modelled.

  \<^bold>\<open>Not modelled.\<close> The gateway in Go (\<open>gateway/cmd\<close>, \<open>gateway/internal\<close>) is another program in another
  language. The driver \<open>scripts/check\<close> only starts processes in order; the workflow
  \<open>.github/workflows/check.yml\<close>, the schemas, fixtures and Markdown files are inputs of the checkers; the
  tests compare outputs of functions that are modelled here. Of the two scripts, what is left out is the
  import block, the start of the \<open>git\<close> process and the writing of lines to the two output streams, whose
  contents are the fields \<open>stdout\<close> and \<open>stderr\<close> of the outcome.
\<close>

end
